(* ===== verification/Prelude.thy ===== *)
theory Prelude
  imports Main "HOL-Library.Word" "HOL-Library.List_Lexorder" "HOL-Library.Monad_Syntax"
    "HOL-Library.AList" "HOL-Library.Sublist" "HOL-Library.Multiset"
begin

text \<open>
  Shared vocabulary of the development: the machine types of the Go code, the decimal printing
  of \<^verbatim>\<open>fmt.Sprint\<close> and \<^verbatim>\<open>strconv.Itoa\<close>, and the generic facts on lists, association lists, options
  and majorities that the component theories use.

  Conventions.  A Go \<^verbatim>\<open>uint64\<close> is a \<open>u64\<close> and wraps around; \<^verbatim>\<open>[]byte\<close> is \<open>bytes\<close>, ordered
  lexicographically as \<^verbatim>\<open>bytes.Compare\<close> does; a pointer that may be nil is an \<open>option\<close>; an operation that may
  panic returns an \<open>option\<close> whose \<open>None\<close> is the panic; a Go \<^verbatim>\<open>map\<close> whose iteration order matters is an
  association list with distinct keys, the list order being the order of the iteration, so that a
  statement about every list is a statement about every iteration order.
\<close>

type_synonym byte = "8 word"
type_synonym bytes = "byte list"
type_synonym u32 = "32 word"
type_synonym u64 = "64 word"

named_theorems sign_data_defs "definitions of the byte strings that are signed"

section \<open>Decimal printing\<close>

fun show_nat :: "nat \<Rightarrow> string" where
  "show_nat n = (if n < 10 then [char_of (48 + n)] else show_nat (n div 10) @ [char_of (48 + n mod 10)])"

declare show_nat.simps [simp del]

fun read_nat :: "string \<Rightarrow> nat \<Rightarrow> nat" where
  "read_nat [] acc = acc"
| "read_nat (c # cs) acc = read_nat cs (10 * acc + (of_char c - 48))"

lemma read_nat_append: "read_nat (xs @ ys) acc = read_nat ys (read_nat xs acc)"
  by (induction xs arbitrary: acc) auto

lemma of_char_digit: "d < 10 \<Longrightarrow> (of_char (char_of (48 + d) :: char) :: nat) = 48 + d"
  by simp

lemma read_show_nat: "read_nat (show_nat n) 0 = n"
proof (induction n rule: show_nat.induct)
  case (1 n)
  show ?case
  proof (cases "n < 10")
    case True
    then show ?thesis by (simp add: show_nat.simps [of n])
  next
    case False
    with 1 show ?thesis
      by (simp add: show_nat.simps [of n] read_nat_append)
  qed
qed

lemma show_nat_inject [simp]: "show_nat m = show_nat n \<longleftrightarrow> m = n"
  by (metis read_show_nat)

lemma show_nat_digits: "c \<in> set (show_nat n) \<Longrightarrow> \<exists>d < 10. c = char_of (48 + d :: nat)"
proof (induction n rule: show_nat.induct)
  case (1 n)
  show ?case
  proof (cases "n < 10")
    case True
    with 1 show ?thesis by (auto simp: show_nat.simps [of n] simp del: char_of_eq_iff)
  next
    case False
    with 1 consider "c \<in> set (show_nat (n div 10))" | "c = char_of (48 + n mod 10)"
      by (auto simp: show_nat.simps [of n])
    then show ?thesis
    proof cases
      case 1
      with "1.IH" False show ?thesis by blast
    next
      case 2
      moreover have "n mod 10 < 10" by simp
      ultimately show ?thesis by blast
    qed
  qed
qed

lemma char_of_48_ne_dash: "d < 10 \<Longrightarrow> char_of (48 + d :: nat) \<noteq> CHR ''-''"
proof
  assume "d < 10" and "char_of (48 + d :: nat) = CHR ''-''"
  then have "(of_char (char_of (48 + d :: nat) :: char) :: nat) = of_char (CHR ''-'')" by simp
  with \<open>d < 10\<close> show False by simp
qed

lemma dash_notin_show_nat [simp]: "CHR ''-'' \<notin> set (show_nat n)"
  by (metis show_nat_digits char_of_48_ne_dash)

lemma show_nat_nonempty [simp]: "show_nat n \<noteq> []"
  by (subst show_nat.simps) simp

definition show_u64 :: "u64 \<Rightarrow> string" where
  "show_u64 w = show_nat (unat w)"

lemma show_u64_inject [simp]: "show_u64 a = show_u64 b \<longleftrightarrow> a = b"
  by (simp add: show_u64_def word_eq_iff_unsigned [where ?'a = nat])

lemma dash_notin_show_u64 [simp]: "CHR ''-'' \<notin> set (show_u64 w)"
  by (simp add: show_u64_def)

definition Itoa :: "int \<Rightarrow> string" where
  "Itoa i = (if i < 0 then CHR ''-'' # show_nat (nat (- i)) else show_nat (nat i))"

lemma Itoa_inject [simp]: "Itoa i = Itoa j \<longleftrightarrow> i = j"
proof -
  have "show_nat m \<noteq> CHR ''-'' # xs" for m xs
    by (metis dash_notin_show_nat list.set_intros(1))
  then show ?thesis by (auto simp: Itoa_def dest: sym)
qed

text \<open>The cache key \<^verbatim>\<open>strconv.Itoa(int(id))\<close>: the conversion to \<^verbatim>\<open>int\<close> reads the word as signed.\<close>

definition cacheKey :: "u64 \<Rightarrow> string" where
  "cacheKey w = Itoa (sint w)"

lemma cacheKey_inject [simp]: "cacheKey a = cacheKey b \<longleftrightarrow> a = b"
  by (simp add: cacheKey_def word_eq_iff_signed [where ?'a = int])

definition bytes_of_string :: "string \<Rightarrow> bytes" where
  "bytes_of_string s = map (\<lambda>c. word_of_nat (of_char c)) s"

lemma byte_of_char_inject: "(word_of_nat (of_char c) :: byte) = word_of_nat (of_char d) \<longleftrightarrow> c = d"
proof
  assume "(word_of_nat (of_char c) :: byte) = word_of_nat (of_char d)"
  then have "unat (word_of_nat (of_char c) :: byte) = unat (word_of_nat (of_char d) :: byte)" by simp
  moreover have "(of_char c :: nat) < 256" "(of_char d :: nat) < 256" by simp_all
  ultimately show "c = d" by (simp add: unat_of_nat)
qed simp

lemma bytes_of_string_inject [simp]: "bytes_of_string s = bytes_of_string t \<longleftrightarrow> s = t"
  unfolding bytes_of_string_def
  by (rule inj_map_eq_map) (auto simp: inj_def byte_of_char_inject)

lemma sep_inject:
  assumes "c \<notin> set xs" "c \<notin> set ys"
  shows "xs @ c # r = ys @ c # r' \<longleftrightarrow> xs = ys \<and> r = r'"
  using assms
proof (induction xs arbitrary: ys)
  case Nil
  then show ?case by (cases ys) auto
next
  case (Cons x xs)
  then show ?case by (cases ys) auto
qed

section \<open>Majorities\<close>

lemma majorities_meet:
  assumes "finite E" "S \<subseteq> E" "T \<subseteq> E" "card E < card S + card T"
  shows "\<exists>p. p \<in> S \<and> p \<in> T"
proof (rule ccontr)
  assume "\<not> ?thesis"
  then have "S \<inter> T = {}" by blast
  moreover have "finite S" "finite T" using assms by (auto intro: finite_subset)
  ultimately have "card S + card T = card (S \<union> T)" by (simp add: card_Un_disjoint)
  also have "\<dots> \<le> card E" using assms by (intro card_mono) auto
  finally show False using assms(4) by simp
qed

end
