(* ===== verification/Encoding.thy ===== *)
theory Encoding
  imports Prelude
begin

text \<open>
  The big-endian encodings of \<^verbatim>\<open>utils/encoding.go\<close>: \<^verbatim>\<open>U32Bytes\<close>, \<^verbatim>\<open>U64Bytes\<close> and \<^verbatim>\<open>BytesU64\<close>.  The lemmas show the round trip and
  that the byte order of two encodings is the order of the numbers, on which the key layout of the
  database relies.
\<close>

unbundle bit_operations_syntax

definition U32Bytes :: "u32 \<Rightarrow> bytes" where
  "U32Bytes t = [ucast (drop_bit 24 t), ucast (drop_bit 16 t), ucast (drop_bit 8 t), ucast t]"

definition U64Bytes :: "u64 \<Rightarrow> bytes" where
  "U64Bytes n = [ucast (drop_bit 56 n), ucast (drop_bit 48 n), ucast (drop_bit 40 n), ucast (drop_bit 32 n),
     ucast (drop_bit 24 n), ucast (drop_bit 16 n), ucast (drop_bit 8 n), ucast n]"

fun be :: "nat \<Rightarrow> nat \<Rightarrow> bytes" where
  "be 0 n = []"
| "be (Suc k) n = word_of_nat (n div 256 ^ k) # be k n"

lemma ucast_byte: "(ucast (w :: 'a::len word) :: byte) = word_of_nat (unat w)"
  by simp

lemma ucast_drop_bit_byte: "(ucast (drop_bit k (w :: 'a::len word)) :: byte) = word_of_nat (unat w div 2 ^ k)"
  by (simp only: ucast_byte unat_drop_bit_eq) (simp only: drop_bit_eq_div)

lemma be_8: "be 8 n = [word_of_nat (n div 2 ^ 56), word_of_nat (n div 2 ^ 48), word_of_nat (n div 2 ^ 40),
   word_of_nat (n div 2 ^ 32), word_of_nat (n div 2 ^ 24), word_of_nat (n div 2 ^ 16), word_of_nat (n div 2 ^ 8),
   word_of_nat n]"
proof -
  have "(8::nat) = Suc (Suc (Suc (Suc (Suc (Suc (Suc (Suc 0)))))))" by simp
  then show ?thesis by (simp only: be.simps) simp
qed

lemma be_4: "be 4 n = [word_of_nat (n div 2 ^ 24), word_of_nat (n div 2 ^ 16), word_of_nat (n div 2 ^ 8),
   word_of_nat n]"
proof -
  have "(4::nat) = Suc (Suc (Suc (Suc 0)))" by simp
  then show ?thesis by (simp only: be.simps) simp
qed

lemma U64Bytes_be: "U64Bytes n = be 8 (unat n)"
  unfolding U64Bytes_def be_8 ucast_drop_bit_byte by (simp only: ucast_byte)

lemma U32Bytes_be: "U32Bytes n = be 4 (unat n)"
  unfolding U32Bytes_def be_4 ucast_drop_bit_byte by (simp only: ucast_byte)

lemma length_be [simp]: "length (be k n) = k"
  by (induction k) auto

lemma be_mod: "k \<le> j \<Longrightarrow> be k (n mod 256 ^ j) = be k n"
proof (induction k)
  case 0
  show ?case by simp
next
  case (Suc k)
  then obtain r where j: "j = k + Suc r" by (metis less_eq_Suc_le less_iff_Suc_add add_Suc_right)
  have "n mod 256 ^ j div 256 ^ k = n div 256 ^ k mod 256 ^ Suc r"
    unfolding j power_add by (simp add: mod_mult2_eq del: power_Suc)
  then have "n mod 256 ^ j div 256 ^ k mod 256 = n div 256 ^ k mod 256"
    by (simp add: mod_mult_mult2 mod_mod_cancel)
  then have "(word_of_nat (n mod 256 ^ j div 256 ^ k) :: byte) = word_of_nat (n div 256 ^ k)"
    by (simp add: word_of_nat_eq_iff take_bit_eq_mod)
  with Suc show ?case by simp
qed

lemma less_by_div_mod: "(m::nat) < n \<longleftrightarrow> m div b < n div b \<or> m div b = n div b \<and> m mod b < n mod b"
proof (cases "m div b" "n div b" rule: linorder_cases)
  case less
  then show ?thesis by (metis div_le_mono not_less)
next
  case equal
  then show ?thesis by (metis div_mult_mod_eq nat_add_left_cancel_less nat_less_le)
next
  case greater
  then show ?thesis by (metis div_le_mono not_less less_le_not_le nat_less_le)
qed

lemma be_less_iff: "m < 256 ^ k \<Longrightarrow> n < 256 ^ k \<Longrightarrow> be k m < be k n \<longleftrightarrow> m < n"
proof (induction k arbitrary: m n)
  case 0
  then show ?case by simp
next
  case (Suc k)
  let ?B = "256 ^ k :: nat"
  have d: "x div ?B < 256" if "x < 256 ^ Suc k" for x :: nat
    using that by (simp add: less_mult_imp_div_less mult.commute)
  have w: "(word_of_nat (m div ?B) :: byte) < word_of_nat (n div ?B) \<longleftrightarrow> m div ?B < n div ?B"
          "(word_of_nat (m div ?B) :: byte) = word_of_nat (n div ?B) \<longleftrightarrow> m div ?B = n div ?B"
    using d [OF Suc.prems(1)] d [OF Suc.prems(2)]
    by (simp_all add: word_less_nat_alt unat_of_nat word_of_nat_eq_iff take_bit_eq_mod)
  have "be k m < be k n \<longleftrightarrow> m mod ?B < n mod ?B"
    using Suc.IH [of "m mod ?B" "n mod ?B"] by (simp add: be_mod)
  then show ?case using less_by_div_mod [of m n ?B] by (simp add: w)
qed

definition Uint64 :: "bytes \<Rightarrow> u64" where
  "Uint64 b = ucast (b ! 7) OR push_bit 8 (ucast (b ! 6)) OR push_bit 16 (ucast (b ! 5))
     OR push_bit 24 (ucast (b ! 4)) OR push_bit 32 (ucast (b ! 3)) OR push_bit 40 (ucast (b ! 2))
     OR push_bit 48 (ucast (b ! 1)) OR push_bit 56 (ucast (b ! 0))"

definition BytesU64 :: "bytes \<Rightarrow> nat \<Rightarrow> u64 option" where
  "BytesU64 bs offset = (if offset + 8 \<le> length bs then Some (Uint64 (take 8 (drop offset bs))) else None)"

lemma byte_at: "bit (push_bit k (ucast (ucast (drop_bit k (n :: 64 word)) :: 8 word)) :: 64 word) i \<longleftrightarrow> k \<le> i \<and> i < k + 8 \<and> bit n i"
  by (auto simp: bit_simps dest: bit_imp_le_length)
lemma byte_at0: "bit (ucast (ucast (n :: 64 word) :: 8 word) :: 64 word) i \<longleftrightarrow> i < 8 \<and> bit n i"
  by (auto simp: bit_simps)

lemma bit_Uint64_U64Bytes:
  "bit (Uint64 (U64Bytes n)) i \<longleftrightarrow> (i < 8 \<or> 8 \<le> i \<and> i < 16 \<or> 16 \<le> i \<and> i < 24 \<or> 24 \<le> i \<and> i < 32
     \<or> 32 \<le> i \<and> i < 40 \<or> 40 \<le> i \<and> i < 48 \<or> 48 \<le> i \<and> i < 56 \<or> 56 \<le> i \<and> i < 64) \<and> bit n i"
  by (simp add: Uint64_def U64Bytes_def bit_or_iff byte_at byte_at0 del: push_bit_numeral) blast
lemma Uint64_U64Bytes: "Uint64 (U64Bytes n) = n"
  by (rule bit_word_eqI) (simp add: bit_Uint64_U64Bytes, linarith)

lemma length_U64Bytes [simp]: "length (U64Bytes n) = 8"
  by (simp add: U64Bytes_def)

lemma length_U32Bytes [simp]: "length (U32Bytes n) = 4"
  by (simp add: U32Bytes_def)

lemma U64Bytes_inject [simp]: "U64Bytes m = U64Bytes n \<longleftrightarrow> m = n"
  by (metis Uint64_U64Bytes)

lemma U64Bytes_less [simp]: "U64Bytes m < U64Bytes n \<longleftrightarrow> m < n"
proof -
  have "unat m < 256 ^ 8" "unat n < 256 ^ 8"
    using unsigned_less [of m, where ?'a = nat] unsigned_less [of n, where ?'a = nat] by simp_all
  then show ?thesis by (simp add: U64Bytes_be be_less_iff word_less_nat_alt del: power_numeral)
qed

lemma U32Bytes_less [simp]: "U32Bytes m < U32Bytes n \<longleftrightarrow> m < n"
proof -
  have "unat m < 256 ^ 4" "unat n < 256 ^ 4"
    using unsigned_less [of m, where ?'a = nat] unsigned_less [of n, where ?'a = nat] by simp_all
  then show ?thesis by (simp add: U32Bytes_be be_less_iff word_less_nat_alt)
qed

lemma U32Bytes_inject [simp]: "U32Bytes m = U32Bytes n \<longleftrightarrow> m = n"
  by (metis U32Bytes_less linorder_neq_iff)

lemma BytesU64_U64Bytes: "BytesU64 (xs @ U64Bytes n @ ys) (length xs) = Some n"
  by (simp add: BytesU64_def Uint64_U64Bytes)

text \<open>
  C30.  \<^verbatim>\<open>BytesU64\<close> at an offset reads back what \<^verbatim>\<open>U64Bytes\<close> wrote there, and the byte order of the encodings is the order of the numbers.
\<close>

theorem u64_bytes_codec:
  "BytesU64 (xs @ U64Bytes n @ ys) (length xs) = Some n \<and> length (U64Bytes n) = 8 \<and> (U64Bytes m < U64Bytes n \<longleftrightarrow> m < n)"
  by (simp add: BytesU64_U64Bytes)

end
