(* ===== verification/Hashing.thy ===== *)
theory Hashing
  imports Encoding
begin

text \<open>
  The hash functions of \<^verbatim>\<open>utils/consensus.go\<close> and \<^verbatim>\<open>utils/signature.go\<close>: FNV-1a with 64 bits (\<^verbatim>\<open>HashData\<close>,
  \<^verbatim>\<open>HashPublicKeyBytes\<close>) and SHA-1 (\<^verbatim>\<open>SHA1Hash\<close>), both written out as the Go standard library computes them.
\<close>

unbundle bit_operations_syntax

definition fnv_offset :: u64 where "fnv_offset = 14695981039346656037"
definition fnv_prime :: u64 where "fnv_prime = 1099511628211"

fun fnv_write :: "u64 \<Rightarrow> bytes \<Rightarrow> u64" where
  "fnv_write h [] = h"
| "fnv_write h (b # bs) = fnv_write ((h XOR ucast b) * fnv_prime) bs"

definition HashData :: "bytes \<Rightarrow> u64" where
  "HashData data = fnv_write fnv_offset data"

definition HashPublicKeyBytes :: "bytes \<Rightarrow> u64" where
  "HashPublicKeyBytes keyData = fnv_write fnv_offset keyData"

type_synonym sha1_state = "u32 \<times> u32 \<times> u32 \<times> u32 \<times> u32"

definition sha1_init :: sha1_state where
  "sha1_init = (0x67452301, 0xEFCDAB89, 0x98BADCFE, 0x10325476, 0xC3D2E1F0)"

definition sha1_pad :: "bytes \<Rightarrow> bytes" where
  "sha1_pad m = m @ [0x80] @ replicate ((119 - length m mod 64) mod 64) 0 @ U64Bytes (word_of_nat (8 * length m))"

fun be_words :: "bytes \<Rightarrow> u32 list" where
  "be_words (a # b # c # d # bs) =
     (push_bit 24 (ucast a) OR push_bit 16 (ucast b) OR push_bit 8 (ucast c) OR ucast d) # be_words bs"
| "be_words _ = []"

fun sha1_schedule :: "nat \<Rightarrow> u32 list \<Rightarrow> u32 list" where
  "sha1_schedule 0 w = w"
| "sha1_schedule (Suc k) w = (let n = length w in
     sha1_schedule k (w @ [word_rotl 1 (w ! (n - 3) XOR w ! (n - 8) XOR w ! (n - 14) XOR w ! (n - 16))]))"

definition sha1_f :: "nat \<Rightarrow> u32 \<Rightarrow> u32 \<Rightarrow> u32 \<Rightarrow> u32" where
  "sha1_f t b c d = (if t < 20 then (b AND c) OR (NOT b AND d)
     else if t < 40 then b XOR c XOR d
     else if t < 60 then (b AND c) OR (b AND d) OR (c AND d)
     else b XOR c XOR d)"

definition sha1_k :: "nat \<Rightarrow> u32" where
  "sha1_k t = (if t < 20 then 0x5A827999 else if t < 40 then 0x6ED9EBA1
     else if t < 60 then 0x8F1BBCDC else 0xCA62C1D6)"

fun sha1_rounds :: "nat \<Rightarrow> u32 list \<Rightarrow> sha1_state \<Rightarrow> sha1_state" where
  "sha1_rounds t [] st = st"
| "sha1_rounds t (w # ws) (a, b, c, d, e) =
     sha1_rounds (Suc t) ws (word_rotl 5 a + sha1_f t b c d + e + w + sha1_k t, a, word_rotl 30 b, c, d)"

definition sha1_block :: "sha1_state \<Rightarrow> bytes \<Rightarrow> sha1_state" where
  "sha1_block h blk = (case (h, sha1_rounds 0 (sha1_schedule 64 (be_words blk)) h) of
     ((h0, h1, h2, h3, h4), (a, b, c, d, e)) \<Rightarrow> (h0 + a, h1 + b, h2 + c, h3 + d, h4 + e))"

function sha1_blocks :: "sha1_state \<Rightarrow> bytes \<Rightarrow> sha1_state" where
  "sha1_blocks h bs = (if length bs < 64 then h else sha1_blocks (sha1_block h (take 64 bs)) (drop 64 bs))"
  by pat_completeness auto
termination
  by (relation "measure (\<lambda>(h, bs). length bs)") auto

declare sha1_blocks.simps [simp del]

definition SHA1Hash :: "bytes \<Rightarrow> bytes" where
  "SHA1Hash data = (case sha1_blocks sha1_init (sha1_pad data) of
     (a, b, c, d, e) \<Rightarrow> U32Bytes a @ U32Bytes b @ U32Bytes c @ U32Bytes d @ U32Bytes e)"

lemma length_SHA1Hash: "length (SHA1Hash data) = 20"
  by (simp add: SHA1Hash_def split: prod.split)

end
