(* ===== verification/Messages.thy ===== *)
theory Messages
  imports Hashing
begin

text \<open>
  The protocol messages of \<^verbatim>\<open>proto/server/server.proto\<close> and \<^verbatim>\<open>proto/client/client.proto\<close> (the structs of the
  generated \<^verbatim>\<open>server.pb.go\<close> and \<^verbatim>\<open>client.pb.go\<close>), and the byte strings that the code signs for them.
  A field that holds a pointer to another message is an \<open>option\<close>.
\<close>

section \<open>Messages\<close>

record CommandRequest =
  cmdGroup :: u64
  cmdClientId :: u64
  cmdRequestId :: u64
  cmdFuncId :: u64
  cmdSignature :: bytes
  cmdArg :: bytes

record CommandResponse =
  crGroup :: u64
  crLeaderId :: u64
  crNodeId :: u64
  crRequestId :: u64
  crSignature :: bytes
  crResult :: bytes

record LogEntry =
  leTerm :: u64
  leIndex :: u64
  leHash :: bytes
  leCommand :: "CommandRequest option"

record RequestVoteRequest =
  rvGroup :: u64
  rvTerm :: u64
  rvLogIndex :: u64
  rvLogTerm :: u64
  rvCandidateId :: u64
  rvSignature :: bytes

record RequestVoteResponse =
  voteGroup :: u64
  voteTerm :: u64
  voteLogIndex :: u64
  voteCandidateId :: u64
  voteVoter :: u64
  voteGranted :: bool
  voteSignature :: bytes

record AppendEntriesRequest =
  aeGroup :: u64
  aeTerm :: u64
  aeLeaderId :: u64
  aePrevLogIndex :: u64
  aePrevLogTerm :: u64
  aeSignature :: bytes
  aeQuorumVotes :: "RequestVoteResponse list"
  aeEntries :: "LogEntry list"

record AppendEntriesResponse =
  arGroup :: u64
  arTerm :: u64
  arIndex :: u64
  arPeer :: u64
  arSuccessed :: bool
  arConvinced :: bool
  arHash :: bytes
  arSignature :: bytes

record Peer =
  peerId :: u64
  peerGroup :: u64
  peerNextIndex :: u64
  peerMatchIndex :: u64

record Host =
  hostId :: u64
  hostLastSeen :: u64
  hostOnline :: bool
  hostServerAddr :: string
  hostPublicKey :: bytes

record RaftGroup =
  grpReplications :: u32
  grpId :: u64
  grpTerm :: u64

record ServerConfig =
  confPrivateKey :: bytes

record ApproveAppendResponse =
  aaGroup :: u64
  aaPeer :: u64
  aaIndex :: u64
  aaAppended :: bool
  aaDelayed :: bool
  aaFailed :: bool
  aaSignature :: bytes

record GroupNodesResponse =
  gnrNodes :: "Host list"
  gnrSignature :: bytes

record GroupMember =
  gmHost :: "Host option"
  gmPeer :: "Peer option"

record GroupMembersResponse =
  gmrLastEntry :: "LogEntry option"
  gmrMembers :: "GroupMember list"
  gmrSignature :: bytes

record PullGroupLogsResuest =
  pullGroup :: u64
  pullIndex :: u64

record LogEntries =
  lesEntries :: "LogEntry list"
  lesSignature :: bytes

record NodeJoinGroupEntry =
  njGroup :: u64

record GroupLeader =
  glNode :: "Host option"
  glAccuate :: bool
  glSignature :: bytes

record GroupInvitation =
  invGroup :: u64
  invLeader :: u64
  invNode :: u64
  invSignature :: bytes

record CommandResult =
  resGroup :: u64
  resNodeId :: u64
  resRequestId :: u64
  resSignature :: bytes
  resResult :: bytes

text \<open>The generated getter \<^verbatim>\<open>GetTerm\<close> of \<^verbatim>\<open>RaftGroup\<close> tolerates a nil receiver.\<close>

definition GetTerm :: "RaftGroup option \<Rightarrow> u64" where
  "GetTerm m = (case m of Some g \<Rightarrow> grpTerm g | None \<Rightarrow> 0)"

section \<open>Signed byte strings\<close>

definition CommandSignData :: "u64 \<Rightarrow> u64 \<Rightarrow> u64 \<Rightarrow> bytes \<Rightarrow> bytes" where
  [sign_data_defs]: "CommandSignData grp sender reqId data =
     ((U64Bytes grp @ U64Bytes sender) @ U64Bytes reqId) @ data"

definition ExecCommandSignData :: "CommandRequest \<Rightarrow> bytes" where
  [sign_data_defs]: "ExecCommandSignData cmd = CommandSignData (cmdGroup cmd) (cmdClientId cmd) (cmdRequestId cmd)
     (U64Bytes (cmdFuncId cmd) @ cmdArg cmd)"

definition RequestVoteRequestSignData :: "RequestVoteRequest \<Rightarrow> bytes" where
  [sign_data_defs]: "RequestVoteRequestSignData req = bytes_of_string
     (show_u64 (rvGroup req) @ ''-'' @ show_u64 (rvTerm req) @ ''-'' @ show_u64 (rvLogIndex req) @ ''-'' @
      show_u64 (rvTerm req) @ ''-'' @ show_u64 (rvCandidateId req))"

text \<open>\<^verbatim>\<open>fmt.Sprint\<close> prints a boolean as \<^verbatim>\<open>true\<close> or \<^verbatim>\<open>false\<close>.\<close>

definition show_bool :: "bool \<Rightarrow> string" where
  "show_bool b = (if b then ''true'' else ''false'')"

definition RequestVoteResponseSignData :: "RequestVoteResponse \<Rightarrow> bytes" where
  [sign_data_defs]: "RequestVoteResponseSignData res = bytes_of_string
     (show_u64 (voteGroup res) @ ''-'' @ show_u64 (voteTerm res) @ ''-'' @ show_u64 (voteLogIndex res) @ ''-'' @
      show_u64 (voteTerm res) @ ''-'' @ show_u64 (voteCandidateId res) @ ''-'' @ show_bool (voteGranted res))"

definition AppendLogEntrySignData :: "u64 \<Rightarrow> u64 \<Rightarrow> u64 \<Rightarrow> u64 \<Rightarrow> bytes" where
  [sign_data_defs]: "AppendLogEntrySignData groupId term prevIndex prevTerm = bytes_of_string
     (show_u64 groupId @ ''-'' @ show_u64 term @ ''-'' @ show_u64 prevIndex @ ''-'' @ show_u64 prevTerm)"

definition EB :: "bool \<Rightarrow> byte" where
  "EB b = (if b then 1 else 0)"

definition ApproveAppendSignData :: "ApproveAppendResponse \<Rightarrow> bytes" where
  [sign_data_defs]: "ApproveAppendSignData res =
     (U64Bytes (aaPeer res) @ [EB (aaAppended res), EB (aaDelayed res), EB (aaFailed res)])
       @ U64Bytes (aaIndex res)"

definition InvitationSignature :: "GroupInvitation \<Rightarrow> bytes" where
  [sign_data_defs]: "InvitationSignature iv = bytes_of_string
     (show_u64 (invGroup iv) @ ''-'' @ show_u64 (invNode iv) @ ''-'' @ show_u64 (invLeader iv))"

section \<open>What the signed strings determine\<close>

lemma append_same_length_inject:
  "length xs = length ys \<Longrightarrow> xs @ us = ys @ vs \<longleftrightarrow> xs = ys \<and> us = vs"
  by (rule append_eq_append_conv) simp

lemma CommandSignData_inject:
  "CommandSignData g s r d = CommandSignData g' s' r' d' \<longleftrightarrow> g = g' \<and> s = s' \<and> r = r' \<and> d = d'"
  by (simp add: CommandSignData_def append_same_length_inject)

lemma show_bool_inject [simp]: "show_bool a = show_bool b \<longleftrightarrow> a = b"
  by (simp add: show_bool_def)

lemma dash_sep [simp]:
  "show_u64 a @ CHR ''-'' # xs = show_u64 b @ CHR ''-'' # ys \<longleftrightarrow> a = b \<and> xs = ys"
  by (simp add: sep_inject)

text \<open>
  C31.  The string a client signs for a command determines the command: all of its fields but the signature itself.
\<close>

theorem ExecCommandSignData_inject:
  "ExecCommandSignData c = ExecCommandSignData c' \<longleftrightarrow>
     c' = c\<lparr>cmdSignature := cmdSignature c'\<rparr>"
  by (cases c; cases c')
    (auto simp: ExecCommandSignData_def CommandSignData_inject append_same_length_inject)

text \<open>
  The string a peer signs for a vote determines the group, the term, the log index, the candidate and whether the vote is granted, and
  not the voter: only the key tells whose vote it is.
\<close>

theorem RequestVoteResponseSignData_inject:
  "RequestVoteResponseSignData v = RequestVoteResponseSignData v' \<longleftrightarrow>
     v' = v\<lparr>voteVoter := voteVoter v', voteSignature := voteSignature v'\<rparr>"
  by (cases v; cases v') (auto simp: RequestVoteResponseSignData_def)

lemma RequestVoteRequestSignData_inject:
  "RequestVoteRequestSignData v = RequestVoteRequestSignData v' \<longleftrightarrow>
     v' = v\<lparr>rvLogTerm := rvLogTerm v', rvSignature := rvSignature v'\<rparr>"
  by (cases v; cases v') (auto simp: RequestVoteRequestSignData_def)

lemma InvitationSignature_inject:
  "InvitationSignature v = InvitationSignature v' \<longleftrightarrow> v' = v\<lparr>invSignature := invSignature v'\<rparr>"
  by (cases v; cases v') (auto simp: InvitationSignature_def)

lemma EB_inject [simp]: "EB a = EB b \<longleftrightarrow> a = b"
  by (simp add: EB_def)

lemma ApproveAppendSignData_inject:
  "ApproveAppendSignData v = ApproveAppendSignData v' \<longleftrightarrow>
     v' = v\<lparr>aaGroup := aaGroup v', aaSignature := aaSignature v'\<rparr>"
  by (cases v; cases v') (auto simp: ApproveAppendSignData_def append_same_length_inject)

end
