(* ===== verification/Libraries.thy ===== *)
theory Libraries
  imports Messages
begin

text \<open>
  The third-party packages and the public-key cryptography the code calls are parameters of the
  model: one record \<open>lib\<close> of functions, an argument of every definition that uses it.

  \<^item> badger (\<^verbatim>\<open>github.com/dgraph-io/badger\<close>): \<open>'db\<close> is a database state.  \<open>txnGet\<close>, \<open>txnSet\<close> and
    \<open>txnCommit\<close> are \<^verbatim>\<open>Txn.Get\<close>, \<^verbatim>\<open>Txn.Set\<close> and the commit at the end of \<^verbatim>\<open>DB.Update\<close>; \<open>iterSeek db rev k\<close> are
    the items an iterator with option \<^verbatim>\<open>Reverse: rev\<close> yields after \<^verbatim>\<open>Seek(k)\<close>.  An item is its key and the
    result of \<^verbatim>\<open>Item.Value\<close>.
  \<^item> protobuf (\<^verbatim>\<open>github.com/golang/protobuf/proto\<close>): \<open>marshalT\<close> is \<^verbatim>\<open>proto.Marshal\<close> (\<open>None\<close> for an error);
    \<open>unmarshalT\<close> is \<^verbatim>\<open>proto.Unmarshal\<close> into a fresh message: the message as far as it was filled and
    whether the call succeeded.
  \<^item> \<^verbatim>\<open>crypto/rsa\<close> and \<^verbatim>\<open>crypto/x509\<close>: signatures over a SHA-1 digest and the key formats.
  \<^item> grpc: \<open>dialOK addr\<close> says that \<^verbatim>\<open>grpc.Dial(addr)\<close> succeeds.
  \<^item> \<open>userFunc\<close>: the state machine functions an application registers with \<^verbatim>\<open>RegisterRaftFunc\<close>.

  The locales state the documented behaviour the code relies on.
\<close>

datatype kv_error = ErrKeyNotFound | ErrOther

type_synonym kv_item = "bytes \<times> (kv_error + bytes)"

record rsa_PublicKey =
  rsaN :: int
  rsaE :: int

record rsa_PrivateKey =
  rsaPublicKey :: rsa_PublicKey
  rsaD :: int

record 'db lib =
  txnGet :: "'db \<Rightarrow> bytes \<Rightarrow> kv_error + kv_item"
  txnSet :: "'db \<Rightarrow> bytes \<Rightarrow> bytes \<Rightarrow> kv_error + 'db"
  txnCommit :: "'db \<Rightarrow> kv_error + 'db"
  iterSeek :: "'db \<Rightarrow> bool \<Rightarrow> bytes \<Rightarrow> kv_item list"
  marshalLogEntry :: "LogEntry \<Rightarrow> bytes option"
  unmarshalLogEntry :: "bytes \<Rightarrow> LogEntry \<times> bool"
  marshalPeer :: "Peer \<Rightarrow> bytes option"
  unmarshalPeer :: "bytes \<Rightarrow> Peer \<times> bool"
  marshalHost :: "Host \<Rightarrow> bytes option"
  unmarshalHost :: "bytes \<Rightarrow> Host \<times> bool"
  marshalRaftGroup :: "RaftGroup \<Rightarrow> bytes option"
  unmarshalRaftGroup :: "bytes \<Rightarrow> RaftGroup \<times> bool"
  marshalNodeJoin :: "NodeJoinGroupEntry \<Rightarrow> bytes option"
  unmarshalNodeJoin :: "bytes \<Rightarrow> NodeJoinGroupEntry \<times> bool"
  marshalServerConfig :: "ServerConfig \<Rightarrow> bytes option"
  unmarshalServerConfig :: "bytes \<Rightarrow> ServerConfig \<times> bool"
  marshalGroupMember :: "GroupMember \<Rightarrow> bytes option"
  signPKCS1v15 :: "rsa_PrivateKey \<Rightarrow> bytes \<Rightarrow> bytes"
  verifyPKCS1v15 :: "rsa_PublicKey \<Rightarrow> bytes \<Rightarrow> bytes \<Rightarrow> bool"
  parsePKIXPublicKey :: "bytes \<Rightarrow> rsa_PublicKey option"
  marshalPKIXPublicKey :: "rsa_PublicKey \<Rightarrow> bytes option"
  parsePKCS1PrivateKey :: "bytes \<Rightarrow> rsa_PrivateKey option"
  marshalPKCS1PrivateKey :: "rsa_PrivateKey \<Rightarrow> bytes"
  dialOK :: "string \<Rightarrow> bool"
  userFunc :: "nat \<Rightarrow> bytes \<Rightarrow> LogEntry \<Rightarrow> bytes"

section \<open>Transactions\<close>

text \<open>The contents of a database as the map from keys to values that \<^verbatim>\<open>Txn.Get\<close> shows.\<close>

definition kv :: "'db lib \<Rightarrow> 'db \<Rightarrow> bytes \<rightharpoonup> bytes" where
  "kv L db k = (case txnGet L db k of
     Inl e \<Rightarrow> None
   | Inr (k', val) \<Rightarrow> (case val of Inl e \<Rightarrow> None | Inr v \<Rightarrow> Some v))"

text \<open>
  \<^verbatim>\<open>DB.Update(f)\<close> runs \<open>f\<close> in a read-write transaction, relays its error and discards its writes, or commits
  them; the commit may fail too.  The function may panic (\<open>None\<close>).
\<close>

datatype 'e update_error = TxnError 'e | CommitError kv_error

definition dbUpdate :: "'db lib \<Rightarrow> 'db \<Rightarrow> ('db \<Rightarrow> ('e + 'db) option) \<Rightarrow> ('e update_error option \<times> 'db) option" where
  "dbUpdate L db f = (case f db of
     None \<Rightarrow> None
   | Some (Inl e) \<Rightarrow> Some (Some (TxnError e), db)
   | Some (Inr db') \<Rightarrow> (case txnCommit L db' of
       Inl e \<Rightarrow> Some (Some (CommitError e), db)
     | Inr db'' \<Rightarrow> Some (None, db'')))"

section \<open>Documented behaviour\<close>

locale badger =
  fixes L :: "'db lib"
  assumes get: "txnGet L db k = (case kv L db k of None \<Rightarrow> Inl ErrKeyNotFound | Some v \<Rightarrow> Inr (k, Inr v))"
    and set: "txnSet L db k v = Inr db' \<Longrightarrow> kv L db' = (kv L db)(k \<mapsto> v)"
    and commit: "txnCommit L db = Inr db' \<Longrightarrow> kv L db' = kv L db"
    and finite_dom: "finite (dom (kv L db))"
    and seek_forward: "iterSeek L db False k =
      map (\<lambda>k'. (k', Inr (the (kv L db k')))) (sorted_list_of_set {k' \<in> dom (kv L db). k \<le> k'})"
    and seek_reverse: "iterSeek L db True k =
      map (\<lambda>k'. (k', Inr (the (kv L db k')))) (rev (sorted_list_of_set {k' \<in> dom (kv L db). k' \<le> k}))"

locale protobuf =
  fixes L :: "'db lib"
  assumes log_entry: "marshalLogEntry L e = Some b \<Longrightarrow> unmarshalLogEntry L b = (e, True)"
    and peer: "marshalPeer L p = Some b \<Longrightarrow> unmarshalPeer L b = (p, True)"
    and host: "marshalHost L h = Some b \<Longrightarrow> unmarshalHost L b = (h, True)"
    and raft_group: "marshalRaftGroup L g = Some b \<Longrightarrow> unmarshalRaftGroup L b = (g, True)"
    and server_config: "marshalServerConfig L c = Some b \<Longrightarrow> unmarshalServerConfig L b = (c, True)"
    and node_join: "marshalNodeJoin L j = Some b \<Longrightarrow> unmarshalNodeJoin L b = (j, True)"

locale rsa =
  fixes L :: "'db lib"
  assumes verify_sign: "verifyPKCS1v15 L (rsaPublicKey k) d (signPKCS1v15 L k d)"
    and parse_marshal: "marshalPKIXPublicKey L pk = Some b \<Longrightarrow> parsePKIXPublicKey L b = Some pk"
    and parse_marshal_private: "parsePKCS1PrivateKey L (marshalPKCS1PrivateKey L k) = Some k"

locale libraries = badger L + protobuf L + rsa L for L :: "'db lib"

end
