(* ===== verification/Reference_Libraries.thy ===== *)
theory Reference_Libraries
  imports Libraries
begin

text \<open>
  A concrete instance of the library parameter: an in-memory ordered key-value store, a
  self-delimiting message codec and a transparent signature scheme.  It shows that the documented
  behaviour assumed of the libraries is consistent, and the concrete runs in the
  development are evaluated on it.
\<close>

section \<open>An in-memory store\<close>

type_synonym memdb = "(bytes \<times> bytes) list"

definition mem_keys :: "memdb \<Rightarrow> (bytes \<Rightarrow> bool) \<Rightarrow> bytes list" where
  "mem_keys db P = sort (remdups (filter P (map fst db)))"

definition mem_get :: "memdb \<Rightarrow> bytes \<Rightarrow> kv_error + kv_item" where
  "mem_get db k = (case map_of db k of None \<Rightarrow> Inl ErrKeyNotFound | Some v \<Rightarrow> Inr (k, Inr v))"

definition mem_seek :: "memdb \<Rightarrow> bool \<Rightarrow> bytes \<Rightarrow> kv_item list" where
  "mem_seek db r k = map (\<lambda>k'. (k', Inr (the (map_of db k'))))
     (if r then rev (mem_keys db (\<lambda>k'. k' \<le> k)) else mem_keys db (\<lambda>k'. k \<le> k'))"

section \<open>A codec\<close>

fun enc_bytes :: "bytes \<Rightarrow> bytes" where
  "enc_bytes [] = [0]"
| "enc_bytes (b # bs) = 1 # b # enc_bytes bs"

fun dec_bytes :: "bytes \<Rightarrow> bytes \<times> bytes" where
  "dec_bytes (t # b # r) = (if t = 0 then ([], b # r) else (let (x, r') = dec_bytes r in (b # x, r')))"
| "dec_bytes _ = ([], [])"

lemma dec_enc_bytes [simp]: "dec_bytes (enc_bytes bs @ r) = (bs, r)"
  by (induction bs) (cases r; simp)+

definition dec_u64 :: "bytes \<Rightarrow> u64 \<times> bytes" where
  "dec_u64 bs = (Uint64 (take 8 bs), drop 8 bs)"

lemma dec_enc_u64 [simp]: "dec_u64 (U64Bytes n @ r) = (n, r)"
  by (simp add: dec_u64_def Uint64_U64Bytes)

definition enc_bool :: "bool \<Rightarrow> bytes" where
  "enc_bool b = [if b then 1 else 0]"

definition dec_bool :: "bytes \<Rightarrow> bool \<times> bytes" where
  "dec_bool bs = (take 1 bs = [1], drop 1 bs)"

lemma dec_enc_bool [simp]: "dec_bool (enc_bool b @ r) = (b, r)"
  by (simp add: dec_bool_def enc_bool_def)

definition enc_cmd :: "CommandRequest \<Rightarrow> bytes" where
  "enc_cmd c = U64Bytes (cmdGroup c) @ U64Bytes (cmdClientId c) @ U64Bytes (cmdRequestId c) @
     U64Bytes (cmdFuncId c) @ enc_bytes (cmdSignature c) @ enc_bytes (cmdArg c)"

definition dec_cmd :: "bytes \<Rightarrow> CommandRequest \<times> bytes" where
  "dec_cmd bs = (let (g, bs) = dec_u64 bs; (c, bs) = dec_u64 bs; (r, bs) = dec_u64 bs; (f, bs) = dec_u64 bs;
     (s, bs) = dec_bytes bs; (a, bs) = dec_bytes bs
     in (\<lparr>cmdGroup = g, cmdClientId = c, cmdRequestId = r, cmdFuncId = f, cmdSignature = s, cmdArg = a\<rparr>, bs))"

lemma dec_enc_cmd [simp]: "dec_cmd (enc_cmd c @ r) = (c, r)"
  by (simp add: dec_cmd_def enc_cmd_def)

definition enc_log_entry :: "LogEntry \<Rightarrow> bytes" where
  "enc_log_entry e = U64Bytes (leTerm e) @ U64Bytes (leIndex e) @ enc_bytes (leHash e) @
     (case leCommand e of None \<Rightarrow> enc_bool False | Some c \<Rightarrow> enc_bool True @ enc_cmd c)"

definition dec_log_entry :: "bytes \<Rightarrow> LogEntry \<times> bool" where
  "dec_log_entry bs = (let (t, bs) = dec_u64 bs; (i, bs) = dec_u64 bs; (h, bs) = dec_bytes bs; (b, bs) = dec_bool bs
     in (\<lparr>leTerm = t, leIndex = i, leHash = h, leCommand = if b then Some (fst (dec_cmd bs)) else None\<rparr>, True))"

lemma dec_enc_log_entry [simp]: "dec_log_entry (enc_log_entry e) = (e, True)"
  using dec_enc_bool [of False "[]"] dec_enc_cmd [of _ "[]"]
  by (cases "leCommand e") (simp_all add: dec_log_entry_def enc_log_entry_def del: dec_enc_cmd)

definition enc_peer :: "Peer \<Rightarrow> bytes" where
  "enc_peer p = U64Bytes (peerId p) @ U64Bytes (peerGroup p) @ U64Bytes (peerNextIndex p) @ U64Bytes (peerMatchIndex p) @ []"

definition dec_peer :: "bytes \<Rightarrow> Peer \<times> bool" where
  "dec_peer bs = (let (i, bs) = dec_u64 bs; (g, bs) = dec_u64 bs; (n, bs) = dec_u64 bs; (m, bs) = dec_u64 bs
     in (\<lparr>peerId = i, peerGroup = g, peerNextIndex = n, peerMatchIndex = m\<rparr>, True))"

lemma dec_enc_peer [simp]: "dec_peer (enc_peer p) = (p, True)"
  unfolding enc_peer_def dec_peer_def by (simp only: dec_enc_u64 Let_def prod.case) simp

definition enc_host :: "Host \<Rightarrow> bytes" where
  "enc_host h = U64Bytes (hostId h) @ U64Bytes (hostLastSeen h) @ enc_bool (hostOnline h) @
     enc_bytes (bytes_of_string (hostServerAddr h)) @ enc_bytes (hostPublicKey h) @ []"

definition string_of_bytes :: "bytes \<Rightarrow> string" where
  "string_of_bytes bs = map (\<lambda>b. char_of (unat b)) bs"

lemma string_of_bytes_inverse [simp]: "string_of_bytes (bytes_of_string s) = s"
proof -
  have "(of_char c :: nat) mod 256 = of_char c" for c :: char by simp
  then show ?thesis
    by (simp add: string_of_bytes_def bytes_of_string_def unat_of_nat comp_def)
qed

definition dec_host :: "bytes \<Rightarrow> Host \<times> bool" where
  "dec_host bs = (let (i, bs) = dec_u64 bs; (l, bs) = dec_u64 bs; (b, bs) = dec_bool bs; (a, bs) = dec_bytes bs;
     (k, bs) = dec_bytes bs
     in (\<lparr>hostId = i, hostLastSeen = l, hostOnline = b, hostServerAddr = string_of_bytes a, hostPublicKey = k\<rparr>, True))"

lemma dec_enc_host [simp]: "dec_host (enc_host h) = (h, True)"
  unfolding enc_host_def dec_host_def
  by (simp only: dec_enc_u64 dec_enc_bytes dec_enc_bool Let_def prod.case) simp

definition enc_group :: "RaftGroup \<Rightarrow> bytes" where
  "enc_group g = U64Bytes (ucast (grpReplications g)) @ U64Bytes (grpId g) @ U64Bytes (grpTerm g) @ []"

definition dec_group :: "bytes \<Rightarrow> RaftGroup \<times> bool" where
  "dec_group bs = (let (n, bs) = dec_u64 bs; (i, bs) = dec_u64 bs; (t, bs) = dec_u64 bs
     in (\<lparr>grpReplications = ucast n, grpId = i, grpTerm = t\<rparr>, True))"

lemma ucast_u64_u32: "(ucast (ucast (w :: u32) :: u64) :: u32) = w"
  by (rule bit_word_eqI) (simp add: bit_simps)

lemma dec_enc_group [simp]: "dec_group (enc_group g) = (g, True)"
  unfolding enc_group_def dec_group_def by (simp only: dec_enc_u64 Let_def prod.case) (simp add: ucast_u64_u32)

definition enc_join :: "NodeJoinGroupEntry \<Rightarrow> bytes" where
  "enc_join j = U64Bytes (njGroup j) @ []"

definition dec_join :: "bytes \<Rightarrow> NodeJoinGroupEntry \<times> bool" where
  "dec_join bs = (let (g, bs) = dec_u64 bs in (\<lparr>njGroup = g\<rparr>, True))"

lemma dec_enc_join [simp]: "dec_join (enc_join j) = (j, True)"
  unfolding enc_join_def dec_join_def by (simp only: dec_enc_u64 Let_def prod.case) simp

definition enc_config :: "ServerConfig \<Rightarrow> bytes" where
  "enc_config c = enc_bytes (confPrivateKey c) @ []"

definition dec_config :: "bytes \<Rightarrow> ServerConfig \<times> bool" where
  "dec_config bs = (let (k, bs) = dec_bytes bs in (\<lparr>confPrivateKey = k\<rparr>, True))"

lemma dec_enc_config [simp]: "dec_config (enc_config c) = (c, True)"
  unfolding enc_config_def dec_config_def by (simp only: dec_enc_bytes Let_def prod.case) simp

definition enc_member :: "GroupMember \<Rightarrow> bytes" where
  "enc_member m = (case gmHost m of None \<Rightarrow> enc_bool False | Some h \<Rightarrow> enc_bool True @ enc_host h) @
     (case gmPeer m of None \<Rightarrow> enc_bool False | Some p \<Rightarrow> enc_bool True @ enc_peer p)"

definition enc_pkix :: "rsa_PublicKey \<Rightarrow> bytes" where
  "enc_pkix pk = bytes_of_string (Itoa (rsaN pk) @ '','' @ Itoa (rsaE pk))"

section \<open>The instance\<close>

fun read_int :: "string \<Rightarrow> int" where
  "read_int [] = 0"
| "read_int (c # cs) = (if c = CHR ''-'' then - int (read_nat cs 0) else int (read_nat (c # cs) 0))"

definition dec_pkix :: "bytes \<Rightarrow> rsa_PublicKey option" where
  "dec_pkix b = (let s = string_of_bytes b in
     if CHR '','' \<in> set s
     then Some \<lparr>rsaN = read_int (takeWhile (\<lambda>c. c \<noteq> CHR '','') s), rsaE = read_int (tl (dropWhile (\<lambda>c. c \<noteq> CHR '','') s))\<rparr>
     else None)"

lemma comma_notin_show_nat: "CHR '','' \<notin> set (show_nat n)"
proof
  assume "CHR '','' \<in> set (show_nat n)"
  then obtain d where "d < 10" "CHR '','' = char_of (48 + d :: nat)" using show_nat_digits by blast
  then have "(of_char (CHR '','') :: nat) = of_char (char_of (48 + d :: nat) :: char)" by simp
  with \<open>d < 10\<close> show False by simp
qed

lemma comma_notin_Itoa: "CHR '','' \<notin> set (Itoa i)"
  using comma_notin_show_nat by (auto simp: Itoa_def)

lemma read_int_show_nat: "read_int (show_nat n) = int n"
proof -
  obtain c cs where s: "show_nat n = c # cs" by (meson list.exhaust show_nat_nonempty)
  then have "c \<noteq> CHR ''-''" using dash_notin_show_nat [of n] by auto
  with s show ?thesis using read_show_nat [of n] by simp
qed

lemma read_int_Itoa: "read_int (Itoa i) = i"
  by (auto simp: Itoa_def read_int_show_nat read_show_nat)

lemma dec_enc_pkix: "dec_pkix (enc_pkix pk) = Some pk"
proof -
  have ne: "\<And>c i. c \<in> set (Itoa i) \<Longrightarrow> c \<noteq> CHR '',''" using comma_notin_Itoa by blast
  have "takeWhile (\<lambda>c. c \<noteq> CHR '','') (Itoa i @ CHR '','' # r) = Itoa i" for i r
    using ne by (subst takeWhile_append2) auto
  moreover have "dropWhile (\<lambda>c. c \<noteq> CHR '','') (Itoa i @ CHR '','' # r) = CHR '','' # r" for i r
    using ne by (subst dropWhile_append2) auto
  ultimately show ?thesis by (simp add: dec_pkix_def enc_pkix_def read_int_Itoa)
qed

definition enc_key :: "rsa_PrivateKey \<Rightarrow> bytes" where
  "enc_key k = enc_bytes (enc_pkix (rsaPublicKey k)) @ bytes_of_string (Itoa (rsaD k))"

definition dec_key :: "bytes \<Rightarrow> rsa_PrivateKey option" where
  "dec_key b = (let (p, d) = dec_bytes b in
     map_option (\<lambda>pk. \<lparr>rsaPublicKey = pk, rsaD = read_int (string_of_bytes d)\<rparr>) (dec_pkix p))"

lemma dec_enc_key: "dec_key (enc_key k) = Some k"
  by (simp add: dec_key_def enc_key_def dec_enc_pkix read_int_Itoa)

definition mem_lib :: "memdb lib" where
  "mem_lib = \<lparr>txnGet = mem_get, txnSet = (\<lambda>db k v. Inr (AList.update k v db)), txnCommit = Inr, iterSeek = mem_seek,
     marshalLogEntry = Some \<circ> enc_log_entry, unmarshalLogEntry = dec_log_entry,
     marshalPeer = Some \<circ> enc_peer, unmarshalPeer = dec_peer,
     marshalHost = Some \<circ> enc_host, unmarshalHost = dec_host,
     marshalRaftGroup = Some \<circ> enc_group, unmarshalRaftGroup = dec_group,
     marshalNodeJoin = Some \<circ> enc_join, unmarshalNodeJoin = dec_join,
     marshalServerConfig = Some \<circ> enc_config, unmarshalServerConfig = dec_config,
     marshalGroupMember = Some \<circ> enc_member,
     signPKCS1v15 = (\<lambda>k d. enc_pkix (rsaPublicKey k) @ d), verifyPKCS1v15 = (\<lambda>pk d s. s = enc_pkix pk @ d),
     parsePKIXPublicKey = dec_pkix, marshalPKIXPublicKey = Some \<circ> enc_pkix,
     parsePKCS1PrivateKey = dec_key, marshalPKCS1PrivateKey = enc_key,
     dialOK = (\<lambda>addr. addr \<noteq> []), userFunc = (\<lambda>n arg entry. arg)\<rparr>"

lemma mem_lib_sel [simp]:
  "txnGet mem_lib = mem_get" "txnSet mem_lib db k v = Inr (AList.update k v db)" "txnCommit mem_lib db = Inr db"
  "iterSeek mem_lib = mem_seek"
  "marshalLogEntry mem_lib e = Some (enc_log_entry e)" "unmarshalLogEntry mem_lib = dec_log_entry"
  "marshalPeer mem_lib p = Some (enc_peer p)" "unmarshalPeer mem_lib = dec_peer"
  "marshalHost mem_lib h = Some (enc_host h)" "unmarshalHost mem_lib = dec_host"
  "marshalRaftGroup mem_lib g = Some (enc_group g)" "unmarshalRaftGroup mem_lib = dec_group"
  "marshalNodeJoin mem_lib j = Some (enc_join j)" "unmarshalNodeJoin mem_lib = dec_join"
  "marshalServerConfig mem_lib c = Some (enc_config c)" "unmarshalServerConfig mem_lib = dec_config"
  "marshalGroupMember mem_lib m = Some (enc_member m)"
  "signPKCS1v15 mem_lib pr d = enc_pkix (rsaPublicKey pr) @ d"
  "verifyPKCS1v15 mem_lib pk d sg \<longleftrightarrow> sg = enc_pkix pk @ d"
  "parsePKIXPublicKey mem_lib = dec_pkix" "marshalPKIXPublicKey mem_lib pk = Some (enc_pkix pk)"
  "parsePKCS1PrivateKey mem_lib = dec_key" "marshalPKCS1PrivateKey mem_lib = enc_key"
  "dialOK mem_lib addr \<longleftrightarrow> addr \<noteq> []" "userFunc mem_lib n arg entry = arg"
  by (simp_all add: mem_lib_def)

lemma kv_mem: "kv mem_lib db = map_of db"
  by (auto simp: kv_def mem_get_def split: option.splits)

lemma mem_keys_eq: "mem_keys db P = sorted_list_of_set {k \<in> dom (map_of db). P k}"
proof -
  have "{k \<in> dom (map_of db). P k} = set (filter P (map fst db))" by (auto simp: dom_map_of_conv_image_fst)
  then show ?thesis by (simp only: mem_keys_def sorted_list_of_set_sort_remdups)
qed

interpretation mem: libraries mem_lib
proof unfold_locales
  fix db :: memdb and k v
  show "txnGet mem_lib db k = (case kv mem_lib db k of None \<Rightarrow> Inl ErrKeyNotFound | Some v \<Rightarrow> Inr (k, Inr v))"
    by (simp add: kv_mem mem_get_def)
  show "finite (dom (kv mem_lib db))" by (simp add: kv_mem finite_dom_map_of)
  show "iterSeek mem_lib db False k =
      map (\<lambda>k'. (k', Inr (the (kv mem_lib db k')))) (sorted_list_of_set {k' \<in> dom (kv mem_lib db). k \<le> k'})"
    by (simp add: kv_mem mem_seek_def mem_keys_eq)
  show "iterSeek mem_lib db True k =
      map (\<lambda>k'. (k', Inr (the (kv mem_lib db k')))) (rev (sorted_list_of_set {k' \<in> dom (kv mem_lib db). k' \<le> k}))"
    by (simp add: kv_mem mem_seek_def mem_keys_eq)
qed (auto simp: kv_mem update_conv' dec_enc_pkix dec_enc_key)

end
