(* ===== verification/Store.thy ===== *)
theory Store
  imports Reference_Libraries
begin

text \<open>
  The key layout of the database (\<^verbatim>\<open>server/store.go\<close>, \<^verbatim>\<open>LogEntryKey\<close> of \<^verbatim>\<open>server/log_entries.go\<close>) and the
  signature helpers of \<^verbatim>\<open>utils/signature.go\<close> and \<^verbatim>\<open>utils/shares.go\<close>.  The lemmas show that keys of
  different kinds or groups never share a prefix and that the keys of one log are ordered as its indices.
\<close>

section \<open>Keys\<close>

definition LOG_ENTRIES :: u32 where "LOG_ENTRIES = 0"
definition GROUP_PEERS :: u32 where "GROUP_PEERS = 1"
definition GROUP_META :: u32 where "GROUP_META = 2"
definition HOST_LIST :: u32 where "HOST_LIST = 3"
definition SERVER_CONF :: u32 where "SERVER_CONF = 100"
definition HOST_LIST_GROUP :: u64 where "HOST_LIST_GROUP = 1"
definition CONFIG_GROUP :: u64 where "CONFIG_GROUP = 0"
definition ALPHA_GROUP :: u64 where "ALPHA_GROUP = 1"
definition MAX_TERM_BUMP :: u64 where "MAX_TERM_BUMP = 20"

lemmas kind_defs = LOG_ENTRIES_def GROUP_PEERS_def GROUP_META_def HOST_LIST_def SERVER_CONF_def

lemma kinds_distinct [simp]:
  "LOG_ENTRIES \<noteq> GROUP_PEERS" "LOG_ENTRIES \<noteq> GROUP_META" "LOG_ENTRIES \<noteq> HOST_LIST" "LOG_ENTRIES \<noteq> SERVER_CONF"
  "GROUP_PEERS \<noteq> LOG_ENTRIES" "GROUP_META \<noteq> LOG_ENTRIES" "HOST_LIST \<noteq> LOG_ENTRIES" "SERVER_CONF \<noteq> LOG_ENTRIES"
  "GROUP_PEERS \<noteq> GROUP_META" "GROUP_PEERS \<noteq> HOST_LIST" "GROUP_META \<noteq> GROUP_PEERS" "HOST_LIST \<noteq> GROUP_PEERS"
  "GROUP_META \<noteq> HOST_LIST" "HOST_LIST \<noteq> GROUP_META"
  by (simp_all add: kind_defs)

definition ComposeKeyPrefix :: "u64 \<Rightarrow> u32 \<Rightarrow> bytes" where
  "ComposeKeyPrefix g t = U32Bytes t @ U64Bytes g"

definition ItemValue :: "kv_item option \<Rightarrow> bytes option" where
  "ItemValue item = (case item of
     None \<Rightarrow> None
   | Some (k, val) \<Rightarrow> (case val of Inr v \<Rightarrow> Some v | Inl err \<Rightarrow> None))"

definition LogEntryKey :: "u64 \<Rightarrow> u64 \<Rightarrow> bytes" where
  "LogEntryKey groupId entryIndex = ComposeKeyPrefix groupId LOG_ENTRIES @ U64Bytes entryIndex"

text \<open>Keys built by \<^verbatim>\<open>SavePeer\<close>, \<^verbatim>\<open>SaveHost\<close> and \<^verbatim>\<open>SaveGroup\<close>.\<close>

definition PeerKey :: "u64 \<Rightarrow> u64 \<Rightarrow> bytes" where
  "PeerKey grp pid = ComposeKeyPrefix grp GROUP_PEERS @ U64Bytes pid"

definition HostKey :: "u64 \<Rightarrow> bytes" where
  "HostKey nodeId = ComposeKeyPrefix HOST_LIST_GROUP HOST_LIST @ U64Bytes nodeId"

definition GroupKey :: "u64 \<Rightarrow> bytes" where
  "GroupKey groupId = ComposeKeyPrefix groupId GROUP_META"

lemma length_ComposeKeyPrefix [simp]: "length (ComposeKeyPrefix g t) = 12"
  by (simp add: ComposeKeyPrefix_def)

lemma ComposeKeyPrefix_inject [simp]:
  "ComposeKeyPrefix g t = ComposeKeyPrefix g' t' \<longleftrightarrow> g = g' \<and> t = t'"
  by (auto simp: ComposeKeyPrefix_def append_same_length_inject)

lemma composed_append_inject [simp]:
  "ComposeKeyPrefix g t @ r = ComposeKeyPrefix g' t' @ r' \<longleftrightarrow> g = g' \<and> t = t' \<and> r = r'"
  by (auto simp: append_same_length_inject)

lemma prefix_composed [simp]:
  "prefix (ComposeKeyPrefix g t) (ComposeKeyPrefix g' t' @ r) \<longleftrightarrow> g = g' \<and> t = t'"
  by (auto simp: prefix_def)

lemma prefix_composed_self [simp]:
  "prefix (ComposeKeyPrefix g t) (ComposeKeyPrefix g' t') \<longleftrightarrow> g = g' \<and> t = t'"
  using prefix_composed [of g t g' t' "[]"] by simp

lemma LogEntryKey_inject [simp]: "LogEntryKey g i = LogEntryKey g' i' \<longleftrightarrow> g = g' \<and> i = i'"
  by (simp add: LogEntryKey_def)

lemma append_less_append [simp]: "(xs :: bytes) @ ys < xs @ zs \<longleftrightarrow> ys < zs"
  by (induction xs) auto

lemma LogEntryKey_less [simp]: "LogEntryKey g i < LogEntryKey g j \<longleftrightarrow> i < j"
  by (simp add: LogEntryKey_def)

lemma LogEntryKey_le [simp]: "LogEntryKey g i \<le> LogEntryKey g j \<longleftrightarrow> i \<le> j"
  by (simp flip: linorder_not_less)

lemma key_prefixes [simp]:
  "prefix (ComposeKeyPrefix g t) (LogEntryKey g' i) \<longleftrightarrow> g = g' \<and> t = LOG_ENTRIES"
  "prefix (ComposeKeyPrefix g t) (PeerKey g' p) \<longleftrightarrow> g = g' \<and> t = GROUP_PEERS"
  "prefix (ComposeKeyPrefix g t) (HostKey n) \<longleftrightarrow> g = HOST_LIST_GROUP \<and> t = HOST_LIST"
  "prefix (ComposeKeyPrefix g t) (GroupKey g') \<longleftrightarrow> g = g' \<and> t = GROUP_META"
  by (simp_all add: LogEntryKey_def PeerKey_def HostKey_def GroupKey_def)

lemma keys_inject [simp]:
  "PeerKey g p = PeerKey g' p' \<longleftrightarrow> g = g' \<and> p = p'" "HostKey n = HostKey n' \<longleftrightarrow> n = n'"
  "GroupKey g = GroupKey g' \<longleftrightarrow> g = g'"
  by (simp_all add: PeerKey_def HostKey_def GroupKey_def)

lemma keys_disjoint [simp]:
  "LogEntryKey g i \<noteq> PeerKey g' p" "LogEntryKey g i \<noteq> HostKey n" "LogEntryKey g i \<noteq> GroupKey g'"
  "PeerKey g' p \<noteq> LogEntryKey g i" "HostKey n \<noteq> LogEntryKey g i" "GroupKey g' \<noteq> LogEntryKey g i"
  "PeerKey g p \<noteq> HostKey n" "PeerKey g p \<noteq> GroupKey g'" "HostKey n \<noteq> PeerKey g p" "HostKey n \<noteq> GroupKey g"
  "GroupKey g' \<noteq> PeerKey g p" "GroupKey g \<noteq> HostKey n"
  using key_prefixes kinds_distinct by metis+

text \<open>The last possible key of a log, from which \<^verbatim>\<open>ReversedLogIterator\<close> searches backwards.\<close>

lemma LogEntryKey_max: "LogEntryKey g i \<le> LogEntryKey g (- 1)"
  by (simp add: word_order.extremum)

lemma between_same_prefix:
  fixes p :: bytes
  assumes "p @ u \<le> a" "a \<le> p @ v"
  shows "prefix p a"
  using assms
proof (induction p arbitrary: a)
  case Nil
  show ?case by simp
next
  case (Cons x p)
  then show ?case by (cases a) auto
qed

text \<open>
  The keys of a group's log are ordered by index, and a key has the prefix of that log exactly when it is the key of one of its
  entries: neither the log of another group nor the peers, hosts and groups that share the store can show up in a scan.
\<close>

theorem log_keys_ordered:
  "(LogEntryKey g i < LogEntryKey g j \<longleftrightarrow> i < j) \<and> (prefix (ComposeKeyPrefix g LOG_ENTRIES) (LogEntryKey g' i) \<longleftrightarrow> g = g') \<and>
   \<not> prefix (ComposeKeyPrefix g LOG_ENTRIES) (PeerKey g' p) \<and> \<not> prefix (ComposeKeyPrefix g LOG_ENTRIES) (HostKey n) \<and>
   \<not> prefix (ComposeKeyPrefix g LOG_ENTRIES) (GroupKey g')"
  by simp

section \<open>Signatures and hashes\<close>

definition Sign :: "'db lib \<Rightarrow> rsa_PrivateKey \<Rightarrow> bytes \<Rightarrow> bytes" where
  "Sign L privateKey data = signPKCS1v15 L privateKey (SHA1Hash data)"

text \<open>\<open>True\<close> stands for the nil error.\<close>

definition VerifySign :: "'db lib \<Rightarrow> rsa_PublicKey \<Rightarrow> bytes \<Rightarrow> bytes \<Rightarrow> bool" where
  "VerifySign L publicKey signature data = verifyPKCS1v15 L publicKey (SHA1Hash data) signature"

definition ParsePrivateKey :: "'db lib \<Rightarrow> bytes \<Rightarrow> rsa_PrivateKey option" where
  "ParsePrivateKey L data = parsePKCS1PrivateKey L data"

text \<open>
  The result of the parser is asserted to be an RSA key before its error is looked at, so that a
  parse error, which comes with a nil key, is a panic (\<open>None\<close>).
\<close>

definition ParsePublicKey :: "'db lib \<Rightarrow> bytes \<Rightarrow> rsa_PublicKey option" where
  "ParsePublicKey L data = parsePKIXPublicKey L data"

definition PublicKeyFromPrivate :: "rsa_PrivateKey \<Rightarrow> rsa_PublicKey" where
  "PublicKeyFromPrivate key = rsaPublicKey key"

text \<open>\<open>generated\<close> is what \<^verbatim>\<open>rsa.GenerateKey\<close> draws, if it succeeds.\<close>

definition GenerateKey :: "'db lib \<Rightarrow> rsa_PrivateKey option \<Rightarrow> (bytes \<times> bytes) option" where
  "GenerateKey L generated = (case generated of
     None \<Rightarrow> None
   | Some privateKey \<Rightarrow>
       (let publicKey = PublicKeyFromPrivate privateKey; privateKeyBytes = marshalPKCS1PrivateKey L privateKey
        in case marshalPKIXPublicKey L publicKey of
             None \<Rightarrow> None
           | Some publicKeyBytes \<Rightarrow> Some (privateKeyBytes, publicKeyBytes)))"

definition HashPublicKey :: "'db lib \<Rightarrow> rsa_PublicKey \<Rightarrow> u64" where
  "HashPublicKey L key = HashPublicKeyBytes (case marshalPKIXPublicKey L key of Some b \<Rightarrow> b | None \<Rightarrow> [])"

definition LogHash :: "bytes \<Rightarrow> u64 \<Rightarrow> u64 \<Rightarrow> bytes \<Rightarrow> bytes" where
  "LogHash prevHash index funcId args = SHA1Hash (((prevHash @ U64Bytes index) @ U64Bytes funcId) @ args)"

fun NodesSignData :: "'db lib \<Rightarrow> Host list \<Rightarrow> bytes" where
  "NodesSignData L [] = []"
| "NodesSignData L (node # nodes) =
     (case marshalHost L node of Some b \<Rightarrow> b | None \<Rightarrow> []) @ NodesSignData L nodes"

fun GetMembersSignData :: "'db lib \<Rightarrow> GroupMember list \<Rightarrow> bytes" where
  "GetMembersSignData L [] = []"
| "GetMembersSignData L (member # members) =
     (case marshalGroupMember L member of Some b \<Rightarrow> b | None \<Rightarrow> []) @ GetMembersSignData L members"

context rsa
begin

lemma VerifySign_Sign: "VerifySign L (PublicKeyFromPrivate k) (Sign L k d) d"
  by (simp add: VerifySign_def Sign_def PublicKeyFromPrivate_def verify_sign)

end

end
