(* ===== verification/Log_Entries.thy ===== *)
theory Log_Entries
  imports Store
begin

text \<open>
  The replicated log of a group (\<^verbatim>\<open>server/log_entries.go\<close> and \<^verbatim>\<open>PeerUncommittedLogEntries\<close> of
  \<^verbatim>\<open>server/peers.go\<close>).  The entries of a group are stored under its log keys; the operations read them with a
  reverse iterator and append one entry at a time, checking its hash against the last one.  The abstract log of a
  group is the list of its entries in key order (\<open>group_log\<close>), and the lemmas state the operations on that list.
  A method of \<^verbatim>\<open>RTGroup\<close> that only reads \<^verbatim>\<open>m.Group.Id\<close> takes the group id.
\<close>

section \<open>Iterators\<close>

record LogEntryIterator =
  liPrefix :: bytes
  liData :: "kv_item list"

definition ValidForPrefix :: "kv_item list \<Rightarrow> bytes \<Rightarrow> bool" where
  "ValidForPrefix items p = (case items of [] \<Rightarrow> False | (k, v) # r \<Rightarrow> prefix p k)"

definition LogEntryFromKVItem :: "'db lib \<Rightarrow> kv_item \<Rightarrow> LogEntry option" where
  "LogEntryFromKVItem L item = (case ItemValue (Some item) of
     None \<Rightarrow> None
   | Some itemData \<Rightarrow> Some (fst (unmarshalLogEntry L itemData)))"

definition iterCurrent :: "'db lib \<Rightarrow> LogEntryIterator \<Rightarrow> LogEntry option" where
  "iterCurrent L liter =
     (if ValidForPrefix (liData liter) (liPrefix liter) then LogEntryFromKVItem L (hd (liData liter)) else None)"

definition iterNext :: "'db lib \<Rightarrow> LogEntryIterator \<Rightarrow> LogEntry option \<times> LogEntryIterator" where
  "iterNext L liter =
     (if liData liter \<noteq> []
      then (let liter' = liter\<lparr>liData := tl (liData liter)\<rparr> in (iterCurrent L liter', liter'))
      else (None, liter))"

definition ReversedLogIterator :: "'db lib \<Rightarrow> 'db \<Rightarrow> u64 \<Rightarrow> LogEntryIterator" where
  "ReversedLogIterator L txn gid = (let keyPrefix = ComposeKeyPrefix gid LOG_ENTRIES
     in \<lparr>liPrefix = keyPrefix, liData = iterSeek L txn True (keyPrefix @ U64Bytes (- 1))\<rparr>)"

section \<open>Reading the log\<close>

definition LastLogEntry :: "'db lib \<Rightarrow> 'db \<Rightarrow> u64 \<Rightarrow> LogEntry option" where
  "LastLogEntry L txn gid = iterCurrent L (ReversedLogIterator L txn gid)"

text \<open>The hash that precedes the first entry of a group's log.\<close>

definition genesisHash :: "u64 \<Rightarrow> bytes" where
  "genesisHash gid = SHA1Hash (bytes_of_string (''GROUP:'' @ show_u64 gid))"

definition LastEntryHash :: "'db lib \<Rightarrow> 'db \<Rightarrow> u64 \<Rightarrow> bytes" where
  "LastEntryHash L txn gid = (case LastLogEntry L txn gid of
     None \<Rightarrow> genesisHash gid
   | Some lastLog \<Rightarrow> leHash lastLog)"

definition LastEntryIndex :: "'db lib \<Rightarrow> 'db \<Rightarrow> u64 \<Rightarrow> u64" where
  "LastEntryIndex L txn gid = (case LastLogEntry L txn gid of None \<Rightarrow> 0 | Some lastLog \<Rightarrow> leIndex lastLog)"

definition GetLogEntry :: "'db lib \<Rightarrow> 'db \<Rightarrow> u64 \<Rightarrow> u64 \<Rightarrow> LogEntry option" where
  "GetLogEntry L txn gid entryIndex = (case txnGet L txn (LogEntryKey gid entryIndex) of
     Inr item \<Rightarrow> LogEntryFromKVItem L item
   | Inl err \<Rightarrow> None)"

section \<open>Appending\<close>

datatype append_error = LogHashMismatch | LogMarshalError | LogExisted | LogGetError kv_error

text \<open>
  The whole result is \<open>None\<close> for a panic: a nil command or an entry of another group.  The error of
  \<^verbatim>\<open>txn.Set\<close> is dropped by the code.
\<close>

definition AppendEntryToLocal :: "'db lib \<Rightarrow> u64 \<Rightarrow> 'db \<Rightarrow> LogEntry \<Rightarrow> (append_error + 'db) option" where
  "AppendEntryToLocal L gid txn entry = (case leCommand entry of
     None \<Rightarrow> None
   | Some cmd \<Rightarrow>
       if cmdGroup cmd \<noteq> gid then None
       else (let key = LogEntryKey (cmdGroup cmd) (leIndex entry) in
         case txnGet L txn key of
           Inl ErrKeyNotFound \<Rightarrow>
             (let hash = LogHash (LastEntryHash L txn gid) (leIndex entry) (cmdFuncId cmd) (cmdArg cmd)
              in if hash \<noteq> leHash entry then Some (Inl LogHashMismatch)
                 else (case marshalLogEntry L entry of
                     Some data \<Rightarrow> Some (Inr (case txnSet L txn key data of Inr txn' \<Rightarrow> txn' | Inl err \<Rightarrow> txn))
                   | None \<Rightarrow> Some (Inl LogMarshalError)))
         | Inr item \<Rightarrow> Some (Inl LogExisted)
         | Inl err \<Rightarrow> Some (Inl (LogGetError err))))"

section \<open>Entries a peer has not committed\<close>

fun uncommitted_loop :: "'db lib \<Rightarrow> bytes \<Rightarrow> u64 \<Rightarrow> kv_item list \<Rightarrow> LogEntry list \<Rightarrow> LogEntry \<Rightarrow> LogEntry list \<times> LogEntry" where
  "uncommitted_loop L p nextLogIdx items entries prevEntry =
     (case iterCurrent L \<lparr>liPrefix = p, liData = items\<rparr> of
        None \<Rightarrow> (entries, prevEntry)
      | Some entry \<Rightarrow>
          if leIndex entry < nextLogIdx then (entries, entry)
          else (case items of [] \<Rightarrow> (entries, entry)
                | item # rest \<Rightarrow> uncommitted_loop L p nextLogIdx rest (entries @ [entry]) entry))"

declare uncommitted_loop.simps [simp del]

text \<open>The in-place reversal: swap positions \<open>i\<close> and \<open>len - i - 1\<close> for \<open>i\<close> below half the length.\<close>

definition swap_ends :: "nat \<Rightarrow> 'a list \<Rightarrow> 'a list" where
  "swap_ends i entries = (let j = length entries - i - 1 in entries[i := entries ! j, j := entries ! i])"

definition reverse_entries :: "'a list \<Rightarrow> 'a list" where
  "reverse_entries entries =
     (if length entries > 1 then fold swap_ends [0..<length entries div 2] entries else entries)"

definition zeroEntry :: LogEntry where
  "zeroEntry = \<lparr>leTerm = 0, leIndex = 0, leHash = [], leCommand = None\<rparr>"

definition PeerUncommittedLogEntries :: "'db lib \<Rightarrow> 'db \<Rightarrow> u64 \<Rightarrow> Peer \<Rightarrow> LogEntry list \<times> LogEntry" where
  "PeerUncommittedLogEntries L txn gid peer =
     (let iter = ReversedLogIterator L txn gid;
          (entries, prevEntry) =
            uncommitted_loop L (liPrefix iter) (peerNextIndex peer) (liData iter) [] zeroEntry;
          prevEntry = (if peerNextIndex peer = 0 \<and> peerMatchIndex peer = 0 then zeroEntry else prevEntry)
      in (reverse_entries entries, prevEntry))"

section \<open>The abstract log\<close>

definition log_keys :: "'db lib \<Rightarrow> 'db \<Rightarrow> u64 \<Rightarrow> bytes list" where
  "log_keys L db gid = sorted_list_of_set {k \<in> dom (kv L db). prefix (ComposeKeyPrefix gid LOG_ENTRIES) k}"

definition stored_entry :: "'db lib \<Rightarrow> 'db \<Rightarrow> bytes \<Rightarrow> LogEntry" where
  "stored_entry L db k = fst (unmarshalLogEntry L (the (kv L db k)))"

definition group_log :: "'db lib \<Rightarrow> 'db \<Rightarrow> u64 \<Rightarrow> LogEntry list" where
  "group_log L db gid = map (stored_entry L db) (log_keys L db gid)"

text \<open>What is stored under the log prefix of a group is an entry of that group under the key of its index.\<close>

definition log_ok :: "'db lib \<Rightarrow> 'db \<Rightarrow> u64 \<Rightarrow> bool" where
  "log_ok L db gid \<longleftrightarrow>
     (\<forall>k v. kv L db k = Some v \<longrightarrow> prefix (ComposeKeyPrefix gid LOG_ENTRIES) k \<longrightarrow>
        (\<exists>e c. marshalLogEntry L e = Some v \<and> k = LogEntryKey gid (leIndex e) \<and>
               leCommand e = Some c \<and> cmdGroup c = gid))"

text \<open>Each entry's hash covers the previous hash and its own index, function and argument.\<close>

fun chained :: "bytes \<Rightarrow> LogEntry list \<Rightarrow> bool" where
  "chained h [] = True"
| "chained h (e # es) \<longleftrightarrow>
     (case leCommand e of None \<Rightarrow> False
      | Some c \<Rightarrow> leHash e = LogHash h (leIndex e) (cmdFuncId c) (cmdArg c)) \<and> chained (leHash e) es"

definition last_hash :: "bytes \<Rightarrow> LogEntry list \<Rightarrow> bytes" where
  "last_hash h es = (if es = [] then h else leHash (last es))"

lemma chained_append: "chained h (xs @ ys) \<longleftrightarrow> chained h xs \<and> chained (last_hash h xs) ys"
  by (induction xs arbitrary: h) (auto simp: last_hash_def)

lemma sorted_list_of_set_insert_max:
  fixes A :: "'a::linorder set"
  assumes "finite A" "\<And>a. a \<in> A \<Longrightarrow> a < x"
  shows "sorted_list_of_set (insert x A) = sorted_list_of_set A @ [x]"
proof (rule sorted_distinct_set_unique)
  show "sorted (sorted_list_of_set A @ [x])"
    using assms by (auto simp: sorted_append less_imp_le)
  show "distinct (sorted_list_of_set A @ [x])" using assms by auto
  show "sorted (sorted_list_of_set (insert x A))" by (rule sorted_sorted_list_of_set)
  show "distinct (sorted_list_of_set (insert x A))" by (rule distinct_sorted_list_of_set)
  show "set (sorted_list_of_set (insert x A)) = set (sorted_list_of_set A @ [x])"
    using assms(1) by (simp del: sorted_list_of_set_insert_remove)
qed

lemma rev_sorted_split:
  fixes f :: "'a \<Rightarrow> 'b::linorder"
  assumes "sorted_wrt (<) (map f xs)"
  shows takeWhile_rev_sorted: "takeWhile (\<lambda>e. \<not> f e < n) (rev xs) = rev (filter (\<lambda>e. n \<le> f e) xs)"
    and dropWhile_rev_sorted: "dropWhile (\<lambda>e. \<not> f e < n) (rev xs) = rev (filter (\<lambda>e. f e < n) xs)"
  using assms
proof (induction xs rule: rev_induct)
  case (snoc x xs)
  {
    case 1
    with snoc have "\<forall>y \<in> set xs. f y < f x" by (auto simp: sorted_wrt_append)
    with snoc 1 show ?case by (auto simp: sorted_wrt_append filter_empty_conv)
  next
    case 2
    with snoc have "\<forall>y \<in> set xs. f y < f x" by (auto simp: sorted_wrt_append)
    with snoc 2 show ?case by (auto simp: sorted_wrt_append intro!: filter_True [symmetric])
  }
qed simp_all

section \<open>Reversal in place\<close>

lemma length_swap_ends [simp]: "length (swap_ends i xs) = length xs"
  by (simp add: swap_ends_def Let_def)

lemma length_fold_swap_ends [simp]: "length (fold swap_ends is xs) = length xs"
  by (induction "is" arbitrary: xs) auto

lemma nth_fold_swap_ends:
  assumes "k \<le> length xs div 2" "i < length xs"
  shows "fold swap_ends [0..<k] xs ! i = (if i < k \<or> length xs - i - 1 < k then xs ! (length xs - i - 1) else xs ! i)"
  using assms
proof (induction k arbitrary: i)
  case 0
  then show ?case by simp
next
  case (Suc k)
  let ?j = "length xs - k - 1" and ?ys = "fold swap_ends [0..<k] xs"
  have kj: "k < ?j" "?j < length xs" using Suc.prems by auto
  have "?ys ! k = xs ! k" "?ys ! ?j = xs ! ?j" using Suc kj by (simp_all add: Suc.IH)
  then have "fold swap_ends [0..<Suc k] xs ! i = (if i = ?j then xs ! k else if i = k then xs ! ?j else ?ys ! i)"
    using Suc.prems kj by (simp add: swap_ends_def Let_def nth_list_update)
  also have "\<dots> = (if i < Suc k \<or> length xs - i - 1 < Suc k then xs ! (length xs - i - 1) else xs ! i)"
    using Suc kj by (auto simp: less_Suc_eq) 
  finally show ?case .
qed

lemma length_reverse_entries [simp]: "length (reverse_entries xs) = length xs"
  by (simp add: reverse_entries_def)

lemma reverse_entries_rev: "reverse_entries xs = rev xs"
proof (cases "length xs > 1")
  case True
  show ?thesis
  proof (rule nth_equalityI)
    fix i assume "i < length (reverse_entries xs)"
    then have i: "i < length xs" by simp
    have "i < length xs div 2 \<or> length xs - i - 1 < length xs div 2 \<or> i = length xs - i - 1" using i by linarith
    then show "reverse_entries xs ! i = rev xs ! i"
      using i True by (auto simp: reverse_entries_def nth_fold_swap_ends rev_nth)
  qed simp
next
  case False
  then show ?thesis by (cases xs) (auto simp: reverse_entries_def)
qed

section \<open>Tamper evidence\<close>

text \<open>The byte string that is hashed for an entry that follows the hash \<open>h\<close>.\<close>

definition preimage :: "bytes \<Rightarrow> LogEntry \<Rightarrow> bytes" where
  "preimage h e = (case leCommand e of
     None \<Rightarrow> [] | Some c \<Rightarrow> ((h @ U64Bytes (leIndex e)) @ U64Bytes (cmdFuncId c)) @ cmdArg c)"

fun preimages :: "bytes \<Rightarrow> LogEntry list \<Rightarrow> bytes list" where
  "preimages h [] = []"
| "preimages h (e # es) = preimage h e # preimages (leHash e) es"

definition same_operation :: "LogEntry \<Rightarrow> LogEntry \<Rightarrow> bool" where
  "same_operation e e' \<longleftrightarrow> leIndex e = leIndex e' \<and> leHash e = leHash e' \<and>
     map_option cmdFuncId (leCommand e) = map_option cmdFuncId (leCommand e') \<and>
     map_option cmdArg (leCommand e) = map_option cmdArg (leCommand e')"

lemma chained_length: "chained h (e # es) \<Longrightarrow> length (leHash e) = 20"
  by (auto simp: LogHash_def length_SHA1Hash split: option.splits)

lemma chained_tamper_evident:
  assumes "chained h es" "chained h' es'" "length h = length h'" "length es = length es'"
    and "last_hash h es = last_hash h' es'"
    and "\<And>x y. x \<in> set (preimages h es) \<Longrightarrow> y \<in> set (preimages h' es') \<Longrightarrow> SHA1Hash x = SHA1Hash y \<Longrightarrow> x = y"
  shows "h = h' \<and> list_all2 same_operation es es'"
  using assms(4,1-3,5,6)
proof (induction es es' arbitrary: h h' rule: list_induct2)
  case Nil
  then show ?case by (simp add: last_hash_def)
next
  case (Cons e es e' es')
  obtain c c' where c: "leCommand e = Some c" "leCommand e' = Some c'"
    using Cons.prems by (auto split: option.splits)
  have len: "length (leHash e) = length (leHash e')" using Cons.prems chained_length by metis
  have "last_hash (leHash e) es = last_hash (leHash e') es'"
    using Cons.prems(4) Cons.hyps by (auto simp: last_hash_def split: if_splits)
  then have IH: "leHash e = leHash e' \<and> list_all2 same_operation es es'"
    using Cons.prems len by (intro Cons.IH) auto
  moreover have "SHA1Hash (preimage h e) = leHash e" "SHA1Hash (preimage h' e') = leHash e'"
    using Cons.prems(1,2) c by (simp_all add: preimage_def LogHash_def)
  ultimately have "preimage h e = preimage h' e'" using Cons.prems(5) by simp
  then have "h = h'" "same_operation e e'"
    using c Cons.prems(3) IH by (auto simp: preimage_def append_same_length_inject same_operation_def)
  with IH show ?case by simp
qed

section \<open>Lemmas on the log operations\<close>

lemma not_ValidForPrefix:
  "(\<And>k. k \<in> set ks \<Longrightarrow> \<not> prefix p k) \<Longrightarrow> \<not> ValidForPrefix (map (\<lambda>k. (k, f k)) ks) p"
  by (cases ks) (auto simp: ValidForPrefix_def)

context libraries
begin

lemma set_log_keys: "set (log_keys L db gid) = {k \<in> dom (kv L db). prefix (ComposeKeyPrefix gid LOG_ENTRIES) k}"
  using finite_dom by (simp add: log_keys_def)

lemma sorted_log_keys: "sorted_list_of_set (set (log_keys L db gid)) = log_keys L db gid"
  by (subst set_log_keys) (simp only: log_keys_def)

lemma log_keys_entry:
  assumes "log_ok L db gid" "k \<in> set (log_keys L db gid)"
  shows "k = LogEntryKey gid (leIndex (stored_entry L db k))"
    and "\<exists>c. leCommand (stored_entry L db k) = Some c \<and> cmdGroup c = gid"
    and "marshalLogEntry L (stored_entry L db k) = kv L db k"
proof -
  obtain v where v: "kv L db k = Some v" "prefix (ComposeKeyPrefix gid LOG_ENTRIES) k"
    using assms(2) by (auto simp: set_log_keys)
  then obtain e c where e: "marshalLogEntry L e = Some v" "k = LogEntryKey gid (leIndex e)"
      "leCommand e = Some c" "cmdGroup c = gid"
    using assms(1) unfolding log_ok_def by blast
  then have "stored_entry L db k = e" using v log_entry by (simp add: stored_entry_def)
  with e v show "k = LogEntryKey gid (leIndex (stored_entry L db k))"
    "\<exists>c. leCommand (stored_entry L db k) = Some c \<and> cmdGroup c = gid"
    "marshalLogEntry L (stored_entry L db k) = kv L db k" by simp_all
qed

lemma log_keys_map:
  assumes "log_ok L db gid"
  shows "log_keys L db gid = map (\<lambda>e. LogEntryKey gid (leIndex e)) (group_log L db gid)"
proof -
  have "map (\<lambda>k. LogEntryKey gid (leIndex (stored_entry L db k))) (log_keys L db gid) = log_keys L db gid"
    using log_keys_entry(1) [OF assms] by (intro map_idI) simp
  then show ?thesis by (simp add: group_log_def comp_def)
qed

lemma sorted_group_log:
  assumes "log_ok L db gid"
  shows "sorted_wrt (<) (map leIndex (group_log L db gid))"
proof -
  have "sorted_wrt (<) (log_keys L db gid)"
    by (simp add: log_keys_def strict_sorted_list_of_set)
  then show ?thesis by (simp add: log_keys_map [OF assms] sorted_wrt_map)
qed

text \<open>The items a reverse iterator yields while they stay under the prefix are the log backwards.\<close>

lemma reverse_items:
  assumes "log_ok L db gid"
  obtains rest where
    "liData (ReversedLogIterator L db gid) =
       map (\<lambda>k. (k, Inr (the (kv L db k)))) (rev (log_keys L db gid)) @ rest"
    and "\<not> ValidForPrefix rest (ComposeKeyPrefix gid LOG_ENTRIES)"
proof -
  let ?p = "ComposeKeyPrefix gid LOG_ENTRIES" and ?top = "LogEntryKey gid (- 1)"
  let ?D = "{k \<in> dom (kv L db). k \<le> ?top}"
  let ?f = "\<lambda>k. (k, Inr (the (kv L db k)) :: kv_error + bytes)"
  let ?A = "{k \<in> ?D. \<not> prefix ?p k}"
  have top: "k \<le> ?top" if "k \<in> set (log_keys L db gid)" for k
    using log_keys_entry(1) [OF assms that] LogEntryKey_max by metis
  have below: "a < k" if a: "a \<in> ?A" and k: "k \<in> set (log_keys L db gid)" for a k
  proof (rule ccontr)
    assume "\<not> a < k"
    then have "k \<le> a" "a \<le> ?top" using a by auto
    moreover obtain i where "k = LogEntryKey gid i" using log_keys_entry(1) [OF assms k] by blast
    ultimately have "prefix ?p a" using between_same_prefix [of ?p "U64Bytes i" a "U64Bytes (- 1)"]
      by (simp add: LogEntryKey_def)
    then show False using a by simp
  qed
  have fin: "finite ?D" "finite ?A" using finite_dom [of db] by (auto intro: finite_subset)
  have "sorted_list_of_set ?D = sorted_list_of_set ?A @ log_keys L db gid"
  proof (rule sorted_distinct_set_unique)
    show "sorted (sorted_list_of_set ?A @ log_keys L db gid)"
      using below fin by (force simp: sorted_append log_keys_def less_imp_le)
    show "distinct (sorted_list_of_set ?A @ log_keys L db gid)"
      using fin by (auto simp: set_log_keys) (auto simp: log_keys_def)
    show "set (sorted_list_of_set ?D) = set (sorted_list_of_set ?A @ log_keys L db gid)"
      using fin top by (auto simp: set_log_keys)
  qed (use fin in auto)
  then have "iterSeek L db True ?top =
      map ?f (rev (log_keys L db gid)) @ map ?f (rev (sorted_list_of_set ?A))"
    by (simp only: seek_reverse rev_append map_append)
  moreover have "liData (ReversedLogIterator L db gid) = iterSeek L db True ?top"
    by (simp add: ReversedLogIterator_def Let_def LogEntryKey_def)
  ultimately have "liData (ReversedLogIterator L db gid) =
      map ?f (rev (log_keys L db gid)) @ map ?f (rev (sorted_list_of_set ?A))" by (simp only:)
  moreover have "\<not> ValidForPrefix (map ?f (rev (sorted_list_of_set ?A))) ?p"
    using fin by (intro not_ValidForPrefix) simp
  ultimately show ?thesis by (rule that)
qed

lemma LogEntryFromKVItem_stored: "LogEntryFromKVItem L (k, Inr (the (kv L db k))) = Some (stored_entry L db k)"
  by (simp add: LogEntryFromKVItem_def ItemValue_def stored_entry_def)

lemma LastLogEntry_log:
  assumes "log_ok L db gid"
  shows "LastLogEntry L db gid = (if group_log L db gid = [] then None else Some (last (group_log L db gid)))"
proof -
  obtain rest where rest: "liData (ReversedLogIterator L db gid) =
       map (\<lambda>k. (k, Inr (the (kv L db k)))) (rev (log_keys L db gid)) @ rest"
    "\<not> ValidForPrefix rest (ComposeKeyPrefix gid LOG_ENTRIES)"
    using reverse_items [OF assms] by blast
  have p: "liPrefix (ReversedLogIterator L db gid) = ComposeKeyPrefix gid LOG_ENTRIES"
    by (simp add: ReversedLogIterator_def Let_def)
  show ?thesis
  proof (cases "log_keys L db gid" rule: rev_cases)
    case Nil
    with rest p show ?thesis by (simp add: LastLogEntry_def iterCurrent_def group_log_def)
  next
    case (snoc ks k)
    then have "prefix (ComposeKeyPrefix gid LOG_ENTRIES) k"
      using set_log_keys [of db gid] by auto
    with snoc rest(1) p show ?thesis
      by (simp add: LastLogEntry_def iterCurrent_def group_log_def ValidForPrefix_def LogEntryFromKVItem_stored)
  qed
qed

lemma LastEntryHash_log:
  "log_ok L db gid \<Longrightarrow> LastEntryHash L db gid = last_hash (genesisHash gid) (group_log L db gid)"
  by (simp add: LastEntryHash_def LastLogEntry_log last_hash_def)

lemma LastEntryIndex_log:
  "log_ok L db gid \<Longrightarrow> LastEntryIndex L db gid = (if group_log L db gid = [] then 0 else leIndex (last (group_log L db gid)))"
  by (simp add: LastEntryIndex_def LastLogEntry_log)

lemma log_frame:
  assumes "\<And>k. prefix (ComposeKeyPrefix gid LOG_ENTRIES) k \<Longrightarrow> kv L db' k = kv L db k"
  shows "group_log L db' gid = group_log L db gid" and "log_ok L db' gid \<longleftrightarrow> log_ok L db gid"
proof -
  have "{k \<in> dom (kv L db'). prefix (ComposeKeyPrefix gid LOG_ENTRIES) k}
      = {k \<in> dom (kv L db). prefix (ComposeKeyPrefix gid LOG_ENTRIES) k}" using assms by auto
  then have "log_keys L db' gid = log_keys L db gid" by (simp only: log_keys_def)
  moreover have "stored_entry L db' k = stored_entry L db k" if "k \<in> set (log_keys L db gid)" for k
    using that assms by (simp add: set_log_keys stored_entry_def)
  ultimately show "group_log L db' gid = group_log L db gid" by (simp add: group_log_def)
  show "log_ok L db' gid \<longleftrightarrow> log_ok L db gid" using assms by (auto simp: log_ok_def)
qed

lemma group_log_insert:
  assumes ok: "log_ok L db gid" and new: "\<And>e'. e' \<in> set (group_log L db gid) \<Longrightarrow> leIndex e' < leIndex e"
    and m: "marshalLogEntry L e = Some data" and c: "leCommand e = Some c" "cmdGroup c = gid"
    and kv: "kv L db' = (kv L db)(LogEntryKey gid (leIndex e) \<mapsto> data)"
  shows "group_log L db' gid = group_log L db gid @ [e]" and "log_ok L db' gid"
proof -
  let ?k = "LogEntryKey gid (leIndex e)"
  have less: "k < ?k" if "k \<in> set (log_keys L db gid)" for k
    using that new unfolding log_keys_map [OF ok] by auto
  have "{k \<in> dom (kv L db'). prefix (ComposeKeyPrefix gid LOG_ENTRIES) k} = insert ?k (set (log_keys L db gid))"
    by (auto simp: kv set_log_keys)
  then have keys: "log_keys L db' gid = log_keys L db gid @ [?k]"
    using less by (simp only: log_keys_def [of L db' gid] sorted_list_of_set_insert_max finite_set
        sorted_log_keys)
  have "stored_entry L db' k = stored_entry L db k" if "k \<in> set (log_keys L db gid)" for k
    using less [OF that] by (simp add: stored_entry_def kv)
  moreover have "stored_entry L db' ?k = e" using log_entry [OF m] by (simp add: stored_entry_def kv)
  ultimately show "group_log L db' gid = group_log L db gid @ [e]" by (simp add: group_log_def keys)
  show "log_ok L db' gid" using ok m c by (auto simp: log_ok_def kv)
qed

lemma fresh_index_not_stored:
  assumes "log_ok L db gid" "\<And>e'. e' \<in> set (group_log L db gid) \<Longrightarrow> leIndex e' \<noteq> i"
  shows "kv L db (LogEntryKey gid i) = None"
proof (rule ccontr)
  assume "kv L db (LogEntryKey gid i) \<noteq> None"
  then have "LogEntryKey gid i \<in> set (log_keys L db gid)" by (auto simp: set_log_keys)
  then show False using assms(2) unfolding log_keys_map [OF assms(1)] by (auto; blast)
qed

lemma AppendEntryToLocal_cases:
  assumes "AppendEntryToLocal L gid db e = Some (Inr db')"
  obtains (dropped) "db' = db"
  | (stored) c data where "leCommand e = Some c" "cmdGroup c = gid" "marshalLogEntry L e = Some data"
      "leHash e = LogHash (LastEntryHash L db gid) (leIndex e) (cmdFuncId c) (cmdArg c)"
      "kv L db (LogEntryKey gid (leIndex e)) = None"
      "kv L db' = (kv L db)(LogEntryKey gid (leIndex e) \<mapsto> data)"
proof -
  obtain c where c: "leCommand e = Some c" "cmdGroup c = gid"
    using assms by (auto simp: AppendEntryToLocal_def split: option.splits if_splits)
  with assms have new: "kv L db (LogEntryKey gid (leIndex e)) = None"
    by (auto simp: AppendEntryToLocal_def get Let_def split: option.splits)
  with assms c obtain data where data: "marshalLogEntry L e = Some data"
      "leHash e = LogHash (LastEntryHash L db gid) (leIndex e) (cmdFuncId c) (cmdArg c)"
      "db' = (case txnSet L db (LogEntryKey gid (leIndex e)) data of Inr txn' \<Rightarrow> txn' | Inl err \<Rightarrow> db)"
    by (auto simp: AppendEntryToLocal_def get Let_def split: option.splits if_splits)
  show ?thesis
  proof (cases "txnSet L db (LogEntryKey gid (leIndex e)) data")
    case (Inl err)
    with data dropped show ?thesis by simp
  next
    case (Inr db2)
    with data have "db' = db2" by simp
    with Inr stored [OF c data(1,2) new] show ?thesis by (simp add: set)
  qed
qed

lemma AppendEntryToLocal_other_groups:
  assumes "AppendEntryToLocal L gid db e = Some (Inr db')" "g \<noteq> gid"
  shows "group_log L db' g = group_log L db g" and "log_ok L db' g \<longleftrightarrow> log_ok L db g"
  using assms(1)
  by (cases rule: AppendEntryToLocal_cases; use assms(2) in \<open>auto intro!: log_frame\<close>)+

lemma AppendEntryToLocal_refines:
  assumes ok: "log_ok L db gid" and new: "\<And>e'. e' \<in> set (group_log L db gid) \<Longrightarrow> leIndex e' < leIndex e"
    and c: "leCommand e = Some c" "cmdGroup c = gid" and m: "marshalLogEntry L e = Some data"
    and s: "txnSet L db (LogEntryKey gid (leIndex e)) data = Inr db2"
  shows "AppendEntryToLocal L gid db e =
      Some (if leHash e = LogHash (last_hash (genesisHash gid) (group_log L db gid)) (leIndex e) (cmdFuncId c) (cmdArg c)
            then Inr db2 else Inl LogHashMismatch)"
    and "group_log L db2 gid = group_log L db gid @ [e]" and "log_ok L db2 gid"
proof -
  have "kv L db (LogEntryKey gid (leIndex e)) = None"
    using new by (intro fresh_index_not_stored [OF ok]) force
  then show "AppendEntryToLocal L gid db e =
      Some (if leHash e = LogHash (last_hash (genesisHash gid) (group_log L db gid)) (leIndex e) (cmdFuncId c) (cmdArg c)
            then Inr db2 else Inl LogHashMismatch)"
    using c m s by (auto simp: AppendEntryToLocal_def get Let_def LastEntryHash_log [OF ok] chained_append)
  show "group_log L db2 gid = group_log L db gid @ [e]" "log_ok L db2 gid"
    using group_log_insert [OF ok new m c set [OF s]] by auto
qed

lemma uncommitted_loop_log:
  assumes "\<not> ValidForPrefix rest p" "\<And>k. k \<in> set ks \<Longrightarrow> prefix p k"
  shows "uncommitted_loop L p n (map (\<lambda>k. (k, Inr (the (kv L db k)))) ks @ rest) es prev =
    (let log = map (stored_entry L db) ks; new = takeWhile (\<lambda>e. \<not> leIndex e < n) log;
         old = dropWhile (\<lambda>e. \<not> leIndex e < n) log
     in (es @ new, if old \<noteq> [] then hd old else if new \<noteq> [] then last new else prev))"
  using assms(2)
proof (induction ks arbitrary: es prev)
  case Nil
  then show ?case using assms(1) by (simp add: uncommitted_loop.simps iterCurrent_def)
next
  case (Cons k ks)
  have "iterCurrent L \<lparr>liPrefix = p, liData = (k, Inr (the (kv L db k))) # xs\<rparr> = Some (stored_entry L db k)" for xs
    using Cons.prems by (simp add: iterCurrent_def ValidForPrefix_def LogEntryFromKVItem_stored)
  then show ?case using Cons.IH [of "es @ [stored_entry L db k]" "stored_entry L db k"] Cons.prems
    by (simp add: uncommitted_loop.simps [of L p n "(k, v) # xs" for v xs] Let_def)
qed

lemma PeerUncommittedLogEntries_log:
  assumes ok: "log_ok L db gid"
  shows "PeerUncommittedLogEntries L db gid peer =
    (let log = group_log L db gid; n = peerNextIndex peer;
         old = filter (\<lambda>e. leIndex e < n) log; new = filter (\<lambda>e. n \<le> leIndex e) log
     in (new, if n = 0 \<and> peerMatchIndex peer = 0 then zeroEntry
              else if old \<noteq> [] then last old else if new \<noteq> [] then hd new else zeroEntry))"
proof -
  let ?log = "group_log L db gid" and ?n = "peerNextIndex peer"
  obtain rest where rest: "liData (ReversedLogIterator L db gid) =
       map (\<lambda>k. (k, Inr (the (kv L db k)))) (rev (log_keys L db gid)) @ rest"
    "\<not> ValidForPrefix rest (ComposeKeyPrefix gid LOG_ENTRIES)"
    using reverse_items [OF ok] by blast
  have p: "liPrefix (ReversedLogIterator L db gid) = ComposeKeyPrefix gid LOG_ENTRIES"
    by (simp add: ReversedLogIterator_def Let_def)
  have "map (stored_entry L db) (rev (log_keys L db gid)) = rev ?log"
    by (simp add: group_log_def rev_map)
  then have loop: "uncommitted_loop L (ComposeKeyPrefix gid LOG_ENTRIES) ?n (liData (ReversedLogIterator L db gid)) [] zeroEntry =
    (let new = takeWhile (\<lambda>e. \<not> leIndex e < ?n) (rev ?log); old = dropWhile (\<lambda>e. \<not> leIndex e < ?n) (rev ?log)
     in (new, if old \<noteq> [] then hd old else if new \<noteq> [] then last new else zeroEntry))"
    unfolding rest(1) by (subst uncommitted_loop_log) (auto simp: rest(2) set_log_keys Let_def)
  have split: "takeWhile (\<lambda>e. \<not> leIndex e < ?n) (rev ?log) = rev (filter (\<lambda>e. ?n \<le> leIndex e) ?log)"
    "dropWhile (\<lambda>e. \<not> leIndex e < ?n) (rev ?log) = rev (filter (\<lambda>e. leIndex e < ?n) ?log)"
    using sorted_group_log [OF ok] by (simp_all add: takeWhile_rev_sorted dropWhile_rev_sorted)
  show ?thesis
    unfolding PeerUncommittedLogEntries_def Let_def p loop [unfolded Let_def split] prod.case
    by (simp add: reverse_entries_rev hd_rev last_rev)
qed

end

section \<open>The reversal\<close>

text \<open>
  The in-place exchange of the elements at both ends, up to the middle, reverses the entries.
\<close>

theorem reversal_is_rev: "reverse_entries xs = rev xs"
  by (rule reverse_entries_rev)

end
