(* ===== verification/Server_State.thy ===== *)
theory Server_State
  imports Log_Entries
begin

text \<open>
  The state of a server (\<^verbatim>\<open>BFTRaftServer\<close> of \<^verbatim>\<open>server/bftraft.go\<close>) and of a group it hosts (\<^verbatim>\<open>RTGroup\<close> of
  \<^verbatim>\<open>server/group.go\<close>), with the operations that load and store hosts, groups and peers
  (\<^verbatim>\<open>server/hosts.go\<close>, \<^verbatim>\<open>server/group.go\<close>, \<^verbatim>\<open>server/peers.go\<close>).

  The \<^verbatim>\<open>RTGroup\<close> objects are shared: the table of hosted groups holds pointers to them and the state machine
  functions change a group while one of its own methods is running.  They therefore live in a heap,
  the list \<open>srvRTGroups\<close>, and a pointer is a position in it; the back pointer \<^verbatim>\<open>m.Server\<close> is the server state
  itself.  The go-cache caches and the concurrent map are maps that hold the entries not expired yet.
  \<open>srvOut\<close> records the messages handed to gRPC whose answer is not waited for.  The locks are
  not part of this state: the lock of a group is modelled in the theory \<open>Locks\<close>, where it matters which step
  takes it.  The fields \<^verbatim>\<open>IsBusy\<close> and \<^verbatim>\<open>ClientPublicKeys\<close>, that no code reads, are left out.
\<close>

section \<open>State\<close>

datatype role = LEADER | FOLLOWER | CANDIDATE | OBSERVER

record RTGroup =
  rtLeader :: u64
  rtLastVotedTo :: u64
  rtLastVotedTerm :: u64
  rtGroupPeers :: "(u64 \<times> Peer) list"
  rtGroup :: RaftGroup
  rtTimeout :: int
  rtRole :: role
  rtVotes :: "RequestVoteResponse list"
  rtSendVotesForPeers :: "u64 \<rightharpoonup> bool"

datatype raft_func = FnNodeJoin | FnRegHost | FnNewClient | FnNewGroup | FnUser nat

datatype out_msg = OutInvitation string GroupInvitation | OutCommandResult string CommandResult

record Options =
  optDBPath :: string
  optAddress :: string
  optBootstrap :: "string list"
  optConsensusTimeout :: int

datatype group_error = GroupExisted | GroupMarshalError | GroupSetError kv_error | GroupCommitError kv_error

record 'db BFTRaftServer =
  srvId :: u64
  srvOpts :: Options
  srvDB :: 'db
  srvFuncReg :: "u64 \<rightharpoonup> raft_func"
  srvGroupsOnboard :: "string \<rightharpoonup> nat"
  srvRTGroups :: "RTGroup list"
  srvGroupInvitations :: "u64 \<rightharpoonup> GroupInvitation list"
  srvPendingNewGroups :: "u64 \<rightharpoonup> group_error option list"
  srvGroups :: "string \<rightharpoonup> RaftGroup"
  srvHosts :: "string \<rightharpoonup> Host"
  srvNodePublicKeys :: "string \<rightharpoonup> rsa_PublicKey"
  srvPrivateKey :: rsa_PrivateKey
  srvOut :: "out_msg list"

text \<open>Reading and writing the object a pointer refers to.\<close>

definition rt :: "'db BFTRaftServer \<Rightarrow> nat \<Rightarrow> RTGroup" where
  "rt s m = srvRTGroups s ! m"

definition set_rt :: "nat \<Rightarrow> RTGroup \<Rightarrow> 'db BFTRaftServer \<Rightarrow> 'db BFTRaftServer" where
  "set_rt m r s = s\<lparr>srvRTGroups := (srvRTGroups s)[m := r]\<rparr>"

definition gid :: "'db BFTRaftServer \<Rightarrow> nat \<Rightarrow> u64" where
  "gid s m = grpId (rtGroup (rt s m))"

lemma rt_set_rt [simp]: "m < length (srvRTGroups s) \<Longrightarrow> rt (set_rt m r s) m = r"
  by (simp add: rt_def set_rt_def)

lemma set_rt_sel [simp]:
  "srvDB (set_rt m r s) = srvDB s" "srvId (set_rt m r s) = srvId s" "srvHosts (set_rt m r s) = srvHosts s"
  "srvNodePublicKeys (set_rt m r s) = srvNodePublicKeys s" "srvGroups (set_rt m r s) = srvGroups s"
  "srvPrivateKey (set_rt m r s) = srvPrivateKey s" "srvFuncReg (set_rt m r s) = srvFuncReg s"
  "srvGroupsOnboard (set_rt m r s) = srvGroupsOnboard s" "srvOut (set_rt m r s) = srvOut s"
  "length (srvRTGroups (set_rt m r s)) = length (srvRTGroups s)"
  by (simp_all add: set_rt_def)

definition serverSign :: "'db lib \<Rightarrow> 'db BFTRaftServer \<Rightarrow> bytes \<Rightarrow> bytes" where
  "serverSign L s data = Sign L (srvPrivateKey s) data"

section \<open>Hosts\<close>

definition GetHost :: "'db lib \<Rightarrow> 'db BFTRaftServer \<Rightarrow> 'db \<Rightarrow> u64 \<Rightarrow> Host option \<times> 'db BFTRaftServer" where
  "GetHost L s txn nodeId = (case srvHosts s (cacheKey nodeId) of
     Some cacheNode \<Rightarrow> (Some cacheNode, s)
   | None \<Rightarrow> (case txnGet L txn (HostKey nodeId) of
       Inr item \<Rightarrow> (case ItemValue (Some item) of
           None \<Rightarrow> (None, s)
         | Some data \<Rightarrow> (let node = fst (unmarshalHost L data)
             in (Some node, s\<lparr>srvHosts := (srvHosts s)(cacheKey nodeId \<mapsto> node)\<rparr>)))
     | Inl err \<Rightarrow> (None, s)))"

definition GetHostNTXN :: "'db lib \<Rightarrow> 'db BFTRaftServer \<Rightarrow> u64 \<Rightarrow> Host option \<times> 'db BFTRaftServer" where
  "GetHostNTXN L s nodeId = GetHost L s (srvDB s) nodeId"

definition GetHostPublicKey ::
  "'db lib \<Rightarrow> 'db BFTRaftServer \<Rightarrow> u64 \<Rightarrow> (rsa_PublicKey option \<times> 'db BFTRaftServer) option" where
  "GetHostPublicKey L s nodeId = (case srvNodePublicKeys s (cacheKey nodeId) of
     Some cachedKey \<Rightarrow> Some (Some cachedKey, s)
   | None \<Rightarrow> (case GetHostNTXN L s nodeId of
       (None, s) \<Rightarrow> Some (None, s)
     | (Some node, s) \<Rightarrow> do {
         key \<leftarrow> ParsePublicKey L (hostPublicKey node);
         Some (Some key, s\<lparr>srvNodePublicKeys := (srvNodePublicKeys s)(cacheKey nodeId \<mapsto> key)\<rparr>)
       }))"

datatype save_error = MarshalError | SetError kv_error

definition SaveHost :: "'db lib \<Rightarrow> 'db \<Rightarrow> Host \<Rightarrow> save_error + 'db" where
  "SaveHost L txn node = (case marshalHost L node of
     Some data \<Rightarrow> (case txnSet L txn (HostKey (hostId node)) data of Inl e \<Rightarrow> Inl (SetError e) | Inr txn' \<Rightarrow> Inr txn')
   | None \<Rightarrow> Inl MarshalError)"

text \<open>\<^verbatim>\<open>DB.Update\<close> with a function that cannot panic, on the server's database.\<close>

definition updateDB ::
  "'db lib \<Rightarrow> 'db BFTRaftServer \<Rightarrow> ('db \<Rightarrow> 'e + 'db) \<Rightarrow> 'e update_error option \<times> 'db BFTRaftServer" where
  "updateDB L s f = (case f (srvDB s) of
     Inl e \<Rightarrow> (Some (TxnError e), s)
   | Inr db' \<Rightarrow> (case txnCommit L db' of
       Inl e \<Rightarrow> (Some (CommitError e), s)
     | Inr db'' \<Rightarrow> (None, s\<lparr>srvDB := db''\<rparr>)))"

definition SaveHostNTXN :: "'db lib \<Rightarrow> 'db BFTRaftServer \<Rightarrow> Host \<Rightarrow> save_error update_error option \<times> 'db BFTRaftServer" where
  "SaveHostNTXN L s node = updateDB L s (\<lambda>txn. SaveHost L txn node)"

definition VerifyCommandSign :: "'db lib \<Rightarrow> 'db BFTRaftServer \<Rightarrow> CommandRequest \<Rightarrow> (bool \<times> 'db BFTRaftServer) option" where
  "VerifyCommandSign L s cmd = do {
     (publicKey, s) \<leftarrow> GetHostPublicKey L s (cmdClientId cmd);
     case publicKey of
       None \<Rightarrow> Some (False, s)
     | Some pk \<Rightarrow> Some (VerifySign L pk (cmdSignature cmd) (ExecCommandSignData cmd), s)
   }"

section \<open>Peers\<close>

text \<open>The scan of the peers of a group; \<^verbatim>\<open>*item_data\<close> panics on an unreadable value.\<close>

fun peers_loop :: "'db lib \<Rightarrow> bytes \<Rightarrow> kv_item list \<Rightarrow> (u64 \<times> Peer) list \<Rightarrow> (u64 \<times> Peer) list option" where
  "peers_loop L keyPrefix [] peers = Some peers"
| "peers_loop L keyPrefix (item # rest) peers =
     (if prefix keyPrefix (fst item)
      then (case ItemValue (Some item) of
              None \<Rightarrow> None
            | Some item_data \<Rightarrow> (let peer = fst (unmarshalPeer L item_data)
                in peers_loop L keyPrefix rest (AList.update (peerId peer) peer peers)))
      else Some peers)"

definition GetGroupPeersFromKV :: "'db lib \<Rightarrow> 'db \<Rightarrow> u64 \<Rightarrow> (u64 \<times> Peer) list option" where
  "GetGroupPeersFromKV L txn grp = (let keyPrefix = ComposeKeyPrefix grp GROUP_PEERS
     in peers_loop L keyPrefix (iterSeek L txn False (keyPrefix @ U64Bytes 0)) [])"

definition OnboardGroupPeersSlice :: "RTGroup \<Rightarrow> Peer list" where
  "OnboardGroupPeersSlice m = map snd (rtGroupPeers m)"

definition SavePeer :: "'db lib \<Rightarrow> 'db \<Rightarrow> Peer \<Rightarrow> save_error + 'db" where
  "SavePeer L txn peer = (case marshalPeer L peer of
     Some data \<Rightarrow> (case txnSet L txn (PeerKey (peerGroup peer) (peerId peer)) data of
         Inl e \<Rightarrow> Inl (SetError e) | Inr txn' \<Rightarrow> Inr txn')
   | None \<Rightarrow> Inl MarshalError)"

section \<open>Groups\<close>

definition NewRTGroup ::
  "'db BFTRaftServer \<Rightarrow> int \<Rightarrow> u64 \<Rightarrow> (u64 \<times> Peer) list \<Rightarrow> RaftGroup \<Rightarrow> role \<Rightarrow> nat \<times> 'db BFTRaftServer" where
  "NewRTGroup server now leader groupPeers grp role =
     (length (srvRTGroups server),
      server\<lparr>srvRTGroups := srvRTGroups server @
        [\<lparr>rtLeader = leader, rtLastVotedTo = 0, rtLastVotedTerm = 0, rtGroupPeers = groupPeers, rtGroup = grp,
          rtTimeout = now + 60000, rtRole = role, rtVotes = [], rtSendVotesForPeers = Map.empty\<rparr>]\<rparr>)"

definition GetGroupFromKV :: "'db lib \<Rightarrow> 'db \<Rightarrow> u64 \<Rightarrow> RaftGroup option" where
  "GetGroupFromKV L txn groupId = (case txnGet L txn (GroupKey groupId) of
     Inr item \<Rightarrow> (case ItemValue (Some item) of
         None \<Rightarrow> None
       | Some data \<Rightarrow> Some (fst (unmarshalRaftGroup L data)))
   | Inl err \<Rightarrow> None)"

definition GetGroup :: "'db lib \<Rightarrow> 'db BFTRaftServer \<Rightarrow> 'db \<Rightarrow> u64 \<Rightarrow> RaftGroup option \<times> 'db BFTRaftServer" where
  "GetGroup L s txn groupId = (case srvGroups s (cacheKey groupId) of
     Some cachedGroup \<Rightarrow> (Some cachedGroup, s)
   | None \<Rightarrow> (case GetGroupFromKV L txn groupId of
       Some g \<Rightarrow> (Some g, s\<lparr>srvGroups := (srvGroups s)(cacheKey groupId \<mapsto> g)\<rparr>)
     | None \<Rightarrow> (None, s)))"

definition GetGroupNTXN :: "'db lib \<Rightarrow> 'db BFTRaftServer \<Rightarrow> u64 \<Rightarrow> RaftGroup option \<times> 'db BFTRaftServer" where
  "GetGroupNTXN L s groupId = GetGroup L s (srvDB s) groupId"

definition SaveGroup :: "'db lib \<Rightarrow> 'db \<Rightarrow> RaftGroup \<Rightarrow> save_error + 'db" where
  "SaveGroup L txn grp = (case marshalRaftGroup L grp of
     Some data \<Rightarrow> (case txnSet L txn (GroupKey (grpId grp)) data of Inl e \<Rightarrow> Inl (SetError e) | Inr txn' \<Rightarrow> Inr txn')
   | None \<Rightarrow> Inl MarshalError)"

definition SaveGroupNTXN ::
  "'db lib \<Rightarrow> 'db BFTRaftServer \<Rightarrow> RaftGroup \<Rightarrow> save_error update_error option \<times> 'db BFTRaftServer" where
  "SaveGroupNTXN L s grp = updateDB L s (\<lambda>txn. SaveGroup L txn grp)"

fun hosts_loop :: "'db lib \<Rightarrow> 'db BFTRaftServer \<Rightarrow> 'db \<Rightarrow> (u64 \<times> Peer) list \<Rightarrow> Host list \<Rightarrow> Host list \<times> 'db BFTRaftServer" where
  "hosts_loop L s txn [] nodes = (nodes, s)"
| "hosts_loop L s txn ((k, peer) # peers) nodes = (case GetHost L s txn (peerId peer) of
     (Some node, s) \<Rightarrow> hosts_loop L s txn peers (nodes @ [node])
   | (None, s) \<Rightarrow> hosts_loop L s txn peers nodes)"

definition GetGroupHosts :: "'db lib \<Rightarrow> 'db BFTRaftServer \<Rightarrow> 'db \<Rightarrow> u64 \<Rightarrow> (Host list \<times> 'db BFTRaftServer) option" where
  "GetGroupHosts L s txn groupId = do {
     peers \<leftarrow> GetGroupPeersFromKV L txn groupId;
     Some (hosts_loop L s txn peers [])
   }"

definition GetGroupHostsNTXN :: "'db lib \<Rightarrow> 'db BFTRaftServer \<Rightarrow> u64 \<Rightarrow> (Host list \<times> 'db BFTRaftServer) option" where
  "GetGroupHostsNTXN L s groupId = GetGroupHosts L s (srvDB s) groupId"

definition GetOnboardGroup :: "'db BFTRaftServer \<Rightarrow> u64 \<Rightarrow> nat option" where
  "GetOnboardGroup s groupId = srvGroupsOnboard s (cacheKey groupId)"

definition SetOnboardGroup :: "'db BFTRaftServer \<Rightarrow> nat \<Rightarrow> 'db BFTRaftServer" where
  "SetOnboardGroup s m = s\<lparr>srvGroupsOnboard := (srvGroupsOnboard s)(cacheKey (gid s m) \<mapsto> m)\<rparr>"

text \<open>
  For a group that is not hosted the code computes a host at random (\<open>pick\<close> models \<^verbatim>\<open>rand.Intn\<close>) into a variable that
  shadows the result, and returns the empty message it started with.
\<close>

definition GroupLeader :: "'db lib \<Rightarrow> (nat \<Rightarrow> nat) \<Rightarrow> 'db BFTRaftServer \<Rightarrow> u64 \<Rightarrow> (GroupLeader \<times> 'db BFTRaftServer) option" where
  "GroupLeader L pick s groupId = (let res = \<lparr>glNode = None, glAccuate = False, glSignature = []\<rparr>
     in case GetOnboardGroup s groupId of
       Some m \<Rightarrow> (let (node, s) = GetHostNTXN L s (rtLeader (rt s m))
         in Some (\<lparr>glNode = node, glAccuate = True, glSignature = []\<rparr>, s))
     | None \<Rightarrow> do {
         (hosts, s) \<leftarrow> GetGroupHosts L s (srvDB s) groupId;
         let shadowed = \<lparr>glNode = (if 0 < length hosts then Some (hosts ! pick (length hosts)) else None),
                         glAccuate = False, glSignature = []\<rparr>
         in Some (res, s)
       })"

section \<open>Hosted groups found at start-up\<close>

fun scan_loop ::
  "'db lib \<Rightarrow> int \<Rightarrow> u64 \<Rightarrow> 'db \<Rightarrow> kv_item list \<Rightarrow> (u64 \<times> nat) list \<Rightarrow> 'db BFTRaftServer \<Rightarrow>
   ((u64 \<times> nat) list \<times> 'db BFTRaftServer) option" where
  "scan_loop L now serverId txn [] groups s = Some (groups, s)"
| "scan_loop L now serverId txn (item # rest) groups s =
     (if prefix (U32Bytes GROUP_PEERS) (fst item)
      then (case ItemValue (Some item) of
          None \<Rightarrow> None
        | Some val \<Rightarrow>
            (let peer = fst (unmarshalPeer L val) in
             if peerId peer = serverId
             then (case GetGroupFromKV L txn (peerGroup peer) of
                 None \<Rightarrow> scan_loop L now serverId txn rest groups s
               | Some grp \<Rightarrow> do {
                   (hosts, s) \<leftarrow> GetGroupHosts L s txn (grpId grp);
                   peers \<leftarrow> GetGroupPeersFromKV L txn (peerGroup peer);
                   let defaultLeader = (if length hosts < 2 then srvId s else 0);
                       (m, s) = NewRTGroup s now defaultLeader peers grp FOLLOWER
                   in scan_loop L now serverId txn rest (AList.update (peerGroup peer) m groups) s
                 })
             else scan_loop L now serverId txn rest groups s))
      else Some (groups, s))"

fun set_scanned :: "(u64 \<times> nat) list \<Rightarrow> 'db BFTRaftServer \<Rightarrow> 'db BFTRaftServer" where
  "set_scanned [] s = s"
| "set_scanned ((groupId, m) # res) s =
     set_scanned res (s\<lparr>srvGroupsOnboard := (srvGroupsOnboard s)(cacheKey groupId \<mapsto> m)\<rparr>)"

definition ScanHostedGroups ::
  "'db lib \<Rightarrow> int \<Rightarrow> 'db BFTRaftServer \<Rightarrow> u64 \<Rightarrow> ((u64 \<times> nat) list \<times> 'db BFTRaftServer) option" where
  "ScanHostedGroups L now s serverId = do {
     (res, s) \<leftarrow> scan_loop L now serverId (srvDB s) (iterSeek L (srvDB s) False (U32Bytes GROUP_PEERS)) [] s;
     Some (res, set_scanned res s)
   }"

section \<open>Frames\<close>

text \<open>What an operation may have changed: only caches, or anything but the logs.\<close>

definition caches_only :: "'db BFTRaftServer \<Rightarrow> 'db BFTRaftServer \<Rightarrow> bool" where
  "caches_only s s' \<longleftrightarrow> (\<exists>H K G. s' = s\<lparr>srvHosts := H, srvNodePublicKeys := K, srvGroups := G\<rparr>)"

definition logs_eq :: "'db lib \<Rightarrow> 'db \<Rightarrow> 'db \<Rightarrow> bool" where
  "logs_eq L db db' \<longleftrightarrow> (\<forall>g k. prefix (ComposeKeyPrefix g LOG_ENTRIES) k \<longrightarrow> kv L db' k = kv L db k)"

lemma caches_only_refl [simp, intro]: "caches_only s s"
proof -
  have "s = s\<lparr>srvHosts := srvHosts s, srvNodePublicKeys := srvNodePublicKeys s, srvGroups := srvGroups s\<rparr>" by simp
  then show ?thesis unfolding caches_only_def by blast
qed

lemma caches_only_trans [trans]: "caches_only s t \<Longrightarrow> caches_only t u \<Longrightarrow> caches_only s u"
  by (auto simp: caches_only_def) blast

lemma caches_only_intros [intro]:
  "caches_only s (s\<lparr>srvHosts := H\<rparr>)" "caches_only s (s\<lparr>srvNodePublicKeys := K\<rparr>)" "caches_only s (s\<lparr>srvGroups := G\<rparr>)"
proof -
  have "s\<lparr>srvHosts := H\<rparr> = s\<lparr>srvHosts := H, srvNodePublicKeys := srvNodePublicKeys s, srvGroups := srvGroups s\<rparr>"
    "s\<lparr>srvNodePublicKeys := K\<rparr> = s\<lparr>srvHosts := srvHosts s, srvNodePublicKeys := K, srvGroups := srvGroups s\<rparr>"
    "s\<lparr>srvGroups := G\<rparr> = s\<lparr>srvHosts := srvHosts s, srvNodePublicKeys := srvNodePublicKeys s, srvGroups := G\<rparr>" by simp_all
  then show "caches_only s (s\<lparr>srvHosts := H\<rparr>)" "caches_only s (s\<lparr>srvNodePublicKeys := K\<rparr>)"
    "caches_only s (s\<lparr>srvGroups := G\<rparr>)" unfolding caches_only_def by blast+
qed

lemma caches_only_sel:
  assumes "caches_only s s'"
  shows "srvDB s' = srvDB s" "srvId s' = srvId s" "srvRTGroups s' = srvRTGroups s" "rt s' = rt s" "gid s' = gid s"
    "srvGroupsOnboard s' = srvGroupsOnboard s" "srvFuncReg s' = srvFuncReg s" "srvPrivateKey s' = srvPrivateKey s"
    "srvOut s' = srvOut s" "srvOpts s' = srvOpts s" "srvPendingNewGroups s' = srvPendingNewGroups s"
  using assms by (auto simp: caches_only_def rt_def gid_def fun_eq_iff)

lemma GetHost_caches: "GetHost L s txn n = (h, s') \<Longrightarrow> caches_only s s'"
  by (auto simp: GetHost_def Let_def split: option.splits sum.splits)

lemma GetHostNTXN_caches: "GetHostNTXN L s n = (h, s') \<Longrightarrow> caches_only s s'"
  by (simp add: GetHostNTXN_def GetHost_caches)

lemma GetGroup_caches: "GetGroup L s txn n = (h, s') \<Longrightarrow> caches_only s s'"
  by (auto simp: GetGroup_def split: option.splits)

lemma GetHostPublicKey_caches: "GetHostPublicKey L s n = Some (k, s') \<Longrightarrow> caches_only s s'"
  by (auto simp: GetHostPublicKey_def bind_eq_Some_conv split: option.splits prod.splits
      dest: GetHostNTXN_caches intro: caches_only_trans)

lemma VerifyCommandSign_caches: "VerifyCommandSign L s cmd = Some (b, s') \<Longrightarrow> caches_only s s'"
  by (auto simp: VerifyCommandSign_def bind_eq_Some_conv split: option.splits dest!: GetHostPublicKey_caches)

lemma hosts_loop_caches: "hosts_loop L s txn ps ns = (hs, s') \<Longrightarrow> caches_only s s'"
proof (induction L s txn ps ns rule: hosts_loop.induct)
  case (2 L s txn k peer peers nodes)
  obtain h s1 where h: "GetHost L s txn (peerId peer) = (h, s1)" by fastforce
  then have "caches_only s s1" by (rule GetHost_caches)
  moreover have "caches_only s1 s'" using 2 h by (cases h) auto
  ultimately show ?case by (rule caches_only_trans)
qed auto

lemma GetGroupHosts_caches: "GetGroupHosts L s txn g = Some (hs, s') \<Longrightarrow> caches_only s s'"
  by (auto simp: GetGroupHosts_def bind_eq_Some_conv dest: hosts_loop_caches)

lemmas caches = GetHost_caches GetHostNTXN_caches GetGroup_caches GetHostPublicKey_caches
  VerifyCommandSign_caches GetGroupHosts_caches

lemma updateDB_only_DB: "updateDB L s f = (r, s') \<Longrightarrow> s' = s\<lparr>srvDB := srvDB s'\<rparr>"
  by (auto simp: updateDB_def split: sum.splits)

lemma SaveGroupNTXN_sel [simp]:
  "rt (snd (SaveGroupNTXN L s g)) = rt s" "srvId (snd (SaveGroupNTXN L s g)) = srvId s"
  "srvRTGroups (snd (SaveGroupNTXN L s g)) = srvRTGroups s" "srvFuncReg (snd (SaveGroupNTXN L s g)) = srvFuncReg s"
  "srvPrivateKey (snd (SaveGroupNTXN L s g)) = srvPrivateKey s"
proof -
  obtain r s' where u: "SaveGroupNTXN L s g = (r, s')" by fastforce
  obtain db where "s' = s\<lparr>srvDB := db\<rparr>"
    using updateDB_only_DB [OF u [unfolded SaveGroupNTXN_def]] by blast
  with u show "rt (snd (SaveGroupNTXN L s g)) = rt s" "srvId (snd (SaveGroupNTXN L s g)) = srvId s"
    "srvRTGroups (snd (SaveGroupNTXN L s g)) = srvRTGroups s" "srvFuncReg (snd (SaveGroupNTXN L s g)) = srvFuncReg s"
    "srvPrivateKey (snd (SaveGroupNTXN L s g)) = srvPrivateKey s"
    by (simp_all add: rt_def fun_eq_iff)
qed

lemma logs_eq_refl [simp, intro]: "logs_eq L db db"
  by (simp add: logs_eq_def)

lemma logs_eq_trans [trans]: "logs_eq L a b \<Longrightarrow> logs_eq L b c \<Longrightarrow> logs_eq L a c"
  by (simp add: logs_eq_def)

context libraries
begin

lemma logs_eq_logs:
  assumes "logs_eq L db db'"
  shows "group_log L db' g = group_log L db g" and "log_ok L db' g \<longleftrightarrow> log_ok L db g"
  using assms by (auto simp: logs_eq_def intro!: log_frame)

lemma logs_eq_set:
  assumes "txnSet L db k v = Inr db'" "\<And>g. \<not> prefix (ComposeKeyPrefix g LOG_ENTRIES) k"
  shows "logs_eq L db db'"
  using assms by (auto simp: logs_eq_def set)

lemma SaveHost_logs: "SaveHost L db h = Inr db' \<Longrightarrow> logs_eq L db db'"
  by (auto simp: SaveHost_def split: option.splits sum.splits intro: logs_eq_set)

lemma SavePeer_logs: "SavePeer L db p = Inr db' \<Longrightarrow> logs_eq L db db'"
  by (auto simp: SavePeer_def split: option.splits sum.splits intro: logs_eq_set)

lemma SaveGroup_logs: "SaveGroup L db g = Inr db' \<Longrightarrow> logs_eq L db db'"
  by (auto simp: SaveGroup_def split: option.splits sum.splits intro: logs_eq_set)

lemma updateDB_cases:
  assumes "updateDB L s f = (r, s')"
  obtains (failed) e where "r = Some e" "s' = s"
  | (committed) db where "f (srvDB s) = Inr db" "r = None" "s' = s\<lparr>srvDB := srvDB s'\<rparr>" "kv L (srvDB s') = kv L db"
  using assms commit by (fastforce simp: updateDB_def split: sum.splits)

lemma updateDB_logs:
  assumes "updateDB L s f = (r, s')" "\<And>db'. f (srvDB s) = Inr db' \<Longrightarrow> logs_eq L (srvDB s) db'"
  shows "logs_eq L (srvDB s) (srvDB s')"
  using assms(1) by (cases rule: updateDB_cases) (use assms(2) in \<open>auto simp: logs_eq_def\<close>)

end

end
