(* ===== verification/State_Machine.thy ===== *)
theory State_Machine
  imports Server_State
begin

text \<open>
  The state machine of the alpha group (the \<^verbatim>\<open>SM\<close> functions of \<^verbatim>\<open>server/membership.go\<close>), the registry of functions
  (\<^verbatim>\<open>RegisterRaftFunc\<close>, \<^verbatim>\<open>RegisterMembershipCommands\<close>) and \<^verbatim>\<open>CommitGroupLog\<close>, which runs the function a log entry
  names.  Every function takes the argument bytes and the entry and returns result bytes; \<open>None\<close> is a panic.
\<close>

section \<open>Registry\<close>

definition NODE_JOIN :: u64 where "NODE_JOIN = 0"
definition REG_NODE :: u64 where "REG_NODE = 1"
definition NEW_CLIENT :: u64 where "NEW_CLIENT = 2"
definition NEW_GROUP :: u64 where "NEW_GROUP = 3"

definition RegisterRaftFunc :: "u64 \<Rightarrow> raft_func \<Rightarrow> 'db BFTRaftServer \<Rightarrow> 'db BFTRaftServer" where
  "RegisterRaftFunc func_id fn s = s\<lparr>srvFuncReg := (srvFuncReg s)(func_id \<mapsto> fn)\<rparr>"

definition RegisterMembershipCommands :: "'db BFTRaftServer \<Rightarrow> 'db BFTRaftServer" where
  "RegisterMembershipCommands s =
     RegisterRaftFunc NEW_GROUP FnNewGroup (RegisterRaftFunc NEW_CLIENT FnNewClient
       (RegisterRaftFunc REG_NODE FnRegHost (RegisterRaftFunc NODE_JOIN FnNodeJoin s)))"

text \<open>\<^verbatim>\<open>utils.GetClusterRPC\<close> fails only when no connection can be dialled.\<close>

definition GetClusterRPC :: "'db lib \<Rightarrow> string \<Rightarrow> bool" where
  "GetClusterRPC L addr = dialOK L addr"

section \<open>State machine functions\<close>

definition SMRegHost ::
  "'db lib \<Rightarrow> bytes \<Rightarrow> LogEntry \<Rightarrow> 'db BFTRaftServer \<Rightarrow> (bytes \<times> 'db BFTRaftServer) option" where
  "SMRegHost L arg entry s = (case unmarshalHost L arg of
     (node, True) \<Rightarrow>
       (let node = node\<lparr>hostId := HashPublicKeyBytes (hostPublicKey node), hostOnline := True\<rparr>;
            (err, s) = updateDB L s (\<lambda>txn. SaveHost L txn node)
        in Some ([1], s))
   | (node, False) \<Rightarrow> Some ([0], s))"

datatype join_error = CannotFindNode | ExceedReplications | JoinSaveError save_error

text \<open>The part of \<^verbatim>\<open>SMNodeJoin\<close> that runs inside \<^verbatim>\<open>DB.Update\<close>.\<close>

definition NodeJoin_txn ::
  "'db lib \<Rightarrow> u64 \<Rightarrow> u64 \<Rightarrow> Peer \<Rightarrow> 'db BFTRaftServer \<Rightarrow> (join_error update_error option \<times> 'db BFTRaftServer) option" where
  "NodeJoin_txn L node groupId peer s = (case GetHost L s (srvDB s) node of
     (None, s) \<Rightarrow> Some (Some (TxnError CannotFindNode), s)
   | (Some h, s) \<Rightarrow>
       if node = srvId s then Some (updateDB L s Inr)
       else (let (g, s) = GetGroup L s (srvDB s) groupId in do {
         peers \<leftarrow> GetGroupPeersFromKV L (srvDB s) groupId;
         grp \<leftarrow> g;
         if unat (grpReplications grp) \<le> length peers
         then Some (Some (TxnError ExceedReplications), s)
         else Some (updateDB L s (\<lambda>txn. case SavePeer L txn peer of Inl e \<Rightarrow> Inl (JoinSaveError e) | Inr txn' \<Rightarrow> Inr txn'))
       }))"

definition SMNodeJoin ::
  "'db lib \<Rightarrow> bytes \<Rightarrow> LogEntry \<Rightarrow> 'db BFTRaftServer \<Rightarrow> (bytes \<times> 'db BFTRaftServer) option" where
  "SMNodeJoin L arg entry s = (case unmarshalNodeJoin L arg of
     (req, False) \<Rightarrow> Some ([0], s)
   | (req, True) \<Rightarrow> do {
       cmd \<leftarrow> leCommand entry;
       let node = cmdClientId cmd; groupId = njGroup req;
           peer = \<lparr>peerId = node, peerGroup = groupId, peerNextIndex = 0, peerMatchIndex = 0\<rparr>
       in do {
         (err, s) \<leftarrow> NodeJoin_txn L node groupId peer s;
         if err \<noteq> None then Some ([0], s)
         else (case GetOnboardGroup s groupId of
             None \<Rightarrow> Some ([1], s)
           | Some m \<Rightarrow>
               (let (host, s) = GetHostNTXN L s (cmdClientId cmd) in do {
                 node \<leftarrow> host;
                 let address = hostServerAddr node;
                     iv = \<lparr>invGroup = groupId, invLeader = rtLeader (rt s m), invNode = srvId s, invSignature = []\<rparr>;
                     iv = iv\<lparr>invSignature := serverSign L s (InvitationSignature iv)\<rparr>
                 in if GetClusterRPC L address
                    then Some ([1], set_rt m ((rt s m)\<lparr>rtGroupPeers := AList.update (peerId peer) peer (rtGroupPeers (rt s m))\<rparr>)
                                (s\<lparr>srvOut := srvOut s @ [OutInvitation address iv]\<rparr>))
                    else Some ([0], s)
               }))
       }
     })"

definition SMNewClient ::
  "'db lib \<Rightarrow> bytes \<Rightarrow> LogEntry \<Rightarrow> 'db BFTRaftServer \<Rightarrow> (bytes \<times> 'db BFTRaftServer) option" where
  "SMNewClient L arg entry s = (case unmarshalHost L arg of
     (client, False) \<Rightarrow> Some ([0], s)
   | (client, True) \<Rightarrow>
       (let client = client\<lparr>hostId := HashPublicKeyBytes (hostPublicKey client)\<rparr>;
            (err, s) = SaveHostNTXN L s client
        in Some (if err = None then [1] else [0], s)))"

text \<open>The error of \<^verbatim>\<open>SavePeer\<close> is dropped: both branches of its test return nil.\<close>

definition NewGroup_txn :: "'db lib \<Rightarrow> RaftGroup \<Rightarrow> Peer \<Rightarrow> 'db \<Rightarrow> save_error + 'db" where
  "NewGroup_txn L grp peer txn = (case SaveGroup L txn (grp\<lparr>grpTerm := 0\<rparr>) of
     Inl e \<Rightarrow> Inl e
   | Inr txn1 \<Rightarrow> (case SavePeer L txn1 peer of Inl e \<Rightarrow> Inr txn1 | Inr txn2 \<Rightarrow> Inr txn2))"

text \<open>A send on the channel of a group that is not pending blocks its goroutine for ever and has no effect.\<close>

definition notifyPending :: "u64 \<Rightarrow> group_error option \<Rightarrow> 'db BFTRaftServer \<Rightarrow> 'db BFTRaftServer" where
  "notifyPending g e s = (case srvPendingNewGroups s g of
     None \<Rightarrow> s
   | Some c \<Rightarrow> s\<lparr>srvPendingNewGroups := (srvPendingNewGroups s)(g \<mapsto> c @ [e])\<rparr>)"

fun new_group_error :: "save_error update_error \<Rightarrow> group_error" where
  "new_group_error (TxnError MarshalError) = GroupMarshalError"
| "new_group_error (TxnError (SetError e)) = GroupSetError e"
| "new_group_error (CommitError e) = GroupCommitError e"

definition SMNewGroup ::
  "'db lib \<Rightarrow> int \<Rightarrow> bytes \<Rightarrow> LogEntry \<Rightarrow> 'db BFTRaftServer \<Rightarrow> (bytes \<times> 'db BFTRaftServer) option" where
  "SMNewGroup L now arg entry s = do {
     cmd \<leftarrow> leCommand entry;
     let hostId = cmdClientId cmd in
     case unmarshalRaftGroup L arg of
       (grp, False) \<Rightarrow> Some ([0], s)
     | (grp, True) \<Rightarrow>
         if grpReplications grp < 1 \<or> grpReplications grp > 100 then Some ([0], s)
         else (let peer = \<lparr>peerId = hostId, peerGroup = grpId grp, peerNextIndex = 0, peerMatchIndex = 0\<rparr>;
                   (existing, s) = GetGroup L s (srvDB s) (grpId grp)
               in if existing \<noteq> None then Some ([0], notifyPending (grpId grp) (Some GroupExisted) s)
                  else (case updateDB L s (NewGroup_txn L grp peer) of
                      (None, s) \<Rightarrow>
                        if srvId s = hostId
                        then (let (m, s) = NewRTGroup s now hostId [(peerId peer, peer)] (grp\<lparr>grpTerm := 0\<rparr>) LEADER
                              in Some (U64Bytes (leIndex entry), notifyPending (grpId grp) None (SetOnboardGroup s m)))
                        else Some (U64Bytes (leIndex entry), s)
                    | (Some e, s) \<Rightarrow> Some ([0], notifyPending (grpId grp) (Some (new_group_error e)) s)))
   }"

section \<open>Committing an entry\<close>

definition runRaftFunc ::
  "'db lib \<Rightarrow> int \<Rightarrow> raft_func \<Rightarrow> bytes \<Rightarrow> LogEntry \<Rightarrow> 'db BFTRaftServer \<Rightarrow> (bytes \<times> 'db BFTRaftServer) option" where
  "runRaftFunc L now fn arg entry s = (case fn of
     FnNodeJoin \<Rightarrow> SMNodeJoin L arg entry s
   | FnRegHost \<Rightarrow> SMRegHost L arg entry s
   | FnNewClient \<Rightarrow> SMNewClient L arg entry s
   | FnNewGroup \<Rightarrow> SMNewGroup L now arg entry s
   | FnUser n \<Rightarrow> Some (userFunc L n arg entry, s))"

text \<open>A nil command and a function that is not registered (a nil function value) panic.\<close>

definition CommitGroupLog ::
  "'db lib \<Rightarrow> int \<Rightarrow> LogEntry \<Rightarrow> 'db BFTRaftServer \<Rightarrow> (bytes \<times> 'db BFTRaftServer) option" where
  "CommitGroupLog L now entry s = do {
     cmd \<leftarrow> leCommand entry;
     fn \<leftarrow> srvFuncReg s (cmdFuncId cmd);
     runRaftFunc L now fn (cmdArg cmd) entry s
   }"

section \<open>What a state machine function may change\<close>

text \<open>Everything but the logs, the identity of the server and, of the groups, all but their peers.\<close>

definition sm_frame :: "'db lib \<Rightarrow> 'db BFTRaftServer \<Rightarrow> 'db BFTRaftServer \<Rightarrow> bool" where
  "sm_frame L s s' \<longleftrightarrow> logs_eq L (srvDB s) (srvDB s') \<and> srvId s' = srvId s \<and> srvPrivateKey s' = srvPrivateKey s \<and>
     srvFuncReg s' = srvFuncReg s \<and> length (srvRTGroups s) \<le> length (srvRTGroups s') \<and>
     (\<forall>m < length (srvRTGroups s). rt s' m = (rt s m)\<lparr>rtGroupPeers := rtGroupPeers (rt s' m)\<rparr>)"

lemma sm_frame_refl [simp, intro]: "sm_frame L s s"
  by (simp add: sm_frame_def)

lemma sm_frame_trans [trans]:
  assumes "sm_frame L s t" "sm_frame L t u"
  shows "sm_frame L s u"
proof -
  have "rt u m = (rt s m)\<lparr>rtGroupPeers := rtGroupPeers (rt u m)\<rparr>" if m: "m < length (srvRTGroups s)" for m
  proof -
    have "rt t m = (rt s m)\<lparr>rtGroupPeers := rtGroupPeers (rt t m)\<rparr>"
      and u: "rt u m = (rt t m)\<lparr>rtGroupPeers := rtGroupPeers (rt u m)\<rparr>"
      using assms m unfolding sm_frame_def by auto
    then show ?thesis by (metis RTGroup.update_convs(4) RTGroup.surjective RTGroup.select_convs)
  qed
  then show ?thesis using assms unfolding sm_frame_def by (auto intro: logs_eq_trans)
qed

lemma sm_frame_gid: "sm_frame L s s' \<Longrightarrow> m < length (srvRTGroups s) \<Longrightarrow> gid s' m = gid s m"
  by (metis RTGroup.select_convs(5) RTGroup.surjective RTGroup.update_convs(4) gid_def sm_frame_def)

lemma caches_only_sm_frame: "caches_only s s' \<Longrightarrow> sm_frame L s s'"
  by (simp add: sm_frame_def caches_only_sel)

lemma notifyPending_sm_frame: "sm_frame L s (notifyPending g e s)"
  by (auto simp: sm_frame_def notifyPending_def rt_def split: option.splits)

lemma NewRTGroup_sm_frame: "NewRTGroup s now l ps g r = (m, s') \<Longrightarrow> sm_frame L s s'"
  by (auto simp: sm_frame_def NewRTGroup_def rt_def nth_append)

lemma SetOnboardGroup_sm_frame: "sm_frame L s (SetOnboardGroup s m)"
  by (auto simp: sm_frame_def SetOnboardGroup_def rt_def)

context libraries
begin

lemma updateDB_sm_frame:
  assumes "updateDB L s f = (r, s')" "\<And>db'. f (srvDB s) = Inr db' \<Longrightarrow> logs_eq L (srvDB s) db'"
  shows "sm_frame L s s'"
proof -
  have "logs_eq L (srvDB s) (srvDB s')" using assms by (rule updateDB_logs)
  moreover obtain db where "s' = s\<lparr>srvDB := db\<rparr>" using updateDB_only_DB [OF assms(1)] by blast
  ultimately show ?thesis by (simp add: sm_frame_def rt_def)
qed

lemma SMRegHost_frame: "SMRegHost L arg e s = Some (r, s') \<Longrightarrow> sm_frame L s s'"
  by (auto simp: SMRegHost_def Let_def split: prod.splits bool.splits
      intro!: updateDB_sm_frame dest: SaveHost_logs)

lemma SMNewClient_frame: "SMNewClient L arg e s = Some (r, s') \<Longrightarrow> sm_frame L s s'"
  by (auto simp: SMNewClient_def SaveHostNTXN_def Let_def split: prod.splits bool.splits
      intro!: updateDB_sm_frame dest: SaveHost_logs)

lemma NodeJoin_txn_frame:
  assumes "NodeJoin_txn L node g p s = Some (err, s')"
  shows "sm_frame L s s'"
proof -
  obtain h s1 where h: "GetHost L s (srvDB s) node = (h, s1)" by fastforce
  obtain gr s2 where gr: "GetGroup L s1 (srvDB s1) g = (gr, s2)" by fastforce
  have s1: "sm_frame L s s1" using h by (simp add: caches caches_only_sm_frame)
  have s2: "sm_frame L s1 s2" using gr by (simp add: caches caches_only_sm_frame)
  have "s' = s1 \<or> s' = s2 \<or> updateDB L s1 Inr = (err, s') \<or>
     updateDB L s2 (\<lambda>txn. case SavePeer L txn p of Inl e \<Rightarrow> Inl (JoinSaveError e) | Inr txn' \<Rightarrow> Inr txn') = (err, s')"
    using assms h gr by (auto simp: NodeJoin_txn_def bind_eq_Some_conv split: option.splits if_splits)
  moreover have "sm_frame L s1 s'" if "updateDB L s1 Inr = (err, s')"
    using that by (rule updateDB_sm_frame) auto
  moreover have "sm_frame L s2 s'"
    if "updateDB L s2 (\<lambda>txn. case SavePeer L txn p of Inl e \<Rightarrow> Inl (JoinSaveError e) | Inr txn' \<Rightarrow> Inr txn') = (err, s')"
    using that by (rule updateDB_sm_frame) (auto split: sum.splits dest: SavePeer_logs)
  ultimately show ?thesis using s1 s2 sm_frame_trans by blast
qed

lemma set_peers_frame: "sm_frame L s (set_rt m ((rt s m)\<lparr>rtGroupPeers := ps\<rparr>) (s\<lparr>srvOut := out\<rparr>))"
proof -
  have "xs[m := (xs ! m)\<lparr>rtGroupPeers := ps\<rparr>] ! i =
      (xs ! i)\<lparr>rtGroupPeers := rtGroupPeers (xs[m := (xs ! m)\<lparr>rtGroupPeers := ps\<rparr>] ! i)\<rparr>"
    if "i < length xs" for i and xs :: "RTGroup list"
    using that by (cases "i = m") simp_all
  then show ?thesis by (simp add: sm_frame_def set_rt_def rt_def)
qed

lemma SMNodeJoin_frame:
  assumes "SMNodeJoin L arg e s = Some (r, s')"
  shows "sm_frame L s s'"
proof -
  obtain req ok where req: "unmarshalNodeJoin L arg = (req, ok)" by fastforce
  show ?thesis
  proof (cases ok)
    case False
    with assms req show ?thesis by (simp add: SMNodeJoin_def)
  next
    case True
    with assms req obtain cmd err s1 where cmd: "leCommand e = Some cmd"
      and j: "NodeJoin_txn L (cmdClientId cmd) (njGroup req)
        \<lparr>peerId = cmdClientId cmd, peerGroup = njGroup req, peerNextIndex = 0, peerMatchIndex = 0\<rparr> s = Some (err, s1)"
      by (auto simp: SMNodeJoin_def bind_eq_Some_conv Let_def)
    obtain h s2 where h: "GetHostNTXN L s1 (cmdClientId cmd) = (h, s2)" by fastforce
    have "sm_frame L s s1" using j by (rule NodeJoin_txn_frame)
    moreover have "sm_frame L s1 s2" using h by (simp add: caches caches_only_sm_frame)
    moreover have "s' = s1 \<or> s' = s2 \<or> (\<exists>m ps out. s' = set_rt m ((rt s2 m)\<lparr>rtGroupPeers := ps\<rparr>) (s2\<lparr>srvOut := out\<rparr>))"
      using assms req True cmd j h
      by (auto simp: SMNodeJoin_def bind_eq_Some_conv Let_def split: if_splits option.splits)
    ultimately show ?thesis using set_peers_frame sm_frame_trans by blast
  qed
qed

lemma NewGroup_txn_logs: "NewGroup_txn L g p db = Inr db' \<Longrightarrow> logs_eq L db db'"
  by (auto simp: NewGroup_txn_def split: sum.splits dest!: SaveGroup_logs SavePeer_logs intro: logs_eq_trans)

lemma SMNewGroup_frame:
  assumes "SMNewGroup L now arg e s = Some (r, s')"
  shows "sm_frame L s s'"
proof -
  obtain cmd grp ok where cmd: "leCommand e = Some cmd" and grp: "unmarshalRaftGroup L arg = (grp, ok)"
    using assms by (fastforce simp: SMNewGroup_def bind_eq_Some_conv)
  obtain ex s1 where ex: "GetGroup L s (srvDB s) (grpId grp) = (ex, s1)" by fastforce
  let ?p = "\<lparr>peerId = cmdClientId cmd, peerGroup = grpId grp, peerNextIndex = 0, peerMatchIndex = 0\<rparr>"
  obtain u s2 where u: "updateDB L s1 (NewGroup_txn L grp ?p) = (u, s2)" by fastforce
  obtain m s3 where m: "NewRTGroup s2 now (cmdClientId cmd) [(peerId ?p, ?p)] (grp\<lparr>grpTerm := 0\<rparr>) LEADER = (m, s3)"
    by fastforce
  have 1: "sm_frame L s s1" using ex by (simp add: caches caches_only_sm_frame)
  have 2: "sm_frame L s1 s2" using u by (rule updateDB_sm_frame) (rule NewGroup_txn_logs)
  have 3: "sm_frame L s2 s3" using m by (rule NewRTGroup_sm_frame)
  have "s' = s \<or> s' = s2 \<or> s' = notifyPending (grpId grp) (Some GroupExisted) s1 \<or>
      (\<exists>e. s' = notifyPending (grpId grp) e s2) \<or> s' = notifyPending (grpId grp) None (SetOnboardGroup s3 m)"
    using assms cmd grp ex u m
    by (auto simp: SMNewGroup_def Let_def split: if_splits option.splits bool.splits)
  then show ?thesis
    using 1 2 3 notifyPending_sm_frame SetOnboardGroup_sm_frame by (metis sm_frame_trans sm_frame_refl)
qed

lemma runRaftFunc_frame: "runRaftFunc L now fn arg e s = Some (r, s') \<Longrightarrow> sm_frame L s s'"
  by (cases fn) (auto simp: runRaftFunc_def
      dest: SMNodeJoin_frame SMRegHost_frame SMNewClient_frame SMNewGroup_frame)

lemma CommitGroupLog_frame: "CommitGroupLog L now e s = Some (r, s') \<Longrightarrow> sm_frame L s s'"
  by (auto simp: CommitGroupLog_def bind_eq_Some_conv dest: runRaftFunc_frame)

end

section \<open>Limits\<close>

context libraries
begin

text \<open>A node other than this server is admitted only while the group has fewer peers than replications, and becomes a peer.\<close>

lemma NodeJoin_txn_cap:
  assumes j: "NodeJoin_txn L node g p s = Some (None, s')" and other: "node \<noteq> srvId s"
  shows "\<exists>peers grp. GetGroupPeersFromKV L (srvDB s) g = Some peers \<and> fst (GetGroupNTXN L s g) = Some grp \<and>
      length peers < unat (grpReplications grp)"
    and "\<exists>d. marshalPeer L p = Some d \<and> kv L (srvDB s') (PeerKey (peerGroup p) (peerId p)) = Some d"
proof -
  obtain h s1 where h: "GetHost L s (srvDB s) node = (h, s1)" by fastforce
  obtain gr s2 where gr: "GetGroup L s1 (srvDB s1) g = (gr, s2)" by fastforce
  note f1 = caches_only_sel [OF GetHost_caches [OF h]]
  note f2 = caches_only_sel [OF GetGroup_caches [OF gr]]
  have same: "fst (GetGroup L s1 (srvDB s1) g) = fst (GetGroupNTXN L s g)"
    using h by (auto simp: GetGroupNTXN_def GetGroup_def GetHost_def Let_def split: option.splits sum.splits)
  obtain peers grp where p: "GetGroupPeersFromKV L (srvDB s) g = Some peers" "gr = Some grp"
      "\<not> unat (grpReplications grp) \<le> length peers"
    and u: "updateDB L s2 (\<lambda>txn. case SavePeer L txn p of Inl e \<Rightarrow> Inl (JoinSaveError e) | Inr txn' \<Rightarrow> Inr txn') = (None, s')"
    using j h gr other f1 f2 by (auto simp: NodeJoin_txn_def bind_eq_Some_conv split: option.splits if_splits)
  have "fst (GetGroupNTXN L s g) = Some grp" using same gr p(2) by simp
  with p show "\<exists>peers grp. GetGroupPeersFromKV L (srvDB s) g = Some peers \<and> fst (GetGroupNTXN L s g) = Some grp \<and>
      length peers < unat (grpReplications grp)" by (auto simp: not_le)
  from u show "\<exists>d. marshalPeer L p = Some d \<and> kv L (srvDB s') (PeerKey (peerGroup p) (peerId p)) = Some d"
  proof (cases rule: updateDB_cases)
    case (committed db)
    then show ?thesis by (auto simp: SavePeer_def split: sum.splits option.splits dest!: set)
  qed simp
qed

lemma SMNodeJoin_cap:
  assumes "SMNodeJoin L arg e s = Some ([1], s')" and arg: "unmarshalNodeJoin L arg = (req, True)"
    and cmd: "leCommand e = Some cmd" "cmdClientId cmd \<noteq> srvId s"
  shows "\<exists>peers grp. GetGroupPeersFromKV L (srvDB s) (njGroup req) = Some peers \<and>
      fst (GetGroupNTXN L s (njGroup req)) = Some grp \<and> length peers < unat (grpReplications grp)"
    and "kv L (srvDB s') (PeerKey (njGroup req) (cmdClientId cmd)) \<noteq> None"
proof -
  let ?p = "\<lparr>peerId = cmdClientId cmd, peerGroup = njGroup req, peerNextIndex = 0, peerMatchIndex = 0\<rparr>"
  obtain err s1 where j: "NodeJoin_txn L (cmdClientId cmd) (njGroup req) ?p s = Some (err, s1)"
    using assms(1) arg cmd by (auto simp: SMNodeJoin_def bind_eq_Some_conv Let_def)
  then have "err = None" using assms(1) arg cmd by (auto simp: SMNodeJoin_def Let_def split: if_splits)
  obtain h s2 where h: "GetHostNTXN L s1 (cmdClientId cmd) = (h, s2)" by fastforce
  have "srvDB s' = srvDB s1"
    using assms(1) arg cmd j h \<open>err = None\<close> caches_only_sel(1) [OF GetHostNTXN_caches [OF h]]
    by (auto simp: SMNodeJoin_def bind_eq_Some_conv Let_def split: option.splits if_splits)
  moreover note NodeJoin_txn_cap [OF j [unfolded \<open>err = None\<close>] cmd(2)]
  ultimately show "\<exists>peers grp. GetGroupPeersFromKV L (srvDB s) (njGroup req) = Some peers \<and>
      fst (GetGroupNTXN L s (njGroup req)) = Some grp \<and> length peers < unat (grpReplications grp)"
    "kv L (srvDB s') (PeerKey (njGroup req) (cmdClientId cmd)) \<noteq> None" by auto
qed

end

text \<open>
  C34.  A group is created only with a number of replications from 1 to 100 and under an id that is not in use; otherwise the command
  returns 0 and neither the database nor the hosted groups change.
\<close>

theorem SMNewGroup_refuses:
  assumes "leCommand e = Some cmd" "unmarshalRaftGroup L arg = (grp, True)"
    and "grpReplications grp < 1 \<or> grpReplications grp > 100 \<or> fst (GetGroupNTXN L s (grpId grp)) \<noteq> None"
  shows "\<exists>s'. SMNewGroup L now arg e s = Some ([0], s') \<and> srvDB s' = srvDB s \<and> srvRTGroups s' = srvRTGroups s"
proof (cases "grpReplications grp < 1 \<or> grpReplications grp > 100")
  case True
  with assms show ?thesis by (auto simp: SMNewGroup_def Let_def)
next
  case False
  obtain g s1 where g: "GetGroup L s (srvDB s) (grpId grp) = (g, s1)" by fastforce
  with False assms have "SMNewGroup L now arg e s = Some ([0], notifyPending (grpId grp) (Some GroupExisted) s1)"
    by (auto simp: SMNewGroup_def Let_def GetGroupNTXN_def)
  moreover have "srvDB (notifyPending i x s1) = srvDB s" "srvRTGroups (notifyPending i x s1) = srvRTGroups s" for i x
    using caches_only_sel(1,3) [OF GetGroup_caches [OF g]] by (auto simp: notifyPending_def split: option.split)
  ultimately show ?thesis by blast
qed

end
