(* ===== verification/Time_Wheel.thy ===== *)
theory Time_Wheel
  imports Complex_Main State_Machine
begin

text \<open>
  Timers: \<^verbatim>\<open>RandomTimeout\<close> of \<^verbatim>\<open>server/time_wheel.go\<close> and \<^verbatim>\<open>RefreshTimer\<close> of \<^verbatim>\<open>server/group.go\<close>.  Times are milliseconds.  A handler
  reads its clock from a \<open>clock\<close> record: the present time, the value of \<^verbatim>\<open>rand.Float32\<close>, and the rounding of \<^verbatim>\<open>float32\<close>
  operations.
\<close>

record clock =
  clkNow :: int
  clkRand :: rat
  clkRound :: "rat \<Rightarrow> rat"

definition go_int :: "rat \<Rightarrow> int" where
  "go_int x = (if x < 0 then \<lceil>x\<rceil> else \<lfloor>x\<rfloor>)"

definition RandomTimeout :: "clock \<Rightarrow> rat \<Rightarrow> int" where
  "RandomTimeout C mul =
     (let rnd = clkRound C; lowRange = rnd (500 * mul); highRange = rnd (1000 * mul)
      in go_int (rnd (lowRange + rnd (highRange * clkRand C))))"

definition RefreshTimer :: "clock \<Rightarrow> nat \<Rightarrow> rat \<Rightarrow> 'db BFTRaftServer \<Rightarrow> 'db BFTRaftServer" where
  "RefreshTimer C m mul s = set_rt m ((rt s m)\<lparr>rtTimeout := clkNow C + RandomTimeout C mul\<rparr>) s"

text \<open>
  \<^verbatim>\<open>rand.Float32\<close> lies in \<open>[0, 1)\<close>; rounding to the nearest \<^verbatim>\<open>float32\<close> is monotone and exact on the integers a 24-bit significand
  holds.
\<close>

definition clock_ok :: "clock \<Rightarrow> bool" where
  "clock_ok C \<longleftrightarrow> 0 \<le> clkRand C \<and> clkRand C < 1 \<and> mono (clkRound C) \<and>
     (\<forall>n :: nat. n \<le> 2 ^ 24 \<longrightarrow> clkRound C (of_nat n) = of_nat n)"

lemma RandomTimeout_bounds:
  assumes "clock_ok C" "1500 * n \<le> 2 ^ 24"
  shows "500 * int n \<le> RandomTimeout C (of_nat n)" and "RandomTimeout C (of_nat n) \<le> 1500 * int n"
proof -
  let ?r = "clkRound C" and ?x = "clkRand C"
  have mono: "?r a \<le> ?r b" if "a \<le> b" for a b using assms(1) that by (auto simp: clock_ok_def mono_def)
  have exact: "?r (of_nat k) = of_nat k" if "k \<le> 2 ^ 24" for k using assms(1) that by (auto simp: clock_ok_def)
  have e: "?r (of_nat (500 * n)) = of_nat (500 * n)" "?r (of_nat (1000 * n)) = of_nat (1000 * n)"
      "?r (of_nat (1500 * n)) = of_nat (1500 * n)"
    using assms(2) by (auto intro!: exact simp del: of_nat_mult)
  have e0: "?r 0 = 0" using exact [of 0] by simp
  let ?h = "?r (of_nat (1000 * n) * ?x)"
  have x: "0 \<le> ?x" "?x \<le> 1" using assms(1) by (auto simp: clock_ok_def)
  have "?r 0 \<le> ?h" using x by (intro mono) simp
  moreover have "?h \<le> ?r (of_nat (1000 * n))" using x by (intro mono) (simp add: mult_left_le)
  ultimately have h: "0 \<le> ?h" "?h \<le> of_nat (1000 * n)" using e e0 by simp_all
  have "?r (of_nat (500 * n)) \<le> ?r (of_nat (500 * n) + ?h)" using h by (intro mono) simp
  moreover have "?r (of_nat (500 * n) + ?h) \<le> ?r (of_nat (1500 * n))" using h by (intro mono) simp
  ultimately have v: "of_nat (500 * n) \<le> ?r (of_nat (500 * n) + ?h)" "?r (of_nat (500 * n) + ?h) \<le> of_nat (1500 * n)"
    using e by simp_all
  have "RandomTimeout C (of_nat n) = go_int (?r (of_nat (500 * n) + ?h))"
    using e by (simp add: RandomTimeout_def Let_def)
  moreover have "\<not> ?r (of_nat (500 * n) + ?h) < 0" using v(1) by (meson le_less_trans not_less of_nat_0_le_iff)
  ultimately have t: "RandomTimeout C (of_nat n) = \<lfloor>?r (of_nat (500 * n) + ?h)\<rfloor>" by (simp add: go_int_def)
  show "500 * int n \<le> RandomTimeout C (of_nat n)"
    unfolding t using v(1) by (simp add: le_floor_iff)
  show "RandomTimeout C (of_nat n) \<le> 1500 * int n"
  proof -
    have "\<lfloor>?r (of_nat (500 * n) + ?h)\<rfloor> \<le> \<lfloor>of_nat (1500 * n) :: rat\<rfloor>" by (rule floor_mono [OF v(2)])
    also have "\<dots> = int (1500 * n)" by (rule floor_of_nat)
    finally show ?thesis unfolding t by simp
  qed
qed

text \<open>
  C39.  \<^verbatim>\<open>RefreshTimer\<close> with a whole multiplier puts the next deadline of a group half a second to one and a half seconds times the multiplier
  from now, in spite of the rounding of \<^verbatim>\<open>float32\<close>, and changes nothing else of the group.
\<close>

theorem refresh_timer_bounds:
  assumes "clock_ok C" "1500 * n \<le> 2 ^ 24" "m < length (srvRTGroups s)"
  shows "\<exists>t. rt (RefreshTimer C m (of_nat n) s) m = (rt s m)\<lparr>rtTimeout := t\<rparr> \<and> clkNow C + 500 * int n \<le> t \<and> t \<le> clkNow C + 1500 * int n"
  using RandomTimeout_bounds [OF assms(1,2)] assms(3)
  by (intro exI [of _ "clkNow C + RandomTimeout C (of_nat n)"]) (simp add: RefreshTimer_def)

lemma RefreshTimer_sel [simp]:
  "srvDB (RefreshTimer C m t s) = srvDB s" "srvId (RefreshTimer C m t s) = srvId s"
  "length (srvRTGroups (RefreshTimer C m t s)) = length (srvRTGroups s)"
  by (simp_all add: RefreshTimer_def)

end
