(* ===== verification/Consensus.thy ===== *)
theory Consensus
  imports Hashing
begin

text \<open>
  The quorum arithmetic of \<^verbatim>\<open>utils/consensus.go\<close>: \<^verbatim>\<open>ExpectedPlayers\<close>, \<^verbatim>\<open>PickMajority\<close> and \<^verbatim>\<open>MajorityResponse\<close>.  The locale
  \<open>quorum_rule\<close> states what the rest of the code relies on, that two quorums of one electorate meet, and is
  interpreted on \<^verbatim>\<open>ExpectedPlayers\<close>.
\<close>

definition ExpectedPlayers :: "int \<Rightarrow> int" where
  "ExpectedPlayers num =
     (if num = 0 then 1
      else if num = 1 then 1
      else if num = 2 then 2
      else if num = 3 then 2
      else if num < 5 then 3
      else num div 2 + 1)"

locale quorum_rule =
  fixes quorum :: "int \<Rightarrow> int"
  assumes majority: "0 \<le> n \<Longrightarrow> n < 2 * quorum n"
    and positive: "0 \<le> n \<Longrightarrow> 0 < quorum n"
    and reachable: "0 < n \<Longrightarrow> quorum n \<le> n"
begin

lemma quorums_meet:
  assumes "finite E" "S \<subseteq> E" "T \<subseteq> E"
    and "quorum (int (card E)) \<le> int (card S)" "quorum (int (card E)) \<le> int (card T)"
  shows "\<exists>p. p \<in> S \<and> p \<in> T"
proof (rule majorities_meet [OF assms(1-3)])
  show "card E < card S + card T"
    using majority [of "int (card E)"] assms(4,5) by linarith
qed

lemma quorum_nonempty:
  assumes "finite E" "S \<subseteq> E" "quorum (int (card E)) \<le> int (card S)"
  shows "S \<noteq> {}"
  using positive [of "int (card E)"] assms(3) by auto

lemma majority_unique:
  assumes "a \<noteq> b" "quorum (int (length xs)) \<le> int (count_list xs a)"
    "quorum (int (length xs)) \<le> int (count_list xs b)"
  shows False
proof -
  have "count_list xs a + count_list xs b \<le> length xs"
    using assms(1) by (induction xs) auto
  then show False using majority [of "int (length xs)"] assms(2,3) by linarith
qed

end

lemma ExpectedPlayers_eq: "0 \<le> n \<Longrightarrow> ExpectedPlayers n = n div 2 + 1"
proof -
  assume "0 \<le> n"
  then consider "n = 0" | "n = 1" | "n = 2" | "n = 3" | "n = 4" | "5 \<le> n" by linarith
  then show ?thesis by cases (auto simp: ExpectedPlayers_def)
qed

interpretation ep: quorum_rule ExpectedPlayers
proof
  show "n < 2 * ExpectedPlayers n" if "0 \<le> n" for n
    using that by (simp add: ExpectedPlayers_eq)
  show "0 < ExpectedPlayers n" if "0 \<le> n" for n
    using that by (simp add: ExpectedPlayers_eq)
  show "ExpectedPlayers n \<le> n" if "0 < n" for n
    using that by (simp add: ExpectedPlayers_eq)
qed

fun count_hashes :: "u64 list \<Rightarrow> (u64 \<times> int) list \<Rightarrow> (u64 \<times> int) list" where
  "count_hashes [] countMap = countMap"
| "count_hashes (hash # hashes) countMap =
     (case map_of countMap hash of
        Some num \<Rightarrow> count_hashes hashes (AList.update hash (num + 1) countMap)
      | None \<Rightarrow> count_hashes hashes (AList.update hash 1 countMap))"

fun pick_count :: "int \<Rightarrow> (u64 \<times> int) list \<Rightarrow> u64" where
  "pick_count expectedConsensus [] = 0"
| "pick_count expectedConsensus ((hash, cnt) # rest) =
     (if expectedConsensus \<le> cnt then hash else pick_count expectedConsensus rest)"

type_synonym 'a map_order = "'a list \<Rightarrow> 'a list"

definition iteration_order :: "'a map_order \<Rightarrow> bool" where
  "iteration_order ord \<longleftrightarrow> (\<forall>xs. mset (ord xs) = mset xs)"

definition PickMajority :: "(u64 \<times> int) map_order \<Rightarrow> u64 list \<Rightarrow> u64" where
  "PickMajority ord hashes =
     pick_count (ExpectedPlayers (int (length hashes))) (ord (count_hashes hashes []))"

record 'a FuncResult =
  Result :: "'a option"
  Feature :: bytes

fun collect_results :: "'a FuncResult list \<Rightarrow> u64 list \<times> (u64 \<times> 'a) list \<Rightarrow> u64 list \<times> (u64 \<times> 'a) list" where
  "collect_results [] acc = acc"
| "collect_results (fr # frs) (hashes, vals) =
     (case Result fr of
        None \<Rightarrow> collect_results frs (hashes, vals)
      | Some res \<Rightarrow> (let hash = HashData (Feature fr)
          in collect_results frs (hashes @ [hash], AList.update hash res vals)))"

definition MajorityResponse ::
  "(u64 \<times> int) map_order \<Rightarrow> (u64 \<times> 'a) map_order \<Rightarrow> 'c list \<Rightarrow> 'a FuncResult list \<Rightarrow> 'a option option" where
  "MajorityResponse ord vord clients serverResChan =
     (if length serverResChan < length clients then None
      else Some (let (hashes, vals) = collect_results (take (length clients) serverResChan) ([], []);
                     majorityHash = PickMajority ord hashes
                 in case map_of vals majorityHash of
                      Some val \<Rightarrow> Some val
                    | None \<Rightarrow> (case vord vals of [] \<Rightarrow> None | (h, v) # _ \<Rightarrow> Some v)))"

definition strict_majority :: "u64 list \<Rightarrow> u64 option" where
  "strict_majority hashes = find (\<lambda>h. length hashes < 2 * count_list hashes h) hashes"

lemma map_of_count_hashes:
  "map_of (count_hashes hs cm) h =
     (case map_of cm h of
        Some n \<Rightarrow> Some (n + int (count_list hs h))
      | None \<Rightarrow> if h \<in> set hs then Some (int (count_list hs h)) else None)"
  by (induction hs cm rule: count_hashes.induct)
    (auto simp: update_conv' count_list_0_iff split: option.splits)

lemma distinct_count_hashes:
  "distinct (map fst cm) \<Longrightarrow> distinct (map fst (count_hashes hs cm))"
  by (induction hs cm rule: count_hashes.induct) (auto split: option.splits simp: distinct_update)

lemma set_count_hashes:
  "(h, n) \<in> set (count_hashes hs []) \<longleftrightarrow> h \<in> set hs \<and> n = int (count_list hs h)"
proof -
  have "(h, n) \<in> set (count_hashes hs []) \<longleftrightarrow> map_of (count_hashes hs []) h = Some n"
    using distinct_count_hashes [of "[]" hs] by simp
  then show ?thesis by (auto simp: map_of_count_hashes)
qed

lemma pick_count_Some:
  "(\<exists>(h, n) \<in> set cm. q \<le> n) \<Longrightarrow> \<exists>(h, n) \<in> set cm. q \<le> n \<and> pick_count q cm = h"
  by (induction q cm rule: pick_count.induct) auto

lemma pick_count_None: "\<forall>(h, n) \<in> set cm. \<not> q \<le> n \<Longrightarrow> pick_count q cm = 0"
  by (induction q cm rule: pick_count.induct) auto

lemma quorum_count_iff: "ExpectedPlayers (int (length hs)) \<le> int (count_list hs h) \<longleftrightarrow> length hs < 2 * count_list hs h"
  by (simp add: ExpectedPlayers_eq) linarith

lemma PickMajority_quorum:
  assumes ord: "iteration_order ord" and q: "length hs < 2 * count_list hs h"
  shows "PickMajority ord hs = h"
proof -
  let ?q = "ExpectedPlayers (int (length hs))" and ?cm = "ord (count_hashes hs [])"
  have set: "set ?cm = set (count_hashes hs [])"
    using ord by (metis iteration_order_def set_mset_mset)
  have "h \<in> set hs" using q by (metis count_list_0_iff mult_0_right not_less_zero)
  then have "(h, int (count_list hs h)) \<in> set ?cm" by (simp add: set set_count_hashes)
  moreover have "?q \<le> int (count_list hs h)" using q by (simp add: quorum_count_iff)
  ultimately obtain h' n where h': "(h', n) \<in> set ?cm" "?q \<le> n" "pick_count ?q ?cm = h'"
    using pick_count_Some [of ?cm ?q] by fast
  then have "?q \<le> int (count_list hs h')" by (simp add: set set_count_hashes)
  then have "h' = h" using ep.majority_unique [of h' h hs] \<open>?q \<le> int (count_list hs h)\<close> by blast
  with h' show ?thesis by (simp add: PickMajority_def)
qed

lemma PickMajority_none:
  assumes ord: "iteration_order ord" and q: "\<And>h. \<not> length hs < 2 * count_list hs h"
  shows "PickMajority ord hs = 0"
proof -
  have set: "set (ord (count_hashes hs [])) = set (count_hashes hs [])"
    using ord by (metis iteration_order_def set_mset_mset)
  show ?thesis unfolding PickMajority_def
    by (rule pick_count_None) (use q in \<open>auto simp: set set_count_hashes quorum_count_iff\<close>)
qed

lemma strict_majority_Some: "strict_majority hs = Some h \<Longrightarrow> length hs < 2 * count_list hs h"
  by (auto simp: strict_majority_def find_Some_iff)

lemma strict_majority_None: "strict_majority hs = None \<Longrightarrow> \<not> length hs < 2 * count_list hs h"
  by (auto simp: strict_majority_def find_None_iff) (metis count_list_0_iff mult_0_right not_less_zero)

text \<open>
  C26.  Counting with a map and scanning it in any order is the same as looking for the hash more than half of the hashes are equal to;
  zero is returned when there is none.
\<close>

theorem PickMajority_correct:
  assumes "iteration_order ord"
  shows "PickMajority ord hs = (case strict_majority hs of Some h \<Rightarrow> h | None \<Rightarrow> 0)"
  using PickMajority_quorum [OF assms] PickMajority_none [OF assms]
    strict_majority_Some strict_majority_None
  by (cases "strict_majority hs") auto

theorem PickMajority_correct_witness:
  "PickMajority (\<lambda>xs. rev xs) [5, 7, 5] = 5 \<and> PickMajority (\<lambda>xs. rev xs) [5, 7] = 0"
  using PickMajority_correct [of rev "[5, 7, 5]"] PickMajority_correct [of rev "[5, 7]"]
  by (simp add: iteration_order_def strict_majority_def)



end
