(* ===== verification/Vote.thy ===== *)
theory Vote
  imports Time_Wheel Consensus
begin

text \<open>
  Voting: \<^verbatim>\<open>RequestVote\<close> of \<^verbatim>\<open>server/group.go\<close>, \<^verbatim>\<open>ResetTerm\<close> and \<^verbatim>\<open>BecomeFollower\<close> of \<^verbatim>\<open>server/vote.go\<close>, and
  \<^verbatim>\<open>ExpectedHonestPeers\<close> of \<^verbatim>\<open>server/consensus.go\<close>.
\<close>

section \<open>Definitions\<close>

definition ExpectedHonestPeers :: "RTGroup \<Rightarrow> int" where
  "ExpectedHonestPeers m = ExpectedPlayers (int (length (rtGroupPeers m)))"

text \<open>\<^verbatim>\<open>TODO: fix wait approved\<close>: the wait for the approval of a log entry is not implemented.\<close>

definition WaitLogApproved :: "u64 \<Rightarrow> bool" where
  "WaitLogApproved logIndex = True"

definition ResetTerm :: "'db lib \<Rightarrow> nat \<Rightarrow> u64 \<Rightarrow> 'db BFTRaftServer \<Rightarrow> 'db BFTRaftServer" where
  "ResetTerm L m term s =
     (let r = rt s m;
          r = r\<lparr>rtGroup := (rtGroup r)\<lparr>grpTerm := term\<rparr>, rtVotes := [], rtLastVotedTerm := 0, rtLastVotedTo := 0,
                rtSendVotesForPeers := rtSendVotesForPeers r ++ map_of (map (\<lambda>(peerId, p). (peerId, True)) (rtGroupPeers r))\<rparr>;
          s = set_rt m r s
      in snd (SaveGroupNTXN L s (rtGroup r)))"

text \<open>The checks of \<^verbatim>\<open>RequestVote\<close> that come before the lazy vote: whether they pass, and the vote as it stands.\<close>

definition RequestVote_check ::
  "'db lib \<Rightarrow> 'db BFTRaftServer \<Rightarrow> nat \<Rightarrow> RequestVoteRequest \<Rightarrow> (bool \<times> RequestVoteResponse) option" where
  "RequestVote_check L s m req =
     (let r = rt s m; groupTerm = grpTerm (rtGroup r); reqTerm = rvTerm req in do {
        lastLogEntry \<leftarrow> LastLogEntry L (srvDB s) (gid s m);
        let vote = \<lparr>voteGroup = gid s m, voteTerm = GetTerm (Some (rtGroup r)), voteLogIndex = leIndex lastLogEntry,
                    voteCandidateId = rvCandidateId req, voteVoter = srvId s, voteGranted = False, voteSignature = []\<rparr>;
            vote = vote\<lparr>voteSignature := serverSign L s (RequestVoteResponseSignData vote)\<rparr>
        in if groupTerm \<ge> reqTerm \<or> leIndex lastLogEntry > rvLogIndex req then Some (False, vote)
           else if reqTerm - groupTerm > MAX_TERM_BUMP then Some (False, vote)
           else if reqTerm = rtLastVotedTerm r \<and> rtLastVotedTo r \<noteq> 0 \<and> rtLastVotedTo r \<noteq> rvCandidateId req
           then Some (False, vote)
           else Some (True, vote)
      })"

text \<open>
  The lazy vote polls the role of this peer every 500 ms, at most \<open>10 * 1000 / 500\<close> times, and grants the vote as soon as
  the peer is no follower.  The state of the server may change between the polls: \<open>polls k\<close> is the state at the \<open>k\<close>-th
  one.  The result is the number of the last poll and whether the vote is granted.
\<close>

definition intervalCount :: nat where
  "intervalCount = 10 * 1000 div 500"

function lazy_wait :: "(nat \<Rightarrow> 'db BFTRaftServer) \<Rightarrow> nat \<Rightarrow> nat \<Rightarrow> nat \<times> bool" where
  "lazy_wait polls m waitedCounts =
     (let waitedCounts' = waitedCounts + 1 in
      if rtRole (rt (polls waitedCounts') m) \<noteq> FOLLOWER then (waitedCounts', True)
      else if waitedCounts' \<ge> intervalCount then (waitedCounts', False)
      else lazy_wait polls m waitedCounts')"
  by pat_completeness auto
termination
  by (relation "measure (\<lambda>(polls, m, n). intervalCount - n)") auto

declare lazy_wait.simps [simp del]

definition grantVote ::
  "'db lib \<Rightarrow> 'db BFTRaftServer \<Rightarrow> nat \<Rightarrow> RequestVoteRequest \<Rightarrow> RequestVoteResponse \<Rightarrow> RequestVoteResponse \<times> 'db BFTRaftServer" where
  "grantVote L s m req vote =
     (let vote = vote\<lparr>voteGranted := True\<rparr>;
          vote = vote\<lparr>voteSignature := serverSign L s (RequestVoteResponseSignData vote)\<rparr>
      in (vote, set_rt m ((rt s m)\<lparr>rtLastVotedTo := rvCandidateId req, rtLastVotedTerm := rvTerm req\<rparr>) s))"

definition RequestVote ::
  "'db lib \<Rightarrow> (nat \<Rightarrow> 'db BFTRaftServer) \<Rightarrow> 'db BFTRaftServer \<Rightarrow> nat \<Rightarrow> RequestVoteRequest \<Rightarrow>
   (RequestVoteResponse \<times> 'db BFTRaftServer) option" where
  "RequestVote L polls s m req = do {
     (passed, vote) \<leftarrow> RequestVote_check L s m req;
     if passed
     then (let (k, granted) = lazy_wait polls m 0
           in Some (if granted then grantVote L (polls k) m req vote else (vote, polls k)))
     else Some (vote, s)
   }"

text \<open>The loop of \<^verbatim>\<open>BecomeFollower\<close> over the votes; verifying with a nil public key panics.\<close>

fun check_votes ::
  "'db lib \<Rightarrow> nat \<Rightarrow> AppendEntriesRequest \<Rightarrow> RequestVoteResponse list \<Rightarrow> u64 list \<Rightarrow> 'db BFTRaftServer \<Rightarrow>
   (u64 list \<times> 'db BFTRaftServer) option" where
  "check_votes L m req [] votes s = Some (votes, s)"
| "check_votes L m req (vote # rest) votes s =
     (case map_of (rtGroupPeers (rt s m)) (voteVoter vote) of
        None \<Rightarrow> check_votes L m req rest votes s
      | Some votePeer \<Rightarrow> do {
          (publicKey, s) \<leftarrow> GetHostPublicKey L s (peerId votePeer);
          pk \<leftarrow> publicKey;
          if \<not> VerifySign L pk (voteSignature vote) (RequestVoteResponseSignData vote)
          then check_votes L m req rest votes s
          else if voteGroup vote = gid s m \<and> voteCandidateId vote = aeLeaderId req \<and> voteGranted vote
          then check_votes L m req rest (List.insert (peerId votePeer) votes) s
          else check_votes L m req rest votes s
        })"

definition BecomeFollower ::
  "'db lib \<Rightarrow> clock \<Rightarrow> nat \<Rightarrow> AppendEntriesRequest \<Rightarrow> 'db BFTRaftServer \<Rightarrow> (bool \<times> 'db BFTRaftServer) option" where
  "BecomeFollower L C m appendEntryReq s =
     (let expectedVotes = ExpectedHonestPeers (rt s m); receivedVotes = int (length (aeQuorumVotes appendEntryReq)) in
      if receivedVotes < expectedVotes then Some (False, s)
      else do {
        (votes, s) \<leftarrow> check_votes L m appendEntryReq (aeQuorumVotes appendEntryReq) [] s;
        if int (length votes) \<ge> expectedVotes
        then (let s = set_rt m ((rt s m)\<lparr>rtRole := FOLLOWER\<rparr>) s;
                  s = ResetTerm L m (aeTerm appendEntryReq) s;
                  s = RefreshTimer C m 10 s;
                  s = set_rt m ((rt s m)\<lparr>rtLeader := aeLeaderId appendEntryReq\<rparr>) s;
                  s = snd (SaveGroupNTXN L s (rtGroup (rt s m)))
              in Some (True, s))
        else Some (False, s)
      })"

section \<open>The lazy vote\<close>

lemma lazy_wait_spec:
  assumes "n < intervalCount" "lazy_wait polls m n = (k, b)"
  shows "n < k \<and> k \<le> intervalCount \<and> (b \<longleftrightarrow> rtRole (rt (polls k) m) \<noteq> FOLLOWER) \<and>
     (\<forall>j. n < j \<and> j < k \<longrightarrow> rtRole (rt (polls j) m) = FOLLOWER) \<and> (\<not> b \<longrightarrow> k = intervalCount)"
  using assms
proof (induction polls m n rule: lazy_wait.induct)
  case (1 polls m n)
  show ?case
  proof (cases "rtRole (rt (polls (Suc n)) m) \<noteq> FOLLOWER \<or> Suc n \<ge> intervalCount")
    case True
    then have "(k, b) = (Suc n, rtRole (rt (polls (Suc n)) m) \<noteq> FOLLOWER)"
      using "1.prems"(2) by (subst (asm) lazy_wait.simps) (auto simp: Let_def split: if_splits)
    then show ?thesis using "1.prems"(1) True by auto
  next
    case False
    then have lw: "lazy_wait polls m (Suc n) = (k, b)" using "1.prems"(2) by (subst (asm) lazy_wait.simps) (simp add: Let_def)
    have IH: "Suc n < k \<and> k \<le> intervalCount \<and> (b \<longleftrightarrow> rtRole (rt (polls k) m) \<noteq> FOLLOWER) \<and>
       (\<forall>j. Suc n < j \<and> j < k \<longrightarrow> rtRole (rt (polls j) m) = FOLLOWER) \<and> (\<not> b \<longrightarrow> k = intervalCount)"
      by (rule "1.IH" [of "Suc n"]) (use False lw in simp_all)
    moreover have "rtRole (rt (polls j) m) = FOLLOWER" if "n < j" "j < k" for j
    proof (cases "j = Suc n")
      case True
      with False show ?thesis by blast
    next
      case j: False
      with that have "Suc n < j" by linarith
      with IH that show ?thesis by blast
    qed
    moreover have "n < k" using IH by linarith
    ultimately show ?thesis by blast
  qed
qed

lemma lazy_wait_granted_iff:
  assumes "n < intervalCount"
  shows "snd (lazy_wait polls m n) \<longleftrightarrow> (\<exists>k. n < k \<and> k \<le> intervalCount \<and> rtRole (rt (polls k) m) \<noteq> FOLLOWER)"
proof -
  obtain k b where kb: "lazy_wait polls m n = (k, b)" by fastforce
  note sp = lazy_wait_spec [OF assms kb]
  show ?thesis
  proof (cases b)
    case True
    with sp kb show ?thesis by auto
  next
    case False
    with sp have "rtRole (rt (polls j) m) = FOLLOWER" if "n < j" "j \<le> intervalCount" for j
      using that by (cases "j = k") auto
    with False kb show ?thesis by auto
  qed
qed

section \<open>Granting votes\<close>

text \<open>The conditions under which \<^verbatim>\<open>RequestVote\<close> passes its checks.\<close>

definition may_grant :: "'db lib \<Rightarrow> 'db BFTRaftServer \<Rightarrow> nat \<Rightarrow> RequestVoteRequest \<Rightarrow> bool" where
  "may_grant L s m req \<longleftrightarrow> (\<exists>e. LastLogEntry L (srvDB s) (gid s m) = Some e \<and> leIndex e \<le> rvLogIndex req) \<and>
     grpTerm (rtGroup (rt s m)) < rvTerm req \<and> rvTerm req - grpTerm (rtGroup (rt s m)) \<le> MAX_TERM_BUMP \<and>
     \<not> (rvTerm req = rtLastVotedTerm (rt s m) \<and> rtLastVotedTo (rt s m) \<noteq> 0 \<and> rtLastVotedTo (rt s m) \<noteq> rvCandidateId req)"

lemma RequestVote_check_iff:
  assumes "RequestVote_check L s m req = Some (b, vote)"
  shows "b \<longleftrightarrow> may_grant L s m req" and "\<not> voteGranted vote" and "voteCandidateId vote = rvCandidateId req"
    and "voteVoter vote = srvId s" and "voteGroup vote = gid s m"
  using assms
  by (auto simp: RequestVote_check_def may_grant_def Let_def bind_eq_Some_conv not_le not_less split: if_splits)

lemma intervalCount_pos [simp]: "0 < intervalCount"
  by (simp add: intervalCount_def)

lemma RequestVote_cases:
  assumes "RequestVote L polls s m req = Some (vote, s')"
  obtains (granted) k where "may_grant L s m req" "0 < k" "k \<le> intervalCount" "rtRole (rt (polls k) m) \<noteq> FOLLOWER"
      "voteGranted vote" "voteCandidateId vote = rvCandidateId req"
      "s' = set_rt m ((rt (polls k) m)\<lparr>rtLastVotedTo := rvCandidateId req, rtLastVotedTerm := rvTerm req\<rparr>) (polls k)"
  | (rejected) "\<not> may_grant L s m req" "\<not> voteGranted vote" "s' = s"
  | (timeout) "\<not> voteGranted vote" "s' = polls intervalCount"
      "\<forall>k. 0 < k \<and> k \<le> intervalCount \<longrightarrow> rtRole (rt (polls k) m) = FOLLOWER"
proof -
  obtain b v where c: "RequestVote_check L s m req = Some (b, v)"
    and r: "(if b then (let (k, granted) = lazy_wait polls m 0
           in Some (if granted then grantVote L (polls k) m req v else (v, polls k))) else Some (v, s)) = Some (vote, s')"
    using assms by (auto simp: RequestVote_def bind_eq_Some_conv)
  note chk = RequestVote_check_iff [OF c]
  obtain k g where w: "lazy_wait polls m 0 = (k, g)" by fastforce
  note sp = lazy_wait_spec [OF intervalCount_pos w]
  consider "b" "g" | "b" "\<not> g" | "\<not> b" by blast
  then show ?thesis
  proof cases
    case 1
    with r w have "grantVote L (polls k) m req v = (vote, s')" by simp
    then have "voteGranted vote" "voteCandidateId vote = rvCandidateId req"
      "s' = set_rt m ((rt (polls k) m)\<lparr>rtLastVotedTo := rvCandidateId req, rtLastVotedTerm := rvTerm req\<rparr>) (polls k)"
      using chk(3) by (auto simp: grantVote_def Let_def)
    moreover have "0 < k" "k \<le> intervalCount" "rtRole (rt (polls k) m) \<noteq> FOLLOWER" using sp 1(2) by blast+
    ultimately show ?thesis using 1(1) chk(1) by (intro granted) simp_all
  next
    case 2
    with r w have "vote = v" "s' = polls k" by auto
    moreover have "\<forall>j. 0 < j \<and> j \<le> intervalCount \<longrightarrow> rtRole (rt (polls j) m) = FOLLOWER"
      using sp 2 by (auto simp: order_le_less)
    moreover have "k = intervalCount" using sp 2 by blast
    ultimately show ?thesis using chk(2) by (intro timeout) simp_all
  next
    case 3
    with r chk rejected show ?thesis by auto
  qed
qed

lemma RequestVote_granted_iff:
  assumes "RequestVote L polls s m req = Some (vote, s')"
  shows "voteGranted vote \<longleftrightarrow> may_grant L s m req \<and> (\<exists>k. 0 < k \<and> k \<le> intervalCount \<and> rtRole (rt (polls k) m) \<noteq> FOLLOWER)"
  using assms by (cases rule: RequestVote_cases) auto

lemma RequestVote_panics_iff: "RequestVote L polls s m req = None \<longleftrightarrow> LastLogEntry L (srvDB s) (gid s m) = None"
  by (auto simp: RequestVote_def RequestVote_check_def Let_def bind_eq_None_conv split: if_splits prod.splits)

lemma RequestVote_returns:
  "LastLogEntry L (srvDB s) (gid s m) = Some e \<Longrightarrow> \<exists>vote s'. RequestVote L polls s m req = Some (vote, s')"
  using RequestVote_panics_iff [of L polls s m req] by (cases "RequestVote L polls s m req") auto

text \<open>Two requests of one term for different candidates, one after the other: the second is refused.\<close>

lemma no_second_vote:
  assumes "RequestVote L polls s m req = Some (vote, s1)" "voteGranted vote" "\<And>k. m < length (srvRTGroups (polls k))"
    and "RequestVote L polls' s1 m req' = Some (vote', s2)"
    and "rvTerm req' = rvTerm req" "rvCandidateId req' \<noteq> rvCandidateId req" "rvCandidateId req \<noteq> 0"
  shows "\<not> voteGranted vote' \<and> s2 = s1"
proof -
  from assms(1,2) have "rtLastVotedTo (rt s1 m) = rvCandidateId req" "rtLastVotedTerm (rt s1 m) = rvTerm req"
    by (cases rule: RequestVote_cases; use assms(3) in simp)+
  then have no: "\<not> may_grant L s1 m req'" using assms(5-7) by (simp add: may_grant_def)
  obtain v where "RequestVote_check L s1 m req' = Some (False, v)"
    using assms(4) no RequestVote_check_iff(1) by (fastforce simp: RequestVote_def bind_eq_Some_conv)
  then show ?thesis using assms(4) RequestVote_check_iff(2) [of L s1 m req' False v] by (simp add: RequestVote_def)
qed

section \<open>Becoming a follower\<close>

text \<open>The public key a server finds for a node, a panic or a missing node being \<open>None\<close>.\<close>

definition pubkey :: "'db lib \<Rightarrow> 'db BFTRaftServer \<Rightarrow> u64 \<Rightarrow> rsa_PublicKey option" where
  "pubkey L s n = (case GetHostPublicKey L s n of Some (k, s') \<Rightarrow> k | None \<Rightarrow> None)"

lemma GetHost_stable:
  "GetHost L s (srvDB s) n = (h, s') \<Longrightarrow> fst (GetHost L s' (srvDB s') n') = fst (GetHost L s (srvDB s) n')"
  by (auto simp: GetHost_def Let_def split: option.splits sum.splits if_splits)

lemma pubkey_eq: "pubkey L t n = (case srvNodePublicKeys t (cacheKey n) of Some k \<Rightarrow> Some k
    | None \<Rightarrow> (case fst (GetHostNTXN L t n) of None \<Rightarrow> None | Some node \<Rightarrow> ParsePublicKey L (hostPublicKey node)))"
  by (auto simp: pubkey_def GetHostPublicKey_def bind_eq_Some_conv bind_eq_None_conv split: option.splits prod.splits)

lemma pubkey_GetHost:
  assumes "GetHostNTXN L s n = (h, s')"
  shows "pubkey L s' n' = pubkey L s n'"
proof -
  have "srvNodePublicKeys s' = srvNodePublicKeys s"
    using assms by (auto simp: GetHostNTXN_def GetHost_def Let_def split: option.splits sum.splits)
  moreover have "fst (GetHostNTXN L s' n') = fst (GetHostNTXN L s n')"
    using GetHost_stable [of L s n h s' n'] assms by (simp add: GetHostNTXN_def)
  ultimately show ?thesis by (simp only: pubkey_eq)
qed

lemma pubkey_stable:
  assumes "GetHostPublicKey L s n = Some (k, s')"
  shows "pubkey L s' n' = pubkey L s n'"
proof (cases "srvNodePublicKeys s (cacheKey n)")
  case (Some pk)
  with assms show ?thesis by (simp add: GetHostPublicKey_def)
next
  case None
  obtain h s1 where h: "GetHostNTXN L s n = (h, s1)" by fastforce
  have s1: "srvNodePublicKeys s1 = srvNodePublicKeys s" "srvDB s1 = srvDB s"
    using h by (auto simp: GetHostNTXN_def GetHost_def Let_def split: option.splits sum.splits)
  have host: "fst (GetHostNTXN L t n'') = fst (GetHostNTXN L s n'')"
    if "srvHosts t = srvHosts s1" "srvDB t = srvDB s1" for t n''
  proof -
    have "fst (GetHost L t (srvDB t) n'') = fst (GetHost L s1 (srvDB s1) n'')"
      using that by (auto simp: GetHost_def Let_def split: option.splits sum.splits)
    then show ?thesis using GetHost_stable [of L s n h s1 n''] h by (simp add: GetHostNTXN_def)
  qed
  note pk = pubkey_eq
  show ?thesis
  proof (cases h)
    case None
    with assms h \<open>srvNodePublicKeys s (cacheKey n) = None\<close> have "s' = s1" by (simp add: GetHostPublicKey_def)
    moreover have "fst (GetHostNTXN L s1 n') = fst (GetHostNTXN L s n')" using host [of s1] by simp
    ultimately show ?thesis unfolding pk by (simp only: s1)
  next
    case (Some node)
    with assms h None obtain key where key: "ParsePublicKey L (hostPublicKey node) = Some key"
        "s' = s1\<lparr>srvNodePublicKeys := (srvNodePublicKeys s1)(cacheKey n \<mapsto> key)\<rparr>"
      by (auto simp: GetHostPublicKey_def bind_eq_Some_conv)
    then have "fst (GetHostNTXN L s' n') = fst (GetHostNTXN L s n')" using host [of s'] by simp
    then show ?thesis using key h Some None s1 by (simp add: pk split: option.split)
  qed
qed

text \<open>A vote that counts: from a peer of the group, verified with that peer's key, for this group and leader, granted.\<close>

definition valid_vote :: "'db lib \<Rightarrow> 'db BFTRaftServer \<Rightarrow> nat \<Rightarrow> u64 \<Rightarrow> RequestVoteResponse \<Rightarrow> u64 \<Rightarrow> bool" where
  "valid_vote L s m leader vote p \<longleftrightarrow>
     (\<exists>peer pk. map_of (rtGroupPeers (rt s m)) (voteVoter vote) = Some peer \<and> peerId peer = p \<and>
        pubkey L s p = Some pk \<and> VerifySign L pk (voteSignature vote) (RequestVoteResponseSignData vote) \<and>
        voteGroup vote = gid s m \<and> voteCandidateId vote = leader \<and> voteGranted vote)"

lemma check_votes_spec:
  assumes "check_votes L m req vs acc s = Some (ids, s')"
  shows "caches_only s s'"
    and "set ids = set acc \<union> {p. \<exists>v \<in> set vs. valid_vote L s m (aeLeaderId req) v p}"
    and "distinct acc \<Longrightarrow> distinct ids"
proof -
  have "caches_only s s' \<and> set ids = set acc \<union> {p. \<exists>v \<in> set vs. valid_vote L s m (aeLeaderId req) v p} \<and>
      (distinct acc \<longrightarrow> distinct ids)"
    using assms
  proof (induction vs arbitrary: acc s)
    case Nil
    then show ?case by auto
  next
    case (Cons vote rest)
    show ?case
    proof (cases "map_of (rtGroupPeers (rt s m)) (voteVoter vote)")
      case None
      then have "\<not> valid_vote L s m (aeLeaderId req) vote p" for p by (simp add: valid_vote_def)
      with Cons None show ?thesis by auto
    next
      case (Some peer)
      with Cons.prems obtain pk s1 where pk: "GetHostPublicKey L s (peerId peer) = Some (Some pk, s1)"
        by (auto simp: bind_eq_Some_conv)
      have c: "caches_only s s1" using pk by (rule GetHostPublicKey_caches)
      have same: "valid_vote L s1 m (aeLeaderId req) v p = valid_vote L s m (aeLeaderId req) v p" for v p
        using pubkey_stable [OF pk] by (simp add: valid_vote_def caches_only_sel [OF c])
      have key: "pubkey L s (peerId peer) = Some pk" using pk by (simp add: pubkey_def)
      let ?sig = "VerifySign L pk (voteSignature vote) (RequestVoteResponseSignData vote)"
      let ?ok = "voteGroup vote = gid s1 m \<and> voteCandidateId vote = aeLeaderId req \<and> voteGranted vote"
      let ?acc = "if ?sig \<and> ?ok then List.insert (peerId peer) acc else acc"
      have this_vote: "valid_vote L s m (aeLeaderId req) vote p \<longleftrightarrow> p = peerId peer \<and> ?sig \<and> ?ok" for p
        using Some key by (auto simp: valid_vote_def caches_only_sel [OF c])
      have "check_votes L m req rest ?acc s1 = Some (ids, s')"
        using Some pk Cons.prems by (auto split: if_splits)
      then have "caches_only s1 s' \<and>
          set ids = set ?acc \<union> {p. \<exists>v \<in> set rest. valid_vote L s1 m (aeLeaderId req) v p} \<and>
          (distinct ?acc \<longrightarrow> distinct ids)" by (rule Cons.IH)
      then show ?thesis using c caches_only_trans by (auto simp: this_vote same)
    qed
  qed
  then show "caches_only s s'"
    and "set ids = set acc \<union> {p. \<exists>v \<in> set vs. valid_vote L s m (aeLeaderId req) v p}"
    and "distinct acc \<Longrightarrow> distinct ids" by auto
qed

lemma ResetTerm_rt:
  assumes "m < length (srvRTGroups s)"
  shows "rt (ResetTerm L m t s) m = (rt s m)\<lparr>rtGroup := (rtGroup (rt s m))\<lparr>grpTerm := t\<rparr>, rtVotes := [],
      rtLastVotedTerm := 0, rtLastVotedTo := 0,
      rtSendVotesForPeers := rtSendVotesForPeers (rt s m) ++
        map_of (map (\<lambda>(peerId, p). (peerId, True)) (rtGroupPeers (rt s m)))\<rparr>"
  using assms by (simp add: ResetTerm_def Let_def)

lemma ResetTerm_sel [simp]:
  "length (srvRTGroups (ResetTerm L m t s)) = length (srvRTGroups s)" "srvId (ResetTerm L m t s) = srvId s"
  by (simp_all add: ResetTerm_def Let_def)

text \<open>The peers of a group are keyed by their own ids.\<close>

definition peers_wf :: "RTGroup \<Rightarrow> bool" where
  "peers_wf r \<longleftrightarrow> distinct (map fst (rtGroupPeers r)) \<and> (\<forall>(k, p) \<in> set (rtGroupPeers r). peerId p = k)"

lemma peers_wf_update:
  assumes "peers_wf r" "peerId q = k"
  shows "peers_wf (r'\<lparr>rtGroupPeers := AList.update k q (rtGroupPeers r)\<rparr>)"
proof -
  have keyed: "\<forall>(k, p) \<in> set ps. peerId p = k \<Longrightarrow> \<forall>(k, p) \<in> set (AList.update k q ps). peerId p = k" for ps
    using assms(2) by (induction ps) auto
  have "distinct (map fst (AList.update k q (rtGroupPeers r)))"
    by (rule distinct_update) (use assms(1) in \<open>simp add: peers_wf_def\<close>)
  moreover have "\<forall>(k, p) \<in> set (AList.update k q (rtGroupPeers r)). peerId p = k"
    by (rule keyed) (use assms(1) in \<open>simp add: peers_wf_def\<close>)
  ultimately show ?thesis by (simp add: peers_wf_def)
qed

definition peer_ids :: "RTGroup \<Rightarrow> u64 set" where
  "peer_ids r = fst ` set (rtGroupPeers r)"

lemma finite_peer_ids [simp]: "finite (peer_ids r)"
  by (simp add: peer_ids_def)

lemma card_peer_ids: "peers_wf r \<Longrightarrow> card (peer_ids r) = length (rtGroupPeers r)"
  unfolding peers_wf_def peer_ids_def by (metis distinct_card length_map list.set_map)

definition voters :: "'db lib \<Rightarrow> 'db BFTRaftServer \<Rightarrow> nat \<Rightarrow> AppendEntriesRequest \<Rightarrow> u64 set" where
  "voters L s m req = {p. \<exists>v \<in> set (aeQuorumVotes req). valid_vote L s m (aeLeaderId req) v p}"

lemma voters_peers: "peers_wf (rt s m) \<Longrightarrow> voters L s m req \<subseteq> peer_ids (rt s m)"
  by (force simp: voters_def valid_vote_def peers_wf_def peer_ids_def dest: map_of_SomeD)

text \<open>The change of state of a successful \<^verbatim>\<open>BecomeFollower\<close>.\<close>

definition follow :: "'db lib \<Rightarrow> clock \<Rightarrow> nat \<Rightarrow> AppendEntriesRequest \<Rightarrow> RTGroup \<Rightarrow> RTGroup" where
  "follow L C m req r = r\<lparr>rtRole := FOLLOWER, rtGroup := (rtGroup r)\<lparr>grpTerm := aeTerm req\<rparr>, rtVotes := [],
     rtLastVotedTerm := 0, rtLastVotedTo := 0,
     rtSendVotesForPeers := rtSendVotesForPeers r ++ map_of (map (\<lambda>(peerId, p). (peerId, True)) (rtGroupPeers r)),
     rtTimeout := clkNow C + RandomTimeout C 10, rtLeader := aeLeaderId req\<rparr>"

lemma BecomeFollower_cases:
  assumes "BecomeFollower L C m req s = Some (b, s')"
  obtains (refused) "\<not> b" "caches_only s s'"
  | (followed) s1 where b "caches_only s s1" "ExpectedHonestPeers (rt s m) \<le> int (card (voters L s m req))"
      "srvId s' = srvId s" "length (srvRTGroups s') = length (srvRTGroups s)"
      "m < length (srvRTGroups s) \<Longrightarrow> rt s' m = follow L C m req (rt s m)"
proof (cases "int (length (aeQuorumVotes req)) < ExpectedHonestPeers (rt s m)")
  case True
  with assms refused show ?thesis by (auto simp: BecomeFollower_def Let_def)
next
  case False
  with assms obtain ids s1 where ids: "check_votes L m req (aeQuorumVotes req) [] s = Some (ids, s1)"
    by (auto simp: BecomeFollower_def Let_def bind_eq_Some_conv)
  note spec = check_votes_spec [OF ids]
  then have card: "int (length ids) = int (card (voters L s m req))"
    by (simp add: voters_def flip: distinct_card)
  note sel = caches_only_sel [OF spec(1)]
  show ?thesis
  proof (cases "ExpectedHonestPeers (rt s m) \<le> int (length ids)")
    case True
    show ?thesis
    proof (rule followed [OF _ spec(1)])
      show "m < length (srvRTGroups s) \<Longrightarrow> rt s' m = follow L C m req (rt s m)"
        using True False assms ids
        by (auto simp: BecomeFollower_def Let_def follow_def ResetTerm_rt RefreshTimer_def sel)
    qed (use True False assms ids card in \<open>auto simp: BecomeFollower_def Let_def sel\<close>)
  next
    case f: False
    with False assms ids spec(1) refused show ?thesis by (auto simp: BecomeFollower_def Let_def)
  qed
qed

context libraries
begin

lemma SaveGroupNTXN_logs: "logs_eq L (srvDB s) (srvDB (snd (SaveGroupNTXN L s g)))"
  unfolding SaveGroupNTXN_def by (rule updateDB_logs [OF surjective_pairing]) (rule SaveGroup_logs)

lemma ResetTerm_logs: "logs_eq L (srvDB s) (srvDB (ResetTerm L m t s))"
  using SaveGroupNTXN_logs [of "set_rt m r s" g for r g] by (simp add: ResetTerm_def Let_def)

lemma BecomeFollower_logs:
  assumes "BecomeFollower L C m req s = Some (b, s')"
  shows "logs_eq L (srvDB s) (srvDB s')"
proof (cases "int (length (aeQuorumVotes req)) < ExpectedHonestPeers (rt s m)")
  case True
  with assms show ?thesis by (simp add: BecomeFollower_def)
next
  case False
  with assms obtain ids s1 where ids: "check_votes L m req (aeQuorumVotes req) [] s = Some (ids, s1)"
    by (auto simp: BecomeFollower_def Let_def bind_eq_Some_conv)
  have s1: "srvDB s1 = srvDB s" using caches_only_sel(1) [OF check_votes_spec(1) [OF ids]] .
  show ?thesis
  proof (cases "ExpectedHonestPeers (rt s m) \<le> int (length ids)")
    case True
    let ?s2 = "ResetTerm L m (aeTerm req) (set_rt m ((rt s1 m)\<lparr>rtRole := FOLLOWER\<rparr>) s1)"
    let ?s3 = "set_rt m ((rt (RefreshTimer C m 10 ?s2) m)\<lparr>rtLeader := aeLeaderId req\<rparr>) (RefreshTimer C m 10 ?s2)"
    have "s' = snd (SaveGroupNTXN L ?s3 (rtGroup (rt ?s3 m)))"
      using True False assms ids by (simp add: BecomeFollower_def Let_def)
    then have "logs_eq L (srvDB ?s3) (srvDB s')" by (simp only: SaveGroupNTXN_logs)
    moreover have "logs_eq L (srvDB s) (srvDB ?s2)"
      using ResetTerm_logs [of "set_rt m ((rt s1 m)\<lparr>rtRole := FOLLOWER\<rparr>) s1"] by (simp add: s1)
    moreover have "srvDB ?s3 = srvDB ?s2" by simp
    ultimately show ?thesis using logs_eq_trans by metis
  next
    case f: False
    with False assms ids have "s' = s1" by (simp add: BecomeFollower_def Let_def)
    then show ?thesis by (simp add: s1)
  qed
qed

end

section \<open>Two leaders share a voter\<close>

lemma accepted_leaders_share_voter:
  assumes "BecomeFollower L C m req s = Some (True, s')" "BecomeFollower L2 C2 m2 req2 s2 = Some (True, s2')"
    and wf: "peers_wf (rt s m)" "peers_wf (rt s2 m2)" and same: "peer_ids (rt s2 m2) = peer_ids (rt s m)"
  shows "\<exists>p. p \<in> voters L s m req \<and> p \<in> voters L2 s2 m2 req2"
proof (rule ep.quorums_meet)
  show "voters L s m req \<subseteq> peer_ids (rt s m)" using wf(1) by (rule voters_peers)
  show "voters L2 s2 m2 req2 \<subseteq> peer_ids (rt s m)" using voters_peers [OF wf(2)] same by simp
  show "ExpectedPlayers (int (card (peer_ids (rt s m)))) \<le> int (card (voters L s m req))"
    using assms(1) by (cases rule: BecomeFollower_cases) (simp_all add: ExpectedHonestPeers_def card_peer_ids [OF wf(1)])
  show "ExpectedPlayers (int (card (peer_ids (rt s m)))) \<le> int (card (voters L2 s2 m2 req2))"
    using assms(2) by (cases rule: BecomeFollower_cases)
      (simp_all add: ExpectedHonestPeers_def card_peer_ids [OF wf(2)] flip: same)
qed simp

end
