(* ===== verification/Append.thy ===== *)
theory Append
  imports Vote
begin

text \<open>
  \<^verbatim>\<open>AppendEntries\<close> of \<^verbatim>\<open>server/group.go\<close>: the check of the sender, the transfer to a new leader, the verification of the
  hashes of the new entries, and the loop that appends and commits them.  The results of the signature
  checks are computed and not used, as in the code.
\<close>

lemma unat_succ: "i < (k :: u64) \<Longrightarrow> unat (i + 1) = Suc (unat i)"
  using unsigned_less [of k, where ?'a = nat] by (simp add: unat_word_ariths word_less_nat_alt)

section \<open>Definitions\<close>

datatype ae_error = HostOrGroupNotExisted | TermCompareFailed | VotesRejected | LeaderNotMatches
  | NoLeaderPublicKey | PrevLogTermMismatch | GroupNotOnboard

text \<open>The check of the leader and the transfer to a new one; no error lets the request pass.\<close>

definition check_leader ::
  "'db lib \<Rightarrow> clock \<Rightarrow> 'db BFTRaftServer \<Rightarrow> nat \<Rightarrow> AppendEntriesRequest \<Rightarrow> (ae_error option \<times> 'db BFTRaftServer) option" where
  "check_leader L C s m req =
     (if map_of (rtGroupPeers (rt s m)) (aeLeaderId req) = None then Some (Some HostOrGroupNotExisted, s)
      else if length (aeQuorumVotes req) > 0 \<and> aeLeaderId req \<noteq> rtLeader (rt s m)
      then (if aeTerm req < grpTerm (rtGroup (rt s m)) then Some (Some TermCompareFailed, s)
            else do {
              (ok, s) \<leftarrow> BecomeFollower L C m req s;
              Some (if ok then None else Some VotesRejected, s)
            })
      else if aeLeaderId req \<noteq> rtLeader (rt s m) then Some (Some LeaderNotMatches, s)
      else Some (None, s))"

text \<open>
  The loop that recomputes the hashes.  The bound \<open>nextLogIdx + len\<close> is computed in 64 bits, a nil command panics, and the
  result of \<^verbatim>\<open>VerifyCommandSign\<close> is dropped.
\<close>

function verify_loop ::
  "'db lib \<Rightarrow> LogEntry list \<Rightarrow> u64 \<Rightarrow> u64 \<Rightarrow> bytes \<Rightarrow> 'db BFTRaftServer \<Rightarrow> (bool \<times> 'db BFTRaftServer) option" where
  "verify_loop L entries nextLogIdx i expectedHash s =
     (if i < nextLogIdx + of_nat (length entries)
      then (let entry = entries ! unat (i - nextLogIdx) in
        case leCommand entry of
          None \<Rightarrow> None
        | Some cmd \<Rightarrow>
            (let expectedHash = LogHash expectedHash i (cmdFuncId cmd) (cmdArg cmd) in
             if leIndex entry \<noteq> i \<or> leHash entry \<noteq> expectedHash then Some (False, s)
             else (case VerifyCommandSign L s cmd of
                 None \<Rightarrow> None
               | Some (verified, s) \<Rightarrow> verify_loop L entries nextLogIdx (i + 1) expectedHash s)))
      else Some (True, s))"
  by pat_completeness auto
termination
  by (relation "measure (\<lambda>(L, entries, nextLogIdx, i, h, s). unat (nextLogIdx + of_nat (length entries)) - unat i)")
    (auto simp: unat_succ word_less_nat_alt)

declare verify_loop.simps [simp del]

text \<open>\<^verbatim>\<open>DB.Update\<close> around \<^verbatim>\<open>AppendEntryToLocal\<close>: the error of the append is dropped and the transaction committed.\<close>

definition append_local :: "'db lib \<Rightarrow> nat \<Rightarrow> LogEntry \<Rightarrow> 'db BFTRaftServer \<Rightarrow> 'db BFTRaftServer option" where
  "append_local L m entry s = do {
     r \<leftarrow> AppendEntryToLocal L (gid s m) (srvDB s) entry;
     Some (snd (updateDB L s (\<lambda>txn. case r of Inr txn' \<Rightarrow> (Inr txn' :: unit + _) | Inl err \<Rightarrow> Inr txn)))
   }"

text \<open>\<^verbatim>\<open>ClientRPCs.Get\<close> fails only when the connection cannot be dialled.\<close>

definition ClientRPCs_Get :: "'db lib \<Rightarrow> string \<Rightarrow> bool" where
  "ClientRPCs_Get L serverAddr = dialOK L serverAddr"

definition respond_client ::
  "'db lib \<Rightarrow> nat \<Rightarrow> LogEntry \<Rightarrow> CommandRequest \<Rightarrow> bytes \<Rightarrow> Host \<Rightarrow> 'db BFTRaftServer \<Rightarrow> 'db BFTRaftServer" where
  "respond_client L m entry cmd result client s =
     (if ClientRPCs_Get L (hostServerAddr client)
      then s\<lparr>srvOut := srvOut s @ [OutCommandResult (hostServerAddr client)
        \<lparr>resGroup = gid s m, resNodeId = srvId s, resRequestId = cmdRequestId cmd,
         resSignature = serverSign L s (CommandSignData (gid s m) (srvId s) (cmdRequestId cmd) result),
         resResult = result\<rparr>]\<rparr>
      else s)"

fun apply_entries ::
  "'db lib \<Rightarrow> int \<Rightarrow> nat \<Rightarrow> LogEntry list \<Rightarrow> AppendEntriesResponse \<Rightarrow> 'db BFTRaftServer \<Rightarrow>
   (AppendEntriesResponse \<times> 'db BFTRaftServer) option" where
  "apply_entries L now m [] response s = Some (response, s)"
| "apply_entries L now m (entry # entries) response s = do {
     s \<leftarrow> (if WaitLogApproved (leIndex entry) then append_local L m entry s else Some s);
     cmd \<leftarrow> leCommand entry;
     (result, s) \<leftarrow> CommitGroupLog L now entry s;
     case GetHostNTXN L s (cmdClientId cmd) of
       (Some client, s) \<Rightarrow>
         (let s = respond_client L m entry cmd result client s;
              response = response\<lparr>arTerm := leTerm entry, arIndex := leIndex entry, arHash := leHash entry,
                                  arSignature := serverSign L s (leHash entry)\<rparr>
          in apply_entries L now m entries response s)
     | (None, s) \<Rightarrow> apply_entries L now m entries response s
   }"

text \<open>What follows the refresh of the timer when the request has entries.\<close>

definition append_new ::
  "'db lib \<Rightarrow> int \<Rightarrow> nat \<Rightarrow> AppendEntriesRequest \<Rightarrow> AppendEntriesResponse \<Rightarrow> 'db BFTRaftServer \<Rightarrow>
   ((ae_error + AppendEntriesResponse) \<times> 'db BFTRaftServer) option" where
  "append_new L now m req response s =
     (let lastLogIdx = LastEntryIndex L (srvDB s) (gid s m); nextLogIdx = lastLogIdx + 1;
          lastLogTerm = (case LastLogEntry L (srvDB s) (gid s m) of None \<Rightarrow> 0 | Some lastLog \<Rightarrow> leTerm lastLog) in
      if aePrevLogIndex req = lastLogIdx \<and> leIndex (hd (aeEntries req)) = nextLogIdx
      then (if aePrevLogTerm req \<noteq> lastLogTerm then Some (Inl PrevLogTermMismatch, s)
            else do {
              (matched, s) \<leftarrow> verify_loop L (aeEntries req) nextLogIdx nextLogIdx (LastEntryHash L (srvDB s) (gid s m)) s;
              if \<not> matched then Some (Inr response, s)
              else do {
                (response, s) \<leftarrow> apply_entries L now m (aeEntries req) response s;
                Some (Inr (response\<lparr>arSuccessed := True\<rparr>), s)
              }
            })
      else Some (Inr response, s))"

definition AppendEntries ::
  "'db lib \<Rightarrow> clock \<Rightarrow> 'db BFTRaftServer \<Rightarrow> nat \<Rightarrow> AppendEntriesRequest \<Rightarrow>
   ((ae_error + AppendEntriesResponse) \<times> 'db BFTRaftServer) option" where
  "AppendEntries L C s m req =
     (let lastLogHash = LastEntryHash L (srvDB s) (gid s m);
          response = \<lparr>arGroup = gid s m, arTerm = grpTerm (rtGroup (rt s m)), arIndex = LastEntryIndex L (srvDB s) (gid s m),
                      arPeer = srvId s, arSuccessed = False, arConvinced = False, arHash = lastLogHash,
                      arSignature = serverSign L s lastLogHash\<rparr>
      in do {
        (err, s) \<leftarrow> check_leader L C s m req;
        case err of Some e \<Rightarrow> Some (Inl e, s)
        | None \<Rightarrow> do {
            let response = response\<lparr>arConvinced := True\<rparr>;
            (leaderPublicKey, s) \<leftarrow> GetHostPublicKey L s (rtLeader (rt s m));
            if leaderPublicKey = None then Some (Inl NoLeaderPublicKey, s)
            else (let s = set_rt m ((rt s m)\<lparr>rtTimeout := clkNow C + 10000\<rparr>) s in
              if aeEntries req \<noteq> [] then append_new L (clkNow C) m req response s
              else Some (Inr response, s))
          }
      })"

section \<open>The verification loop\<close>

text \<open>Consecutive indices from \<open>i\<close> on.\<close>

fun contiguous :: "u64 \<Rightarrow> LogEntry list \<Rightarrow> bool" where
  "contiguous i [] = True"
| "contiguous i (e # es) \<longleftrightarrow> leIndex e = i \<and> contiguous (i + 1) es"

text \<open>The loop as a recursion on the entries that remain.\<close>

fun verify_list :: "'db lib \<Rightarrow> LogEntry list \<Rightarrow> u64 \<Rightarrow> bytes \<Rightarrow> 'db BFTRaftServer \<Rightarrow> (bool \<times> 'db BFTRaftServer) option" where
  "verify_list L [] i h s = Some (True, s)"
| "verify_list L (e # es) i h s = (case leCommand e of
     None \<Rightarrow> None
   | Some c \<Rightarrow> if leIndex e \<noteq> i \<or> leHash e \<noteq> LogHash h i (cmdFuncId c) (cmdArg c) then Some (False, s)
       else (case VerifyCommandSign L s c of
           None \<Rightarrow> None
         | Some (verified, s) \<Rightarrow> verify_list L es (i + 1) (leHash e) s))"

lemma verify_loop_list:
  assumes "unat n + length es < 2 ^ 64" "k \<le> length es"
  shows "verify_loop L es n (n + of_nat k) h s = verify_list L (drop k es) (n + of_nat k) h s"
  using assms(2)
proof (induction "length es - k" arbitrary: k h s)
  case 0
  then show ?case by (simp add: verify_loop.simps)
next
  case (Suc d)
  then have k: "k < length es" by simp
  have u: "unat (n + of_nat j) = unat n + j" if "j \<le> length es" for j
    using assms(1) that by (simp add: unat_word_ariths unat_of_nat)
  have "n + of_nat k < n + of_nat (length es)" using k by (simp add: word_less_nat_alt u)
  moreover have "unat (n + of_nat k - n) = k" using assms(1) k by (simp add: unat_of_nat)
  moreover have "n + of_nat k + 1 = n + of_nat (Suc k)" by simp
  moreover have "drop k es = es ! k # drop (Suc k) es" using k by (simp add: Cons_nth_drop_Suc)
  moreover have "verify_loop L es n (n + of_nat (Suc k)) h' s' = verify_list L (drop (Suc k) es) (n + of_nat (Suc k)) h' s'" for h' s'
    using Suc.hyps(2) k by (intro Suc.hyps(1)) auto
  ultimately show ?case
    by (subst verify_loop.simps) (simp add: Let_def ac_simps split: option.split)
qed

lemma verify_list_spec:
  assumes "verify_list L es i h s = Some (b, s')"
  shows "caches_only s s'" and "b \<Longrightarrow> contiguous i es \<and> chained h es"
proof -
  have "caches_only s s' \<and> (b \<longrightarrow> contiguous i es \<and> chained h es)"
    using assms
  proof (induction es arbitrary: i h s)
    case (Cons e es)
    show ?case
    proof (cases "\<exists>c s1 v. leCommand e = Some c \<and> leIndex e = i \<and> leHash e = LogHash h i (cmdFuncId c) (cmdArg c) \<and>
        VerifyCommandSign L s c = Some (v, s1) \<and> verify_list L es (i + 1) (leHash e) s1 = Some (b, s')")
      case True
      then obtain c s1 v where c: "leCommand e = Some c" "leIndex e = i" "leHash e = LogHash h i (cmdFuncId c) (cmdArg c)"
        "VerifyCommandSign L s c = Some (v, s1)" and rest: "verify_list L es (i + 1) (leHash e) s1 = Some (b, s')" by blast
      have "caches_only s s1" using c(4) by (rule VerifyCommandSign_caches)
      with Cons.IH [OF rest] c show ?thesis by (auto intro: caches_only_trans)
    next
      case False
      with Cons.prems show ?thesis by (auto split: option.splits if_splits)
    qed
  qed auto
  then show "caches_only s s'" "b \<Longrightarrow> contiguous i es \<and> chained h es" by auto
qed

text \<open>No host that can be found has a public key the parser rejects.\<close>

definition keys_ok :: "'db lib \<Rightarrow> 'db BFTRaftServer \<Rightarrow> bool" where
  "keys_ok L s \<longleftrightarrow> (\<forall>n. GetHostPublicKey L s n \<noteq> None)"

lemma GetHostPublicKey_None:
  "GetHostPublicKey L s n = None \<longleftrightarrow> srvNodePublicKeys s (cacheKey n) = None \<and>
     (\<exists>node. fst (GetHostNTXN L s n) = Some node \<and> ParsePublicKey L (hostPublicKey node) = None)"
  by (cases "GetHostNTXN L s n") (auto simp: GetHostPublicKey_def bind_eq_None_conv split: option.splits)

lemma GetHostPublicKey_hosts:
  assumes "GetHostPublicKey L s n = Some (k, s')"
  shows "fst (GetHostNTXN L s' n') = fst (GetHostNTXN L s n')" and "srvNodePublicKeys s \<subseteq>\<^sub>m srvNodePublicKeys s'"
proof -
  obtain h s1 where h: "GetHostNTXN L s n = (h, s1)" by fastforce
  then have s1: "srvDB s1 = srvDB s" "srvNodePublicKeys s1 = srvNodePublicKeys s"
    by (auto simp: GetHostNTXN_def GetHost_def Let_def split: option.splits sum.splits)
  have "s' = s \<or> srvHosts s' = srvHosts s1 \<and> srvDB s' = srvDB s1 \<and> (srvNodePublicKeys s' = srvNodePublicKeys s1 \<or>
      srvNodePublicKeys s (cacheKey n) = None \<and> (\<exists>key. srvNodePublicKeys s' = (srvNodePublicKeys s1)(cacheKey n \<mapsto> key)))"
    using assms h by (auto simp: GetHostPublicKey_def bind_eq_Some_conv split: option.splits)
  then consider "s' = s" | "srvHosts s' = srvHosts s1" "srvDB s' = srvDB s1"
      "srvNodePublicKeys s \<subseteq>\<^sub>m srvNodePublicKeys s'"
    using s1 by (force simp: map_le_def dom_def)
  then have "fst (GetHostNTXN L s' n') = fst (GetHostNTXN L s n') \<and> srvNodePublicKeys s \<subseteq>\<^sub>m srvNodePublicKeys s'"
  proof cases
    case 2
    then have "fst (GetHost L s' (srvDB s') n') = fst (GetHost L s1 (srvDB s1) n')"
      by (auto simp: GetHost_def Let_def split: option.splits sum.splits)
    then show ?thesis using 2 h GetHost_stable [of L s n h s1 n'] by (simp add: GetHostNTXN_def)
  qed simp
  then show "fst (GetHostNTXN L s' n') = fst (GetHostNTXN L s n')" "srvNodePublicKeys s \<subseteq>\<^sub>m srvNodePublicKeys s'" by auto
qed

lemma keys_ok_GetHostPublicKey:
  assumes "keys_ok L s" "GetHostPublicKey L s n = Some (k, s')"
  shows "keys_ok L s'"
proof -
  note st = GetHostPublicKey_hosts [OF assms(2)]
  have "srvNodePublicKeys s x = None" if "srvNodePublicKeys s' x = None" for x
    using st(2) that by (metis domIff map_le_def)
  then show ?thesis using assms(1) unfolding keys_ok_def GetHostPublicKey_None st(1) by metis
qed

lemma keys_ok_VerifyCommandSign:
  assumes "keys_ok L s"
  obtains b s' where "VerifyCommandSign L s c = Some (b, s')" "keys_ok L s'"
proof -
  obtain k s' where k: "GetHostPublicKey L s (cmdClientId c) = Some (k, s')"
    using assms by (force simp: keys_ok_def)
  then have "keys_ok L s'" using assms keys_ok_GetHostPublicKey by blast
  with k show ?thesis using that by (cases k) (auto simp: VerifyCommandSign_def)
qed

lemma verify_list_accepts:
  assumes "contiguous i es" "chained h es" "keys_ok L s"
  shows "\<exists>s'. verify_list L es i h s = Some (True, s') \<and> keys_ok L s'"
  using assms
proof (induction es arbitrary: i h s)
  case (Cons e es)
  then obtain c where c: "leCommand e = Some c" "leHash e = LogHash h i (cmdFuncId c) (cmdArg c)"
    by (auto split: option.splits)
  obtain b s1 where v: "VerifyCommandSign L s c = Some (b, s1)" "keys_ok L s1"
    using keys_ok_VerifyCommandSign [OF Cons.prems(3)] by blast
  have "\<exists>s'. verify_list L es (i + 1) (leHash e) s1 = Some (True, s') \<and> keys_ok L s'"
    using Cons.prems v by (intro Cons.IH) auto
  then show ?case using Cons.prems c v by auto
qed simp

section \<open>Appending and committing\<close>

text \<open>The log of group \<open>g\<close> grows by \<open>es\<close> and every other log stays as it is.\<close>

definition log_extends :: "'db lib \<Rightarrow> u64 \<Rightarrow> 'db \<Rightarrow> 'db \<Rightarrow> LogEntry list \<Rightarrow> bool" where
  "log_extends L g db db' es \<longleftrightarrow> log_ok L db' g \<and> group_log L db' g = group_log L db g @ es \<and>
     (\<forall>g'. g' \<noteq> g \<longrightarrow> group_log L db' g' = group_log L db g' \<and> (log_ok L db' g' \<longleftrightarrow> log_ok L db g'))"

text \<open>Writes, commits and the encoding of entries succeed.\<close>

definition no_io_errors :: "'db lib \<Rightarrow> bool" where
  "no_io_errors L \<longleftrightarrow> (\<forall>db k v. \<exists>db'. txnSet L db k v = Inr db') \<and> (\<forall>db. \<exists>db'. txnCommit L db = Inr db') \<and>
     (\<forall>e. marshalLogEntry L e \<noteq> None)"

definition log_below :: "'db lib \<Rightarrow> 'db \<Rightarrow> u64 \<Rightarrow> u64 \<Rightarrow> bool" where
  "log_below L db g i \<longleftrightarrow> (\<forall>e \<in> set (group_log L db g). leIndex e < i)"

lemma log_extendsD:
  assumes "log_extends L g db db' es"
  shows "log_ok L db' g" "group_log L db' g = group_log L db g @ es"
  using assms by (simp_all add: log_extends_def)

lemma log_extends_trans:
  "log_extends L g a b xs \<Longrightarrow> log_extends L g b c ys \<Longrightarrow> log_extends L g a c (xs @ ys)"
  by (auto simp: log_extends_def)

lemma respond_client_sel [simp]:
  "srvDB (respond_client L m e c r h s) = srvDB s" "srvRTGroups (respond_client L m e c r h s) = srvRTGroups s"
  "gid (respond_client L m e c r h s) = gid s" "srvFuncReg (respond_client L m e c r h s) = srvFuncReg s"
  by (auto simp: respond_client_def gid_def rt_def)

lemma append_local_only_DB: "append_local L m e s = Some s' \<Longrightarrow> s' = s\<lparr>srvDB := srvDB s'\<rparr>"
  unfolding append_local_def bind_eq_Some_conv using updateDB_only_DB [OF surjective_pairing] by fastforce

context libraries
begin

lemma log_extends_logs_eq: "log_ok L db g \<Longrightarrow> logs_eq L db db' \<Longrightarrow> log_extends L g db db' []"
  by (simp add: log_extends_def logs_eq_logs)

lemma logs_eq_extends:
  "log_ok L db g \<Longrightarrow> logs_eq L db db' \<Longrightarrow> \<exists>new. subseq new es \<and> log_extends L g db db' new \<and> chained h new"
  by (intro exI [of _ "[]"]) (simp add: log_extends_logs_eq)

lemma append_local_log:
  assumes a: "append_local L m e s = Some s'" and ok: "log_ok L (srvDB s) (gid s m)"
    and below: "log_below L (srvDB s) (gid s m) (leIndex e)"
  shows "\<exists>es. (es = [] \<or> es = [e]) \<and> log_extends L (gid s m) (srvDB s) (srvDB s') es \<and>
      chained (last_hash (genesisHash (gid s m)) (group_log L (srvDB s) (gid s m))) es"
proof -
  let ?g = "gid s m"
  obtain r where r: "AppendEntryToLocal L ?g (srvDB s) e = Some r"
    and s': "s' = snd (updateDB L s (\<lambda>txn. case r of Inr txn' \<Rightarrow> (Inr txn' :: unit + _) | Inl err \<Rightarrow> Inr txn))"
    using a by (auto simp: append_local_def bind_eq_Some_conv)
  obtain u where u: "updateDB L s (\<lambda>txn. case r of Inr txn' \<Rightarrow> (Inr txn' :: unit + _) | Inl err \<Rightarrow> Inr txn) = (u, s')"
    using s' by (metis prod.collapse)
  have same: "log_extends L ?g (srvDB s) db []" if "kv L db = kv L (srvDB s)" for db
    using that ok by (intro log_extends_logs_eq) (simp_all add: logs_eq_def)
  from u show ?thesis
  proof (cases rule: updateDB_cases)
    case (failed err)
    then have "log_extends L ?g (srvDB s) (srvDB s') []" by (simp add: same)
    then show ?thesis by (intro exI [of _ "[]"]) simp
  next
    case (committed db)
    show ?thesis
    proof (cases r)
      case (Inl err)
      with committed have "kv L (srvDB s') = kv L (srvDB s)" by simp
      then have "log_extends L ?g (srvDB s) (srvDB s') []" by (rule same)
      then show ?thesis by (intro exI [of _ "[]"]) simp
    next
      case (Inr db1)
      with r have app: "AppendEntryToLocal L ?g (srvDB s) e = Some (Inr db1)" by simp
      have db: "kv L (srvDB s') = kv L db1" using Inr committed by simp
      from app show ?thesis
      proof (cases rule: AppendEntryToLocal_cases)
        case dropped
        with db have "log_extends L ?g (srvDB s) (srvDB s') []" by (simp add: same)
        then show ?thesis by (intro exI [of _ "[]"]) simp
      next
        case (stored c data)
        have new: "leIndex e' < leIndex e" if "e' \<in> set (group_log L (srvDB s) ?g)" for e'
          using below that by (simp add: log_below_def)
        note ins = group_log_insert [OF ok new stored(3) stored(1,2) stored(6) [folded db]]
        have "group_log L (srvDB s') g' = group_log L (srvDB s) g' \<and> (log_ok L (srvDB s') g' \<longleftrightarrow> log_ok L (srvDB s) g')"
          if "g' \<noteq> ?g" for g'
          using that by (auto intro!: log_frame simp: db stored(6))
        then have "log_extends L ?g (srvDB s) (srvDB s') [e]" using ins by (simp add: log_extends_def)
        moreover have "chained (last_hash (genesisHash ?g) (group_log L (srvDB s) ?g)) [e]"
          using stored(1,4) by (simp add: LastEntryHash_log [OF ok])
        ultimately show ?thesis by blast
      qed
    qed
  qed
qed

lemma append_local_accepts:
  assumes io: "no_io_errors L" and ok: "log_ok L (srvDB s) (gid s m)"
    and below: "log_below L (srvDB s) (gid s m) (leIndex e)"
    and c: "leCommand e = Some c" "cmdGroup c = gid s m"
    and h: "chained (last_hash (genesisHash (gid s m)) (group_log L (srvDB s) (gid s m))) [e]"
  shows "\<exists>s'. append_local L m e s = Some s' \<and> log_extends L (gid s m) (srvDB s) (srvDB s') [e]"
proof -
  let ?g = "gid s m"
  obtain data where data: "marshalLogEntry L e = Some data" using io unfolding no_io_errors_def by blast
  obtain db1 where db1: "txnSet L (srvDB s) (LogEntryKey ?g (leIndex e)) data = Inr db1"
    using io unfolding no_io_errors_def by blast
  obtain db2 where db2: "txnCommit L db1 = Inr db2" using io unfolding no_io_errors_def by blast
  have new: "leIndex e' < leIndex e" if "e' \<in> set (group_log L (srvDB s) ?g)" for e'
    using below that by (simp add: log_below_def)
  note ref = AppendEntryToLocal_refines [OF ok new c data db1]
  have "append_local L m e s = Some (s\<lparr>srvDB := db2\<rparr>)"
    using ref(1) h c db2 by (simp add: append_local_def updateDB_def)
  moreover have "log_extends L ?g (srvDB s) db2 [e]"
  proof -
    have kv: "kv L db2 = (kv L (srvDB s))(LogEntryKey ?g (leIndex e) \<mapsto> data)"
      using commit [OF db2] set [OF db1] by simp
    have "group_log L db2 g' = group_log L (srvDB s) g' \<and> (log_ok L db2 g' \<longleftrightarrow> log_ok L (srvDB s) g')"
      if "g' \<noteq> ?g" for g'
      using that by (auto intro!: log_frame simp: kv)
    then show ?thesis using group_log_insert [OF ok new data c kv] by (simp add: log_extends_def)
  qed
  ultimately show ?thesis by simp
qed

lemma log_extends_chain:
  assumes "log_extends L g a b xs" "chained (last_hash h (group_log L a g)) xs"
    and "log_extends L g b c ys" "chained (last_hash h (group_log L b g)) ys"
  shows "log_extends L g a c (xs @ ys) \<and> chained (last_hash h (group_log L a g)) (xs @ ys)"
proof -
  have "last_hash (last_hash h us) vs = last_hash h (us @ vs)" for us vs by (auto simp: last_hash_def)
  then show ?thesis using assms log_extends_trans [OF assms(1,3)] by (simp add: chained_append log_extends_def)
qed

text \<open>One round of the loop: the append, then steps that leave every log alone.\<close>

lemma apply_entries_step:
  assumes "apply_entries L now m (e # es) resp s = Some (r, s')" "m < length (srvRTGroups s)"
  obtains s1 s2 resp2 where "append_local L m e s = Some s1" "logs_eq L (srvDB s1) (srvDB s2)"
    "gid s2 m = gid s m" "m < length (srvRTGroups s2)" "apply_entries L now m es resp2 s2 = Some (r, s')"
proof -
  obtain s1 cmd res s2 where 1: "append_local L m e s = Some s1" "leCommand e = Some cmd"
    "CommitGroupLog L now e s1 = Some (res, s2)"
    using assms(1) by (auto simp: bind_eq_Some_conv WaitLogApproved_def)
  obtain h s3 where h: "GetHostNTXN L s2 (cmdClientId cmd) = (h, s3)" by fastforce
  obtain db1 where "s1 = s\<lparr>srvDB := db1\<rparr>" using append_local_only_DB [OF 1(1)] by blast
  then have s1: "srvRTGroups s1 = srvRTGroups s" "gid s1 m = gid s m" by (simp_all add: gid_def rt_def)
  have f: "sm_frame L s1 s2" using 1(3) by (rule CommitGroupLog_frame)
  note c = caches_only_sel [OF GetHostNTXN_caches [OF h]]
  have 3: "logs_eq L (srvDB s1) (srvDB s3)" "gid s3 m = gid s m" "m < length (srvRTGroups s3)"
    using f c s1 assms(2) sm_frame_gid [OF f] by (auto simp: sm_frame_def)
  show ?thesis
  proof (cases h)
    case None
    with assms(1) 1 h have "apply_entries L now m es resp s3 = Some (r, s')"
      by (auto simp: WaitLogApproved_def)
    with 1 3 that show ?thesis by blast
  next
    case (Some client)
    let ?s = "respond_client L m e cmd res client s3"
    obtain resp2 where "apply_entries L now m es resp2 ?s = Some (r, s')"
      using Some assms(1) 1 h by (auto simp: WaitLogApproved_def Let_def)
    then show ?thesis using 1 3 by (intro that [of s1 ?s resp2]) auto
  qed
qed

lemma apply_entries_log:
  assumes "apply_entries L now m es resp s = Some (r, s')" "m < length (srvRTGroups s)"
    and "log_ok L (srvDB s) (gid s m)" "log_below L (srvDB s) (gid s m) i" "contiguous i es" "unat i + length es < 2 ^ 64"
  shows "\<exists>new. subseq new es \<and> log_extends L (gid s m) (srvDB s) (srvDB s') new \<and>
      chained (last_hash (genesisHash (gid s m)) (group_log L (srvDB s) (gid s m))) new"
  using assms
proof (induction es arbitrary: i resp s)
  case Nil
  then show ?case by (auto simp: log_extends_def intro!: exI [of _ "[]"])
next
  case (Cons e es)
  let ?g = "gid s m" and ?h = "genesisHash (gid s m)"
  obtain s1 s2 resp2 where st: "append_local L m e s = Some s1" "logs_eq L (srvDB s1) (srvDB s2)"
    "gid s2 m = ?g" "m < length (srvRTGroups s2)" "apply_entries L now m es resp2 s2 = Some (r, s')"
    using apply_entries_step [OF Cons.prems(1,2)] by blast
  obtain new1 where new1: "new1 = [] \<or> new1 = [e]" "log_extends L ?g (srvDB s) (srvDB s1) new1"
      "chained (last_hash ?h (group_log L (srvDB s) ?g)) new1"
    using append_local_log [OF st(1) Cons.prems(3)] Cons.prems(4,5) by auto
  have e1: "log_extends L ?g (srvDB s) (srvDB s2) new1"
    using log_extends_trans [OF new1(2) log_extends_logs_eq [OF _ st(2)]] new1(2) by (simp add: log_extends_def)
  have i: "i < i + 1" using Cons.prems(6) by (simp add: word_less_nat_alt unat_word_ariths)
  have "log_below L (srvDB s2) ?g (i + 1)"
    using e1 Cons.prems(4,5) new1(1) i by (auto simp: log_below_def log_extends_def)
  moreover have "unat (i + 1) + length es < 2 ^ 64" using Cons.prems(6) by (simp add: unat_word_ariths)
  ultimately obtain new2 where new2: "subseq new2 es" "log_extends L ?g (srvDB s2) (srvDB s') new2"
      "chained (last_hash ?h (group_log L (srvDB s2) ?g)) new2"
    using Cons.IH [OF st(5,4), of "i + 1"] log_extendsD(1) [OF e1] Cons.prems(5) unfolding st(3) by auto
  have "subseq (new1 @ new2) (e # es)" using new1(1) new2(1) by auto
  then show ?case using log_extends_chain [OF e1 new1(3) new2(2,3)] by blast
qed

end

text \<open>
  Commands the follower can commit without a panic: a function is registered, and it is not \<^verbatim>\<open>SMNodeJoin\<close>, which panics
  for an unknown group.
\<close>

definition committable :: "(u64 \<rightharpoonup> raft_func) \<Rightarrow> u64 \<Rightarrow> LogEntry \<Rightarrow> bool" where
  "committable reg g e \<longleftrightarrow> (\<exists>c fn. leCommand e = Some c \<and> cmdGroup c = g \<and> reg (cmdFuncId c) = Some fn \<and> fn \<noteq> FnNodeJoin)"

context libraries
begin

lemma CommitGroupLog_returns:
  assumes "committable (srvFuncReg s) g e"
  shows "\<exists>r s'. CommitGroupLog L now e s = Some (r, s')"
proof -
  obtain c fn where c: "leCommand e = Some c" "srvFuncReg s (cmdFuncId c) = Some fn" "fn \<noteq> FnNodeJoin"
    using assms by (auto simp: committable_def)
  have "\<exists>r s'. SMRegHost L arg e s = Some (r, s')" "\<exists>r s'. SMNewClient L arg e s = Some (r, s')" for arg
    by (auto simp: SMRegHost_def SMNewClient_def Let_def split: prod.splits bool.splits)
  moreover have "\<exists>r s'. SMNewGroup L now arg e s = Some (r, s')" for arg
    using c(1) by (auto simp: SMNewGroup_def Let_def split: prod.splits bool.splits option.splits)
  ultimately show ?thesis using c by (cases fn) (auto simp: CommitGroupLog_def runRaftFunc_def)
qed

lemma apply_entries_accepts:
  assumes "no_io_errors L" "m < length (srvRTGroups s)" "log_ok L (srvDB s) (gid s m)"
    and "log_below L (srvDB s) (gid s m) i" "contiguous i es" "unat i + length es < 2 ^ 64"
    and "chained (last_hash (genesisHash (gid s m)) (group_log L (srvDB s) (gid s m))) es"
    and "\<And>e. e \<in> set es \<Longrightarrow> committable (srvFuncReg s) (gid s m) e"
  shows "\<exists>r s'. apply_entries L now m es resp s = Some (r, s') \<and> log_extends L (gid s m) (srvDB s) (srvDB s') es"
  using assms
proof (induction es arbitrary: i resp s)
  case Nil
  then show ?case by (auto simp: log_extends_def)
next
  case (Cons e es)
  let ?g = "gid s m" and ?h = "genesisHash (gid s m)"
  obtain c where c: "leCommand e = Some c" "cmdGroup c = ?g"
    using Cons.prems(8) [of e] by (auto simp: committable_def)
  have "chained (last_hash ?h (group_log L (srvDB s) ?g)) [e]" using Cons.prems(7) c by simp
  then obtain s1 where s1: "append_local L m e s = Some s1" "log_extends L ?g (srvDB s) (srvDB s1) [e]"
    using append_local_accepts [OF Cons.prems(1,3) _ c] Cons.prems(4,5) by auto
  obtain db1 where db1: "s1 = s\<lparr>srvDB := db1\<rparr>" using append_local_only_DB [OF s1(1)] by blast
  then have f1: "gid s1 m = ?g" "srvFuncReg s1 = srvFuncReg s" "srvRTGroups s1 = srvRTGroups s"
    by (simp_all add: gid_def rt_def)
  obtain res s2 where s2: "CommitGroupLog L now e s1 = Some (res, s2)"
    using CommitGroupLog_returns [of s1 ?g e now] Cons.prems(8) [of e] f1 by auto
  note f2 = CommitGroupLog_frame [OF s2]
  obtain h s3 where h: "GetHostNTXN L s2 (cmdClientId c) = (h, s3)" by fastforce
  note f3 = caches_only_sel [OF GetHostNTXN_caches [OF h]]
  define s4 where "s4 = (case h of None \<Rightarrow> s3 | Some client \<Rightarrow> respond_client L m e c res client s3)"
  have s4: "srvDB s4 = srvDB s2" "gid s4 m = ?g" "srvFuncReg s4 = srvFuncReg s" "m < length (srvRTGroups s4)"
    using f1 f2 f3 Cons.prems(2) sm_frame_gid [OF f2] by (auto simp: s4_def sm_frame_def split: option.split)
  have e1: "log_extends L ?g (srvDB s) (srvDB s4) [e]"
    using log_extends_trans [OF s1(2) log_extends_logs_eq [of _ _ "srvDB s4"]] f2 log_extendsD(1) [OF s1(2)] s4(1)
    by (simp add: sm_frame_def)
  obtain resp4 where step: "apply_entries L now m (e # es) resp s = apply_entries L now m es resp4 s4"
    using s1(1) c s2 h by (cases h) (auto simp: WaitLogApproved_def Let_def s4_def)
  have i: "i < i + 1" using Cons.prems(6) by (simp add: word_less_nat_alt unat_word_ariths)
  have "log_below L (srvDB s4) ?g (i + 1)"
    using e1 Cons.prems(4,5) i by (auto simp: log_below_def log_extends_def)
  moreover have "unat (i + 1) + length es < 2 ^ 64" using Cons.prems(6) by (simp add: unat_word_ariths)
  moreover have "chained (last_hash ?h (group_log L (srvDB s4) ?g)) es"
    using Cons.prems(7) log_extendsD(2) [OF e1] by (simp add: last_hash_def)
  ultimately obtain r s' where "apply_entries L now m es resp4 s4 = Some (r, s')" "log_extends L ?g (srvDB s4) (srvDB s') es"
    using Cons.IH [of s4 "i + 1" resp4] Cons.prems(1,5,8) s4 log_extendsD(1) [OF e1] by auto
  then show ?case using step log_extends_trans [OF e1] by auto
qed

section \<open>The whole handler\<close>

lemma check_leader_frame:
  assumes "check_leader L C s m req = Some (err, s')" "m < length (srvRTGroups s)"
  shows "logs_eq L (srvDB s) (srvDB s')" "gid s' m = gid s m" "m < length (srvRTGroups s')"
proof -
  have "s' = s \<or> (\<exists>b. BecomeFollower L C m req s = Some (b, s'))"
    using assms(1) by (auto simp: check_leader_def bind_eq_Some_conv split: if_splits)
  moreover have "gid s' m = gid s m \<and> m < length (srvRTGroups s')" if "BecomeFollower L C m req s = Some (b, s')" for b
    using that
  proof (cases rule: BecomeFollower_cases)
    case refused
    then show ?thesis using assms(2) by (simp add: caches_only_sel)
  next
    case (followed s1)
    then show ?thesis using assms(2) by (simp add: gid_def follow_def)
  qed
  ultimately show "logs_eq L (srvDB s) (srvDB s')" "gid s' m = gid s m" "m < length (srvRTGroups s')"
    using BecomeFollower_logs assms(2) by blast+
qed

lemma log_below_next:
  assumes "log_ok L db g" "unat (LastEntryIndex L db g) + 1 < 2 ^ 64"
  shows "log_below L db g (LastEntryIndex L db g + 1)"
proof (cases "group_log L db g" rule: rev_cases)
  case (snoc es e)
  have "sorted_wrt (<) (map leIndex (es @ [e]))" using sorted_group_log [OF assms(1)] snoc by simp
  then have "\<forall>e' \<in> set (group_log L db g). leIndex e' \<le> leIndex e" using snoc by (auto simp: sorted_wrt_append)
  moreover have "LastEntryIndex L db g = leIndex e" using snoc by (simp add: LastEntryIndex_log [OF assms(1)])
  moreover have "i < i + 1" if "unat i + 1 < 2 ^ 64" for i :: u64
    using that by (simp add: word_less_nat_alt unat_word_ariths)
  ultimately show ?thesis using assms(2) by (force simp: log_below_def)
qed (simp add: log_below_def)

lemma append_new_log:
  assumes a: "append_new L now m req resp s = Some (r, s')" and m: "m < length (srvRTGroups s)"
    and ok: "log_ok L (srvDB s) (gid s m)"
    and small: "unat (LastEntryIndex L (srvDB s) (gid s m)) + length (aeEntries req) + 1 < 2 ^ 64"
  shows "\<exists>new. subseq new (aeEntries req) \<and> log_extends L (gid s m) (srvDB s) (srvDB s') new \<and>
      chained (last_hash (genesisHash (gid s m)) (group_log L (srvDB s) (gid s m))) new"
proof -
  let ?last = "LastEntryIndex L (srvDB s) (gid s m)" and ?h = "LastEntryHash L (srvDB s) (gid s m)"
  let ?es = "aeEntries req"
  have n: "unat (?last + 1) = unat ?last + 1" using small by (simp add: unat_word_ariths)
  have loop: "verify_loop L ?es (?last + 1) (?last + 1) ?h s = verify_list L ?es (?last + 1) ?h s"
    using verify_loop_list [of "?last + 1" ?es 0 L ?h s] small n by simp
  show ?thesis
  proof (cases "\<exists>s1. verify_list L ?es (?last + 1) ?h s = Some (True, s1) \<and> (\<exists>resp'. apply_entries L now m ?es resp s1 = Some (resp', s'))")
    case True
    then obtain s1 resp' where v: "verify_list L ?es (?last + 1) ?h s = Some (True, s1)"
      and ap: "apply_entries L now m ?es resp s1 = Some (resp', s')" by blast
    note f = caches_only_sel [OF verify_list_spec(1) [OF v]]
    have "contiguous (?last + 1) ?es" using verify_list_spec(2) [OF v] by simp
    moreover have "log_below L (srvDB s) (gid s m) (?last + 1)" using log_below_next [OF ok] small by simp
    ultimately show ?thesis
      using apply_entries_log [OF ap, of "?last + 1"] m ok small n by (simp add: f)
  next
    case False
    with a have "s' = s \<or> (\<exists>b. verify_list L ?es (?last + 1) ?h s = Some (b, s'))"
      by (auto simp: append_new_def Let_def loop bind_eq_Some_conv split: if_splits)
    then have "logs_eq L (srvDB s) (srvDB s')" using verify_list_spec(1) caches_only_sel(1) logs_eq_refl by metis
    then show ?thesis by (rule logs_eq_extends [OF ok])
  qed
qed

lemma AppendEntries_log:
  assumes a: "AppendEntries L C s m req = Some (r, s')" and m: "m < length (srvRTGroups s)"
    and ok: "log_ok L (srvDB s) (gid s m)"
    and small: "unat (LastEntryIndex L (srvDB s) (gid s m)) + length (aeEntries req) + 1 < 2 ^ 64"
  shows "\<exists>new. subseq new (aeEntries req) \<and> log_extends L (gid s m) (srvDB s) (srvDB s') new \<and>
      chained (last_hash (genesisHash (gid s m)) (group_log L (srvDB s) (gid s m))) new"
proof -
  obtain err s1 where c: "check_leader L C s m req = Some (err, s1)"
    using a by (auto simp: AppendEntries_def Let_def bind_eq_Some_conv)
  note f1 = check_leader_frame [OF c m]
  note g1 = logs_eq_logs [OF f1(1)]
  show ?thesis
  proof (cases "err = None")
    case False
    with a c have "s' = s1" by (auto simp: AppendEntries_def Let_def)
    with f1 show ?thesis by (intro logs_eq_extends [OF ok]) simp
  next
    case True
    then obtain k s2 where k: "GetHostPublicKey L s1 (rtLeader (rt s1 m)) = Some (k, s2)"
      using a c by (auto simp: AppendEntries_def Let_def bind_eq_Some_conv)
    note f2 = caches_only_sel [OF GetHostPublicKey_caches [OF k]]
    let ?s3 = "set_rt m ((rt s2 m)\<lparr>rtTimeout := clkNow C + 10000\<rparr>) s2"
    have m3: "m < length (srvRTGroups ?s3)" using f1(3) by (simp add: f2)
    have f3: "srvDB ?s3 = srvDB s1" "gid ?s3 m = gid s m" using f1 m3 by (simp_all add: f2 gid_def)
    have last: "LastEntryIndex L (srvDB s1) (gid s m) = LastEntryIndex L (srvDB s) (gid s m)"
      using ok by (simp add: LastEntryIndex_log g1)
    show ?thesis
    proof (cases "\<exists>resp. append_new L (clkNow C) m req resp ?s3 = Some (r, s')")
      case True
      then obtain resp where "append_new L (clkNow C) m req resp ?s3 = Some (r, s')" by blast
      from append_new_log [OF this m3] obtain new where new: "subseq new (aeEntries req)"
        "log_extends L (gid s m) (srvDB s1) (srvDB s') new"
        "chained (last_hash (genesisHash (gid s m)) (group_log L (srvDB s1) (gid s m))) new"
        using ok small by (auto simp: f3(2) f2(1) last g1)
      have "log_extends L (gid s m) (srvDB s) (srvDB s') new"
        using log_extends_trans [OF log_extends_logs_eq [OF ok f1(1)] new(2)] by simp
      then show ?thesis using new by (auto simp: g1)
    next
      case no_append: False
      with True a c k have "s' = s2 \<or> s' = ?s3"
        by (auto simp: AppendEntries_def Let_def split: if_splits)
      then have "srvDB s' = srvDB s1" by (auto simp: f2)
      with f1(1) show ?thesis by (intro logs_eq_extends [OF ok]) simp
    qed
  qed
qed

lemma append_new_accepts:
  assumes io: "no_io_errors L" and m: "m < length (srvRTGroups s)" and ok: "log_ok L (srvDB s) (gid s m)" and keys: "keys_ok L s"
    and small: "unat (LastEntryIndex L (srvDB s) (gid s m)) + length (aeEntries req) + 1 < 2 ^ 64"
    and prev: "aePrevLogIndex req = LastEntryIndex L (srvDB s) (gid s m)"
      "aePrevLogTerm req = (case LastLogEntry L (srvDB s) (gid s m) of None \<Rightarrow> 0 | Some e \<Rightarrow> leTerm e)"
    and es: "aeEntries req \<noteq> []" "contiguous (LastEntryIndex L (srvDB s) (gid s m) + 1) (aeEntries req)"
      "chained (last_hash (genesisHash (gid s m)) (group_log L (srvDB s) (gid s m))) (aeEntries req)"
    and cs: "\<And>e. e \<in> set (aeEntries req) \<Longrightarrow> committable (srvFuncReg s) (gid s m) e"
  shows "\<exists>resp' s'. append_new L now m req resp s = Some (Inr resp', s') \<and> arSuccessed resp' \<and>
      log_extends L (gid s m) (srvDB s) (srvDB s') (aeEntries req)"
proof -
  let ?last = "LastEntryIndex L (srvDB s) (gid s m)" and ?h = "LastEntryHash L (srvDB s) (gid s m)" and ?es = "aeEntries req"
  have n: "unat (?last + 1) = unat ?last + 1" using small by (simp add: unat_word_ariths)
  have loop: "verify_loop L ?es (?last + 1) (?last + 1) ?h s = verify_list L ?es (?last + 1) ?h s"
    using verify_loop_list [of "?last + 1" ?es 0 L ?h s] small n by simp
  obtain s1 where v: "verify_list L ?es (?last + 1) ?h s = Some (True, s1)"
    using verify_list_accepts [OF es(2) _ keys] es(3) by (auto simp: LastEntryHash_log [OF ok])
  note f = caches_only_sel [OF verify_list_spec(1) [OF v]]
  have "log_below L (srvDB s) (gid s m) (?last + 1)" using log_below_next [OF ok] small by simp
  then have "\<exists>r s'. apply_entries L now m ?es resp s1 = Some (r, s') \<and> log_extends L (gid s m) (srvDB s) (srvDB s') ?es"
    using apply_entries_accepts [OF io, of m s1 "?last + 1" ?es now resp] m ok es cs small n by (simp add: f)
  then obtain r s' where "apply_entries L now m ?es resp s1 = Some (r, s')" "log_extends L (gid s m) (srvDB s) (srvDB s') ?es"
    by blast
  moreover have "leIndex (hd ?es) = ?last + 1" using es(1,2) by (cases ?es) auto
  ultimately show ?thesis using prev v loop by (auto simp: append_new_def Let_def)
qed

lemma AppendEntries_accepts:
  assumes io: "no_io_errors L" and m: "m < length (srvRTGroups s)" and ok: "log_ok L (srvDB s) (gid s m)" and keys: "keys_ok L s"
    and leader: "map_of (rtGroupPeers (rt s m)) (aeLeaderId req) \<noteq> None" "aeLeaderId req = rtLeader (rt s m)"
      "pubkey L s (rtLeader (rt s m)) \<noteq> None"
    and small: "unat (LastEntryIndex L (srvDB s) (gid s m)) + length (aeEntries req) + 1 < 2 ^ 64"
    and prev: "aePrevLogIndex req = LastEntryIndex L (srvDB s) (gid s m)"
      "aePrevLogTerm req = (case LastLogEntry L (srvDB s) (gid s m) of None \<Rightarrow> 0 | Some e \<Rightarrow> leTerm e)"
    and es: "aeEntries req \<noteq> []" "contiguous (LastEntryIndex L (srvDB s) (gid s m) + 1) (aeEntries req)"
      "chained (last_hash (genesisHash (gid s m)) (group_log L (srvDB s) (gid s m))) (aeEntries req)"
    and cs: "\<And>e. e \<in> set (aeEntries req) \<Longrightarrow> committable (srvFuncReg s) (gid s m) e"
  shows "\<exists>resp s'. AppendEntries L C s m req = Some (Inr resp, s') \<and> arSuccessed resp \<and>
      log_extends L (gid s m) (srvDB s) (srvDB s') (aeEntries req)"
proof -
  have c: "check_leader L C s m req = Some (None, s)" using leader by (simp add: check_leader_def)
  obtain k s1 where k: "GetHostPublicKey L s (rtLeader (rt s m)) = Some (Some k, s1)"
    using keys leader(3) by (force simp: keys_ok_def pubkey_def split: option.splits)
  note f = caches_only_sel [OF GetHostPublicKey_caches [OF k]]
  let ?s2 = "set_rt m ((rt s1 m)\<lparr>rtTimeout := clkNow C + 10000\<rparr>) s1"
  have "keys_ok L ?s2"
  proof -
    have "keys_ok L s1" using keys k by (rule keys_ok_GetHostPublicKey)
    moreover have "fst (GetHostNTXN L ?s2 n) = fst (GetHostNTXN L s1 n)" for n
      by (auto simp: GetHostNTXN_def GetHost_def Let_def split: option.split sum.split)
    ultimately show ?thesis by (simp add: keys_ok_def GetHostPublicKey_None)
  qed
  moreover have "srvDB ?s2 = srvDB s" "gid ?s2 m = gid s m" "srvFuncReg ?s2 = srvFuncReg s" "m < length (srvRTGroups ?s2)"
    using m by (simp_all add: f gid_def)
  ultimately have "\<exists>resp' s'. append_new L (clkNow C) m req resp ?s2 = Some (Inr resp', s') \<and> arSuccessed resp' \<and>
      log_extends L (gid s m) (srvDB s) (srvDB s') (aeEntries req)" for resp
    using append_new_accepts [OF io, of m ?s2 req "clkNow C" resp] assms by (simp del: set_rt_sel)
  then show ?thesis using c k es(1) by (simp add: AppendEntries_def Let_def)
qed

end

end
