(* ===== verification/Heartbeat.thy ===== *)
theory Heartbeat
  imports Append
begin

text \<open>
  \<^verbatim>\<open>SendFollowersHeartbeat\<close> of \<^verbatim>\<open>server/group.go\<close>: the leader sends every other peer the entries it has not acknowledged
  and updates the peer's indices from the answers.  The network is a function \<open>net\<close> from the messages sent to the
  answers in the order the channel \<^verbatim>\<open>completion\<close> delivers them (\<open>None\<close> for a call that failed); with fewer answers than
  messages the leader waits for ever, which is a result \<open>None\<close> of the whole, as a panic is.
\<close>

section \<open>Definitions\<close>

type_synonym ae_net = "(string \<times> AppendEntriesRequest) list \<Rightarrow> AppendEntriesResponse option list"

definition heartbeat_request :: "'db lib \<Rightarrow> nat \<Rightarrow> LogEntry list \<Rightarrow> LogEntry \<Rightarrow> 'db BFTRaftServer \<Rightarrow> AppendEntriesRequest" where
  "heartbeat_request L m entries prevEntry s =
     (let r = rt s m; grp = rtGroup r;
          votes = (if rtSendVotesForPeers r (srvId s) = Some True then rtVotes r else []);
          signData = AppendLogEntrySignData (grpId grp) (grpTerm grp) (leIndex prevEntry) (leTerm prevEntry)
      in \<lparr>aeGroup = grpId grp, aeTerm = grpTerm grp, aeLeaderId = srvId s, aePrevLogIndex = leIndex prevEntry,
          aePrevLogTerm = leTerm prevEntry, aeSignature = serverSign L s signData, aeQuorumVotes = votes,
          aeEntries = entries\<rparr>)"

text \<open>The loop over the peers; the flag is false when an unknown host makes the function return.\<close>

fun send_loop ::
  "'db lib \<Rightarrow> nat \<Rightarrow> (u64 \<times> Peer) list \<Rightarrow> (string \<times> AppendEntriesRequest) list \<Rightarrow> 'db BFTRaftServer \<Rightarrow>
   (string \<times> AppendEntriesRequest) list \<times> bool \<times> 'db BFTRaftServer" where
  "send_loop L m [] sent s = (sent, True, s)"
| "send_loop L m ((pid, peer) # peers) sent s =
     (if pid \<noteq> srvId s
      then (let (entries, prevEntry) = PeerUncommittedLogEntries L (srvDB s) (gid s m) peer in
        case GetHostNTXN L s pid of
          (None, s) \<Rightarrow> (sent, False, s)
        | (Some node, s) \<Rightarrow>
            if GetClusterRPC L (hostServerAddr node)
            then send_loop L m peers (sent @ [(hostServerAddr node, heartbeat_request L m entries prevEntry s)]) s
            else send_loop L m peers sent s)
      else send_loop L m peers sent s)"

definition update_peer :: "'db lib \<Rightarrow> nat \<Rightarrow> u64 \<Rightarrow> Peer \<Rightarrow> u64 \<Rightarrow> 'db BFTRaftServer \<Rightarrow> 'db BFTRaftServer" where
  "update_peer L m pid peer index s =
     (let peer = peer\<lparr>peerMatchIndex := index, peerNextIndex := index + 1\<rparr>;
          peers = AList.update (peerId peer) peer (AList.update pid peer (rtGroupPeers (rt s m)));
          s = set_rt m ((rt s m)\<lparr>rtGroupPeers := peers\<rparr>) s
      in snd (updateDB L s (\<lambda>txn. SavePeer L txn peer)))"

text \<open>The loop over the answers; an answer of a node that is no peer of the group dereferences a nil peer.\<close>

fun receive_loop ::
  "'db lib \<Rightarrow> nat \<Rightarrow> AppendEntriesResponse option list \<Rightarrow> 'db BFTRaftServer \<Rightarrow> 'db BFTRaftServer option" where
  "receive_loop L m [] s = Some s"
| "receive_loop L m (None # rest) s = receive_loop L m rest s"
| "receive_loop L m (Some response # rest) s = do {
     (publicKey, s) \<leftarrow> GetHostPublicKey L s (arPeer response);
     if publicKey = None then receive_loop L m rest s
     else do {
       peer \<leftarrow> map_of (rtGroupPeers (rt s m)) (arPeer response);
       let s = (if arIndex response \<noteq> peerMatchIndex peer then update_peer L m (arPeer response) peer (arIndex response) s else s);
           s = set_rt m ((rt s m)\<lparr>rtSendVotesForPeers := (rtSendVotesForPeers (rt s m))(arPeer response \<mapsto> \<not> arConvinced response)\<rparr>) s
       in receive_loop L m rest s
     }
   }"

definition SendFollowersHeartbeat :: "'db lib \<Rightarrow> clock \<Rightarrow> ae_net \<Rightarrow> nat \<Rightarrow> 'db BFTRaftServer \<Rightarrow> 'db BFTRaftServer option" where
  "SendFollowersHeartbeat L C net m s =
     (let s = RefreshTimer C m 1 s; (sent, complete, s) = send_loop L m (rtGroupPeers (rt s m)) [] s
      in if \<not> complete then Some s
         else if length (net sent) < length sent then None
         else receive_loop L m (take (length sent) (net sent)) s)"

section \<open>What a heartbeat changes\<close>

text \<open>Of the groups only their timers and the book-keeping on the peers, which stay keyed by their ids; no log.\<close>

definition hb_frame :: "'db lib \<Rightarrow> 'db BFTRaftServer \<Rightarrow> 'db BFTRaftServer \<Rightarrow> bool" where
  "hb_frame L s s' \<longleftrightarrow> logs_eq L (srvDB s) (srvDB s') \<and> srvId s' = srvId s \<and> srvPrivateKey s' = srvPrivateKey s \<and>
     srvFuncReg s' = srvFuncReg s \<and> srvGroupsOnboard s' = srvGroupsOnboard s \<and>
     length (srvRTGroups s') = length (srvRTGroups s) \<and>
     (\<forall>i < length (srvRTGroups s). \<exists>ps t v. rt s' i = (rt s i)\<lparr>rtGroupPeers := ps, rtTimeout := t, rtSendVotesForPeers := v\<rparr>) \<and>
     (\<forall>i < length (srvRTGroups s). peers_wf (rt s i) \<longrightarrow> peers_wf (rt s' i))"

lemma hb_same: "\<exists>ps t v. (r :: RTGroup) = r\<lparr>rtGroupPeers := ps, rtTimeout := t, rtSendVotesForPeers := v\<rparr>"
  by (intro exI [of _ "rtGroupPeers r"] exI [of _ "rtTimeout r"] exI [of _ "rtSendVotesForPeers r"]) simp

lemma hb_frame_refl [simp, intro]: "hb_frame L s s"
  using hb_same by (simp add: hb_frame_def)

lemma hb_frame_trans [trans]:
  assumes "hb_frame L s t" "hb_frame L t u"
  shows "hb_frame L s u"
proof -
  have "\<exists>ps t v. rt u i = (rt s i)\<lparr>rtGroupPeers := ps, rtTimeout := t, rtSendVotesForPeers := v\<rparr>"
    if i: "i < length (srvRTGroups s)" for i
  proof -
    obtain ps ti v where 1: "rt t i = (rt s i)\<lparr>rtGroupPeers := ps, rtTimeout := ti, rtSendVotesForPeers := v\<rparr>"
      using assms(1) i unfolding hb_frame_def by blast
    obtain ps' ti' v' where "rt u i = (rt t i)\<lparr>rtGroupPeers := ps', rtTimeout := ti', rtSendVotesForPeers := v'\<rparr>"
      using assms i unfolding hb_frame_def by metis
    with 1 show ?thesis by auto
  qed
  then show ?thesis using assms unfolding hb_frame_def by (auto intro: logs_eq_trans)
qed

lemma hb_frame_gid: "hb_frame L s s' \<Longrightarrow> m < length (srvRTGroups s) \<Longrightarrow> gid s' m = gid s m"
  by (auto simp: hb_frame_def gid_def)

lemma caches_hb_frame: "caches_only s s' \<Longrightarrow> hb_frame L s s'"
  using hb_same by (simp add: hb_frame_def caches_only_sel)

lemma set_rt_hb_frame:
  assumes "\<exists>ps t v. r = (rt s m)\<lparr>rtGroupPeers := ps, rtTimeout := t, rtSendVotesForPeers := v\<rparr>" "peers_wf (rt s m) \<Longrightarrow> peers_wf r"
  shows "hb_frame L s (set_rt m r s)"
proof -
  have "\<exists>ps t v. rt (set_rt m r s) i = (rt s i)\<lparr>rtGroupPeers := ps, rtTimeout := t, rtSendVotesForPeers := v\<rparr>"
    if "i < length (srvRTGroups s)" for i
    using that assms(1) hb_same by (cases "i = m") (simp_all add: set_rt_def rt_def)
  moreover have "peers_wf (rt (set_rt m r s) i)" if "i < length (srvRTGroups s)" "peers_wf (rt s i)" for i
    using that assms(2) by (cases "i = m") (simp_all add: set_rt_def rt_def)
  ultimately show ?thesis by (simp add: hb_frame_def)
qed

lemma RefreshTimer_hb_frame: "hb_frame L s (RefreshTimer C m t s)"
  unfolding RefreshTimer_def
  by (intro set_rt_hb_frame exI [of _ "rtGroupPeers (rt s m)"] exI [of _ "rtSendVotesForPeers (rt s m)"] exI) (simp_all add: peers_wf_def)

lemma send_loop_caches: "send_loop L m ps sent s = (sent', b, s') \<Longrightarrow> caches_only s s'"
proof (induction L m ps sent s rule: send_loop.induct)
  case (2 L m pid peer peers sent s)
  obtain h s1 where h: "GetHostNTXN L s pid = (h, s1)" by fastforce
  have "caches_only s s1" using h by (rule GetHostNTXN_caches)
  with 2 h show ?case
    by (cases h; cases "pid = srvId s"; cases "PeerUncommittedLogEntries L (srvDB s) (gid s m) peer")
      (auto split: if_splits intro: caches_only_trans)
qed auto

context libraries
begin

lemma updateDB_hb_frame:
  assumes "updateDB L s f = (r, s')" "\<And>db'. f (srvDB s) = Inr db' \<Longrightarrow> logs_eq L (srvDB s) db'"
  shows "hb_frame L s s'"
proof -
  have "logs_eq L (srvDB s) (srvDB s')" using assms by (rule updateDB_logs)
  moreover obtain db where "s' = s\<lparr>srvDB := db\<rparr>" using updateDB_only_DB [OF assms(1)] by blast
  ultimately show ?thesis using hb_same by (simp add: hb_frame_def rt_def)
qed

lemma update_peer_hb_frame:
  assumes "map_of (rtGroupPeers (rt s m)) pid = Some peer"
  shows "hb_frame L s (update_peer L m pid peer i s)"
proof -
  let ?p = "peer\<lparr>peerMatchIndex := i, peerNextIndex := i + 1\<rparr>"
  let ?s = "set_rt m ((rt s m)\<lparr>rtGroupPeers := AList.update (peerId ?p) ?p (AList.update pid ?p (rtGroupPeers (rt s m)))\<rparr>) s"
  have "hb_frame L s ?s"
  proof (intro set_rt_hb_frame exI [of _ "rtTimeout (rt s m)"] exI [of _ "rtSendVotesForPeers (rt s m)"] exI)
    assume wf: "peers_wf (rt s m)"
    then have "peerId peer = pid" using map_of_SomeD [OF assms] by (auto simp: peers_wf_def)
    with wf show "peers_wf ((rt s m)\<lparr>rtGroupPeers := AList.update (peerId ?p) ?p (AList.update pid ?p (rtGroupPeers (rt s m)))\<rparr>)"
      using peers_wf_update [OF peers_wf_update [OF wf, of ?p pid "rt s m"], of ?p pid "rt s m"] by simp
  qed simp
  also have "hb_frame L ?s (snd (updateDB L ?s (\<lambda>txn. SavePeer L txn ?p)))"
    by (rule updateDB_hb_frame [OF surjective_pairing]) (rule SavePeer_logs)
  finally show ?thesis by (simp add: update_peer_def Let_def)
qed

lemma receive_loop_hb_frame: "receive_loop L m rs s = Some s' \<Longrightarrow> hb_frame L s s'"
proof (induction rs arbitrary: s)
  case (Cons r rs)
  show ?case
  proof (cases r)
    case None
    with Cons show ?thesis by simp
  next
    case (Some response)
    obtain k s1 where k: "GetHostPublicKey L s (arPeer response) = Some (k, s1)"
      using Cons.prems Some by (auto simp: bind_eq_Some_conv)
    have f1: "hb_frame L s s1" using k by (intro caches_hb_frame GetHostPublicKey_caches)
    show ?thesis
    proof (cases "k = None")
      case True
      with Cons Some k have "hb_frame L s1 s'" by auto
      with f1 show ?thesis by (rule hb_frame_trans)
    next
      case False
      with Cons.prems Some k obtain peer where peer: "map_of (rtGroupPeers (rt s1 m)) (arPeer response) = Some peer"
        by (auto simp: bind_eq_Some_conv)
      define s2 where "s2 = (if arIndex response \<noteq> peerMatchIndex peer
          then update_peer L m (arPeer response) peer (arIndex response) s1 else s1)"
      let ?s3 = "set_rt m ((rt s2 m)\<lparr>rtSendVotesForPeers := (rtSendVotesForPeers (rt s2 m))(arPeer response \<mapsto> \<not> arConvinced response)\<rparr>) s2"
      have "hb_frame L s1 s2" by (simp add: s2_def update_peer_hb_frame peer)
      moreover have "hb_frame L s2 ?s3"
        by (intro set_rt_hb_frame exI [of _ "rtTimeout (rt s2 m)"] exI [of _ "rtGroupPeers (rt s2 m)"] exI) (simp_all add: peers_wf_def)
      moreover have "receive_loop L m rs ?s3 = Some s'"
        using Cons.prems Some k False peer by (simp add: Let_def s2_def)
      then have "hb_frame L ?s3 s'" by (rule Cons.IH)
      ultimately show ?thesis using f1 hb_frame_trans by blast
    qed
  qed
qed auto

lemma SendFollowersHeartbeat_frame:
  assumes "SendFollowersHeartbeat L C net m s = Some s'"
  shows "hb_frame L s s'"
proof -
  let ?s1 = "RefreshTimer C m 1 s"
  obtain sent b s2 where sl: "send_loop L m (rtGroupPeers (rt ?s1 m)) [] ?s1 = (sent, b, s2)" by (metis prod_cases3)
  have "hb_frame L s s2"
    using RefreshTimer_hb_frame caches_hb_frame [OF send_loop_caches [OF sl]] hb_frame_trans by blast
  moreover have "s' = s2 \<or> receive_loop L m (take (length sent) (net sent)) s2 = Some s'"
    using assms sl by (auto simp: SendFollowersHeartbeat_def Let_def split: if_splits)
  ultimately show ?thesis using receive_loop_hb_frame hb_frame_trans by blast
qed

end

section \<open>The messages\<close>

lemma heartbeat_request_caches: "caches_only s s' \<Longrightarrow> heartbeat_request L m es e s' = heartbeat_request L m es e s"
  by (simp add: heartbeat_request_def serverSign_def caches_only_sel Let_def)

lemma send_loop_requests:
  assumes "send_loop L m ps sent s = (sent', b, s')" "(addr, req) \<in> set sent'"
  shows "(addr, req) \<in> set sent \<or> (\<exists>pid peer es prev. (pid, peer) \<in> set ps \<and> pid \<noteq> srvId s \<and>
     PeerUncommittedLogEntries L (srvDB s) (gid s m) peer = (es, prev) \<and> req = heartbeat_request L m es prev s)"
  using assms
proof (induction ps arbitrary: sent s)
  case (Cons p ps)
  obtain pid peer where p: "p = (pid, peer)" by fastforce
  obtain es prev where pu: "PeerUncommittedLogEntries L (srvDB s) (gid s m) peer = (es, prev)" by fastforce
  obtain h s1 where h: "GetHostNTXN L s pid = (h, s1)" by fastforce
  have c: "caches_only s s1" using h by (rule GetHostNTXN_caches)
  note f = caches_only_sel [OF c] heartbeat_request_caches [OF c]
  have skip: "send_loop L m ps sent s = (sent', b, s') \<or> send_loop L m ps sent s1 = (sent', b, s') \<or> sent' = sent \<or>
      pid \<noteq> srvId s \<and> (\<exists>a. send_loop L m ps (sent @ [(a, heartbeat_request L m es prev s)]) s1 = (sent', b, s'))"
    using Cons.prems(1) p pu h f by (auto split: if_splits option.splits)
  then show ?case
    using Cons.IH [of sent s] Cons.IH [of sent s1] Cons.IH [of "sent @ [(_, heartbeat_request L m es prev s)]" s1]
      Cons.prems(2) p pu by (auto simp: f) blast+
qed auto

section \<open>Catching up\<close>

lemma contiguous_append: "contiguous i (xs @ ys) \<longleftrightarrow> contiguous i xs \<and> contiguous (i + of_nat (length xs)) ys"
  by (induction xs arbitrary: i) (auto simp: ac_simps)

lemma contiguous_last: "contiguous i xs \<Longrightarrow> xs \<noteq> [] \<Longrightarrow> leIndex (last xs) + 1 = i + of_nat (length xs)"
  by (cases xs rule: rev_cases) (auto simp: contiguous_append)

text \<open>The leader's record of a peer agrees with the peer's log.\<close>

definition peer_tracks :: "'db lib \<Rightarrow> 'db \<Rightarrow> u64 \<Rightarrow> Peer \<Rightarrow> bool" where
  "peer_tracks L db g peer \<longleftrightarrow> peerMatchIndex peer = LastEntryIndex L db g \<and>
     peerNextIndex peer = (if group_log L db g = [] then 0 else LastEntryIndex L db g + 1)"

context libraries
begin

lemma uncommitted_is_suffix:
  assumes ok: "log_ok L dl g" "log_ok L df g" and log: "group_log L dl g = group_log L df g @ rest"
    and tr: "peer_tracks L df g peer" and small: "unat (LastEntryIndex L df g) + 1 < 2 ^ 64"
  shows "PeerUncommittedLogEntries L dl g peer =
    (rest, if group_log L df g = [] then zeroEntry else last (group_log L df g))"
proof (cases "group_log L df g = []")
  case True
  with tr log show ?thesis
    by (simp add: PeerUncommittedLogEntries_log [OF ok(1)] peer_tracks_def Let_def LastEntryIndex_log [OF ok(2)])
next
  case False
  let ?f = "group_log L df g" and ?n = "peerNextIndex peer"
  have n: "?n = LastEntryIndex L df g + 1" "LastEntryIndex L df g = leIndex (last ?f)"
    using tr False by (simp_all add: peer_tracks_def LastEntryIndex_log [OF ok(2)])
  have "\<forall>e \<in> set ?f. leIndex e < ?n" using log_below_next [OF ok(2) small] n(1) by (simp add: log_below_def)
  moreover have "\<forall>e \<in> set rest. ?n \<le> leIndex e"
  proof
    fix e assume "e \<in> set rest"
    then have "leIndex (last ?f) < leIndex e"
      using sorted_group_log [OF ok(1)] False by (auto simp: log sorted_wrt_append)
    then show "?n \<le> leIndex e" using n by (simp add: inc_le)
  qed
  ultimately have "filter (\<lambda>e. leIndex e < ?n) (?f @ rest) = ?f" "filter (\<lambda>e. ?n \<le> leIndex e) (?f @ rest) = rest"
    by (auto simp: filter_empty_conv filter_id_conv not_le not_less)
  moreover have "?n \<noteq> 0"
  proof -
    have "unat ?n = unat (LastEntryIndex L df g) + 1" using small n(1) by (simp add: unat_word_ariths)
    then show ?thesis by auto
  qed
  ultimately show ?thesis using False by (simp add: PeerUncommittedLogEntries_log [OF ok(1)] Let_def log)
qed

lemma heartbeat_replicates:
  assumes io: "no_io_errors L" and ok: "log_ok L (srvDB sl) g" "log_ok L (srvDB sf) g"
    and lead: "gid sl ml = g" "chained (genesisHash g) (group_log L (srvDB sl) g)" "contiguous 1 (group_log L (srvDB sl) g)"
      "length (group_log L (srvDB sl) g) + 1 < 2 ^ 64"
    and foll: "mf < length (srvRTGroups sf)" "gid sf mf = g" "keys_ok L sf"
      "map_of (rtGroupPeers (rt sf mf)) (srvId sl) \<noteq> None" "rtLeader (rt sf mf) = srvId sl" "pubkey L sf (srvId sl) \<noteq> None"
    and log: "group_log L (srvDB sl) g = group_log L (srvDB sf) g @ rest" "rest \<noteq> []"
    and cs: "\<And>e. e \<in> set rest \<Longrightarrow> committable (srvFuncReg sf) g e"
    and tr: "peer_tracks L (srvDB sf) g peer"
    and req: "PeerUncommittedLogEntries L (srvDB sl) g peer = (es, prev)" "req = heartbeat_request L ml es prev sl"
  shows "\<exists>resp sf'. AppendEntries L C sf mf req = Some (Inr resp, sf') \<and> arSuccessed resp \<and>
     group_log L (srvDB sf') g = group_log L (srvDB sl) g"
proof -
  let ?f = "group_log L (srvDB sf) g" and ?last = "LastEntryIndex L (srvDB sf) g"
  have c: "contiguous 1 ?f" "contiguous (1 + of_nat (length ?f)) rest" using lead(3) log(1) by (auto simp: contiguous_append)
  have last: "?last = of_nat (length ?f)"
    using contiguous_last [OF c(1)] by (auto simp: LastEntryIndex_log [OF ok(2)])
  have len: "length ?f + length rest + 1 < 2 ^ 64" using lead(4) log(1) by simp
  then have u: "unat ?last = length ?f" by (simp add: last unat_of_nat)
  have pu: "es = rest" "prev = (if ?f = [] then zeroEntry else last ?f)"
    using uncommitted_is_suffix [OF ok log(1) tr] req(1) u len by auto
  have "chained (last_hash (genesisHash g) ?f) rest" using lead(2) log(1) by (simp add: chained_append)
  moreover have "contiguous (?last + 1) rest" using c(2) last by (simp add: add.commute)
  moreover have "aePrevLogIndex req = ?last" "aePrevLogTerm req = (case LastLogEntry L (srvDB sf) g of None \<Rightarrow> 0 | Some e \<Rightarrow> leTerm e)"
    using pu(2) by (auto simp: req(2) heartbeat_request_def Let_def LastEntryIndex_log [OF ok(2)] LastLogEntry_log [OF ok(2)]
        zeroEntry_def)
  moreover have "aeEntries req = rest" "aeLeaderId req = srvId sl" by (simp_all add: req(2) heartbeat_request_def Let_def pu(1))
  ultimately obtain resp sf' where "AppendEntries L C sf mf req = Some (Inr resp, sf')" "arSuccessed resp"
      "log_extends L g (srvDB sf) (srvDB sf') rest"
    using AppendEntries_accepts [OF io foll(1), of req C] ok(2) foll log(2) cs u len by auto
  then show ?thesis using log_extendsD(2) log(1) by metis
qed

end

text \<open>
  An answer of a peer with a known key makes the leader track the index it reports: it becomes the peer's match index, and, when
  it changed, the index after it the peer's next index.
\<close>

theorem receive_tracks:
  assumes "GetHostPublicKey L s (arPeer r) = Some (Some k, s1)" "m < length (srvRTGroups s)"
    and peer: "map_of (rtGroupPeers (rt s m)) (arPeer r) = Some peer" "peerId peer = arPeer r"
  shows "\<exists>s' peer'. receive_loop L m [Some r] s = Some s' \<and> map_of (rtGroupPeers (rt s' m)) (arPeer r) = Some peer' \<and>
     peerMatchIndex peer' = arIndex r \<and>
     peerNextIndex peer' = (if arIndex r = peerMatchIndex peer then peerNextIndex peer else arIndex r + 1)"
proof -
  note f = caches_only_sel [OF GetHostPublicKey_caches [OF assms(1)]]
  let ?p = "peer\<lparr>peerMatchIndex := arIndex r, peerNextIndex := arIndex r + 1\<rparr>"
  define s2 where "s2 = (if arIndex r \<noteq> peerMatchIndex peer then update_peer L m (arPeer r) peer (arIndex r) s1 else s1)"
  have upd: "rt (update_peer L m (arPeer r) peer (arIndex r) s1) m =
      (rt s m)\<lparr>rtGroupPeers := AList.update (peerId peer) ?p (AList.update (arPeer r) ?p (rtGroupPeers (rt s m)))\<rparr>"
    "length (srvRTGroups (update_peer L m (arPeer r) peer (arIndex r) s1)) = length (srvRTGroups s)"
    using assms(2) updateDB_only_DB [OF surjective_pairing] by (simp_all add: update_peer_def Let_def updateDB_def f split: sum.split)
      (simp_all add: rt_def set_rt_def f)
  have "\<exists>peer'. map_of (rtGroupPeers (rt s2 m)) (arPeer r) = Some peer' \<and> peerMatchIndex peer' = arIndex r \<and>
      peerNextIndex peer' = (if arIndex r = peerMatchIndex peer then peerNextIndex peer else arIndex r + 1)"
    using peer upd(1) by (auto simp: s2_def f update_conv')
  moreover have "m < length (srvRTGroups s2)" using assms(2) upd(2) by (simp add: s2_def f)
  moreover have "receive_loop L m [Some r] s = Some (set_rt m ((rt s2 m)\<lparr>rtSendVotesForPeers :=
      (rtSendVotesForPeers (rt s2 m))(arPeer r \<mapsto> \<not> arConvinced r)\<rparr>) s2)"
    using assms(1) peer(1) by (simp add: f s2_def Let_def)
  ultimately show ?thesis by auto
qed

end
