(* ===== verification/Observer.thy ===== *)
theory Observer
  imports Append
begin

text \<open>
  Pulling logs: the \<^verbatim>\<open>PullGroupLogs\<close> RPC of \<^verbatim>\<open>server/bftraft.go\<close> and \<^verbatim>\<open>PullAndCommitGroupLogs\<close> of
  \<^verbatim>\<open>server/observer.go\<close>, with which an observer follows a group.
\<close>

section \<open>Definitions\<close>

text \<open>The entries after the first item; an unreadable value gives a nil entry.\<close>

fun pull_loop :: "'db lib \<Rightarrow> bytes \<Rightarrow> kv_item list \<Rightarrow> LogEntry option list" where
  "pull_loop L keyPrefix [] = []"
| "pull_loop L keyPrefix (item # items) =
     (if prefix keyPrefix (fst item) then LogEntryFromKVItem L item # pull_loop L keyPrefix items else [])"

definition PullGroupLogs :: "'db lib \<Rightarrow> 'db BFTRaftServer \<Rightarrow> PullGroupLogsResuest \<Rightarrow> LogEntry option list option" where
  "PullGroupLogs L s req =
     (let keyPrefix = ComposeKeyPrefix (pullGroup req) LOG_ENTRIES;
          iter = iterSeek L (srvDB s) False (keyPrefix @ U64Bytes (pullIndex req))
      in if ValidForPrefix iter keyPrefix
         then do {
           firstEntry \<leftarrow> LogEntryFromKVItem L (hd iter);
           if leIndex firstEntry = pullIndex req then Some (pull_loop L keyPrefix (tl iter)) else Some []
         }
         else Some [])"

text \<open>The peers that can be dialled; a peer whose host is unknown dereferences a nil node.\<close>

fun dial_peers :: "'db lib \<Rightarrow> (u64 \<times> Peer) list \<Rightarrow> 'db BFTRaftServer \<Rightarrow> (string list \<times> 'db BFTRaftServer) option" where
  "dial_peers L [] s = Some ([], s)"
| "dial_peers L ((pid, peer) # peers) s = (case GetHostNTXN L s (peerId peer) of
     (None, s) \<Rightarrow> None
   | (Some node, s) \<Rightarrow> do {
       (clients, s) \<leftarrow> dial_peers L peers s;
       Some (if GetClusterRPC L (hostServerAddr node) then hostServerAddr node # clients else clients, s)
     })"

text \<open>What the closure passed to \<^verbatim>\<open>MajorityResponse\<close> returns for the answer of one peer.\<close>

definition pull_result :: "LogEntry list option \<Rightarrow> LogEntry list FuncResult" where
  "pull_result answer = (case answer of
     None \<Rightarrow> \<lparr>Result = None, Feature = []\<rparr>
   | Some entries \<Rightarrow> \<lparr>Result = Some entries, Feature = (if entries = [] then [1] else leHash (last entries))\<rparr>)"

text \<open>The loop that appends and commits the entries and stops at the first that cannot be appended.\<close>

fun pull_apply :: "'db lib \<Rightarrow> int \<Rightarrow> nat \<Rightarrow> LogEntry list \<Rightarrow> 'db BFTRaftServer \<Rightarrow> 'db BFTRaftServer option" where
  "pull_apply L now m [] s = Some s"
| "pull_apply L now m (entry # entries) s = do {
     r \<leftarrow> AppendEntryToLocal L (gid s m) (srvDB s) entry;
     case updateDB L s (\<lambda>txn. r) of
       (Some err, s) \<Rightarrow> Some s
     | (None, s) \<Rightarrow> do {
         (result, s) \<leftarrow> CommitGroupLog L now entry s;
         pull_apply L now m entries s
       }
   }"

text \<open>
  \<open>pull_net\<close> gives the answers in the order they arrive.  The type assertion on the result of \<^verbatim>\<open>MajorityResponse\<close> panics on
  nil.
\<close>

type_synonym pull_net = "string list \<Rightarrow> PullGroupLogsResuest \<Rightarrow> LogEntry list option list"

definition PullAndCommitGroupLogs ::
  "'db lib \<Rightarrow> (u64 \<times> int) map_order \<Rightarrow> (u64 \<times> LogEntry list) map_order \<Rightarrow> pull_net \<Rightarrow> int \<Rightarrow> nat \<Rightarrow> 'db BFTRaftServer \<Rightarrow>
   'db BFTRaftServer option" where
  "PullAndCommitGroupLogs L ord vord net now m s = do {
     (peerClients, s) \<leftarrow> dial_peers L (rtGroupPeers (rt s m)) s;
     let req = \<lparr>pullGroup = gid s m, pullIndex = LastEntryIndex L (srvDB s) (gid s m) + 1\<rparr>;
     res \<leftarrow> MajorityResponse ord vord peerClients (map pull_result (net peerClients req));
     entries \<leftarrow> res;
     pull_apply L now m entries s
   }"

section \<open>The entries an answer holds\<close>

context libraries
begin

text \<open>The items a forward iterator yields from a key of a log, while they stay under its prefix.\<close>

lemma forward_items:
  assumes "log_ok L db g"
  obtains rest where "iterSeek L db False (LogEntryKey g i) =
      map (\<lambda>e. (LogEntryKey g (leIndex e), Inr (the (kv L db (LogEntryKey g (leIndex e)))))) (filter (\<lambda>e. i \<le> leIndex e) (group_log L db g)) @ rest"
    and "\<not> ValidForPrefix rest (ComposeKeyPrefix g LOG_ENTRIES)"
proof -
  let ?p = "ComposeKeyPrefix g LOG_ENTRIES" and ?low = "LogEntryKey g i"
  let ?D = "{k \<in> dom (kv L db). ?low \<le> k}" and ?A = "{k \<in> dom (kv L db). ?low \<le> k \<and> \<not> prefix ?p k}"
  let ?K = "filter (\<lambda>k. ?low \<le> k) (log_keys L db g)"
  let ?f = "\<lambda>k. (k, Inr (the (kv L db k)) :: kv_error + bytes)"
  have fin: "finite ?D" "finite ?A" using finite_dom [of db] by (auto intro: finite_subset)
  have above: "k < a" if a: "a \<in> ?A" and k: "k \<in> set ?K" for a k
  proof (rule ccontr)
    assume "\<not> k < a"
    then have "?low \<le> a" "a \<le> k" using a by auto
    moreover obtain j where "k = LogEntryKey g j" using log_keys_entry(1) [OF assms] k by auto
    ultimately have "prefix ?p a" using between_same_prefix [of ?p "U64Bytes i" a "U64Bytes j"] by (simp add: LogEntryKey_def)
    then show False using a by simp
  qed
  have "sorted_list_of_set ?D = ?K @ sorted_list_of_set ?A"
  proof (rule sorted_distinct_set_unique)
    have "sorted ?K" "distinct ?K" by (simp_all add: log_keys_def sorted_wrt_filter)
    moreover have "k \<le> a" if "k \<in> set ?K" "a \<in> set (sorted_list_of_set ?A)" for k a
      using above [of a k] that fin(2) by simp
    moreover have "set ?K \<inter> set (sorted_list_of_set ?A) = {}" using fin(2) by (auto simp: set_log_keys)
    ultimately show "sorted (?K @ sorted_list_of_set ?A)" "distinct (?K @ sorted_list_of_set ?A)"
      by (simp_all only: sorted_append distinct_append sorted_sorted_list_of_set distinct_sorted_list_of_set) blast+
    show "set (sorted_list_of_set ?D) = set (?K @ sorted_list_of_set ?A)" using fin by (auto simp: set_log_keys)
  qed (use fin in auto)
  moreover have "?K = map (\<lambda>e. LogEntryKey g (leIndex e)) (filter (\<lambda>e. i \<le> leIndex e) (group_log L db g))"
    by (simp add: log_keys_map [OF assms] filter_map comp_def)
  ultimately have "iterSeek L db False ?low =
      map ?f (map (\<lambda>e. LogEntryKey g (leIndex e)) (filter (\<lambda>e. i \<le> leIndex e) (group_log L db g))) @ map ?f (sorted_list_of_set ?A)"
    by (simp only: seek_forward map_append)
  moreover have "\<not> ValidForPrefix (map ?f (sorted_list_of_set ?A)) ?p" using fin by (intro not_ValidForPrefix) simp
  ultimately show ?thesis by (intro that) (simp_all add: comp_def)
qed

lemma stored_entry_key:
  assumes "log_ok L db g" "e \<in> set (group_log L db g)"
  shows "stored_entry L db (LogEntryKey g (leIndex e)) = e"
proof -
  obtain k where "k \<in> set (log_keys L db g)" "e = stored_entry L db k" using assms(2) by (auto simp: group_log_def)
  with log_keys_entry(1) [OF assms(1)] show ?thesis by metis
qed

lemma pull_loop_log:
  assumes "log_ok L db g" "set es \<subseteq> set (group_log L db g)" "\<not> ValidForPrefix rest (ComposeKeyPrefix g LOG_ENTRIES)"
  shows "pull_loop L (ComposeKeyPrefix g LOG_ENTRIES)
      (map (\<lambda>e. (LogEntryKey g (leIndex e), Inr (the (kv L db (LogEntryKey g (leIndex e)))))) es @ rest) = map Some es"
  using assms(2)
proof (induction es)
  case Nil
  then show ?case using assms(3) by (cases rest) (auto simp: ValidForPrefix_def split: prod.splits)
next
  case (Cons e es)
  then show ?case using stored_entry_key [OF assms(1), of e] by (simp add: LogEntryFromKVItem_stored)
qed

lemma PullGroupLogs_log:
  assumes ok: "log_ok L (srvDB s) (pullGroup req)"
  shows "PullGroupLogs L s req = Some (let log = group_log L (srvDB s) (pullGroup req) in
     if \<exists>e \<in> set log. leIndex e = pullIndex req then map Some (filter (\<lambda>e. pullIndex req < leIndex e) log) else [])"
proof -
  let ?g = "pullGroup req" and ?i = "pullIndex req" and ?log = "group_log L (srvDB s) (pullGroup req)"
  let ?F = "filter (\<lambda>e. ?i \<le> leIndex e) ?log"
  obtain rest where it: "iterSeek L (srvDB s) False (LogEntryKey ?g ?i) =
      map (\<lambda>e. (LogEntryKey ?g (leIndex e), Inr (the (kv L (srvDB s) (LogEntryKey ?g (leIndex e)))))) ?F @ rest"
    and rest: "\<not> ValidForPrefix rest (ComposeKeyPrefix ?g LOG_ENTRIES)"
    using forward_items [OF ok] by blast
  have srt: "sorted_wrt (<) (map leIndex ?F)"
    using sorted_group_log [OF ok] by (simp add: sorted_wrt_map sorted_wrt_filter)
  show ?thesis
  proof (cases ?F)
    case Nil
    then have "\<not> (\<exists>e \<in> set ?log. leIndex e = ?i)" by (auto simp: filter_empty_conv)
    with Nil it rest show ?thesis by (simp add: PullGroupLogs_def Let_def flip: LogEntryKey_def)
  next
    case (Cons e es)
    then have "set (e # es) = set ?F" by simp
    then have e: "e \<in> set ?log" "?i \<le> leIndex e" "set es \<subseteq> set ?log" by auto
    have big: "\<forall>e' \<in> set es. leIndex e < leIndex e'" using srt Cons by simp
    have ex: "(\<exists>e \<in> set ?log. leIndex e = ?i) \<longleftrightarrow> leIndex e = ?i"
    proof
      assume "\<exists>e \<in> set ?log. leIndex e = ?i"
      then obtain e' where "e' \<in> set ?F" "leIndex e' = ?i" by auto
      with Cons big e(2) show "leIndex e = ?i" by auto
    qed (use e in auto)
    have gt: "filter (\<lambda>e. ?i < leIndex e) ?log = es" if "leIndex e = ?i"
    proof -
      have "filter (\<lambda>e. ?i < leIndex e) ?F = es" using Cons big that by (simp add: filter_id_conv)
      then show ?thesis by (simp add: less_imp_le conj_commute cong: conj_cong)
    qed
    have "ValidForPrefix (iterSeek L (srvDB s) False (LogEntryKey ?g ?i)) (ComposeKeyPrefix ?g LOG_ENTRIES)"
      "LogEntryFromKVItem L (hd (iterSeek L (srvDB s) False (LogEntryKey ?g ?i))) = Some e"
      using stored_entry_key [OF ok e(1)] by (simp_all add: it Cons ValidForPrefix_def LogEntryFromKVItem_stored)
    moreover have "pull_loop L (ComposeKeyPrefix ?g LOG_ENTRIES) (tl (iterSeek L (srvDB s) False (LogEntryKey ?g ?i))) = map Some es"
      using pull_loop_log [OF ok e(3) rest] by (simp add: it Cons)
    ultimately show ?thesis using ex gt by (simp add: PullGroupLogs_def Let_def flip: LogEntryKey_def)
  qed
qed

section \<open>An observer's log\<close>

lemma pull_append_local:
  assumes "AppendEntryToLocal L (gid s m) (srvDB s) e = Some r" "updateDB L s (\<lambda>txn. r) = (u, s1)"
  shows "u = None \<Longrightarrow> append_local L m e s = Some s1" and "u \<noteq> None \<Longrightarrow> s1 = s"
  using assms by (auto simp: append_local_def updateDB_def split: sum.splits)

lemma pull_apply_log:
  assumes "pull_apply L now m es s = Some s'" "m < length (srvRTGroups s)"
    and "log_ok L (srvDB s) (gid s m)" "log_below L (srvDB s) (gid s m) i" "contiguous i es" "unat i + length es < 2 ^ 64"
  shows "\<exists>new. subseq new es \<and> log_extends L (gid s m) (srvDB s) (srvDB s') new \<and>
      chained (last_hash (genesisHash (gid s m)) (group_log L (srvDB s) (gid s m))) new"
  using assms
proof (induction es arbitrary: i s)
  case Nil
  then show ?case by (intro logs_eq_extends) auto
next
  case (Cons e es)
  let ?g = "gid s m" and ?h = "genesisHash (gid s m)"
  obtain r where r: "AppendEntryToLocal L ?g (srvDB s) e = Some r"
    using Cons.prems(1) by (auto simp: bind_eq_Some_conv)
  obtain u s1 where u: "updateDB L s (\<lambda>txn. r) = (u, s1)" by fastforce
  show ?case
  proof (cases "u = None")
    case False
    then have "s' = s" using Cons.prems(1) r u pull_append_local(2) [OF r u] by auto
    then show ?thesis using Cons.prems(3) by (intro logs_eq_extends) auto
  next
    case True
    then have app: "append_local L m e s = Some s1" using pull_append_local(1) [OF r u] by simp
    obtain db1 where db1: "s1 = s\<lparr>srvDB := db1\<rparr>" using append_local_only_DB [OF app] by blast
    then have f1: "gid s1 m = ?g" "srvRTGroups s1 = srvRTGroups s" by (simp_all add: gid_def rt_def)
    obtain res s2 where c: "CommitGroupLog L now e s1 = Some (res, s2)" and rest: "pull_apply L now m es s2 = Some s'"
      using Cons.prems(1) r u True by (auto simp: bind_eq_Some_conv)
    note f2 = CommitGroupLog_frame [OF c]
    obtain new1 where new1: "new1 = [] \<or> new1 = [e]" "log_extends L ?g (srvDB s) (srvDB s1) new1"
      "chained (last_hash ?h (group_log L (srvDB s) ?g)) new1"
      using append_local_log [OF app Cons.prems(3)] Cons.prems(4,5) by auto
    have e1: "log_extends L ?g (srvDB s) (srvDB s2) new1"
      using log_extends_trans [OF new1(2) log_extends_logs_eq [of _ _ "srvDB s2"]] new1(2) f2
      by (simp add: log_extendsD(1) sm_frame_def)
    have g2: "gid s2 m = ?g" "m < length (srvRTGroups s2)"
      using f1 f2 Cons.prems(2) sm_frame_gid [OF f2] by (auto simp: sm_frame_def)
    have i: "i < i + 1" using Cons.prems(6) by (simp add: word_less_nat_alt unat_word_ariths)
    have "log_below L (srvDB s2) ?g (i + 1)"
      using e1 Cons.prems(4,5) new1(1) i by (auto simp: log_below_def log_extends_def)
    moreover have "unat (i + 1) + length es < 2 ^ 64" using Cons.prems(6) by (simp add: unat_word_ariths)
    ultimately obtain new2 where new2: "subseq new2 es" "log_extends L ?g (srvDB s2) (srvDB s') new2"
        "chained (last_hash ?h (group_log L (srvDB s2) ?g)) new2"
      using Cons.IH [OF rest g2(2), of "i + 1"] log_extendsD(1) [OF e1] Cons.prems(5) unfolding g2(1) by auto
    have "subseq (new1 @ new2) (e # es)" using new1(1) new2(1) by auto
    then show ?thesis using log_extends_chain [OF e1 new1(3) new2(2,3)] by blast
  qed
qed

end

end
