(* ===== verification/Election.thy ===== *)
theory Election
  imports Heartbeat Observer
begin

text \<open>
  Elections and the time wheel: \<^verbatim>\<open>BecomeCandidate\<close> and \<^verbatim>\<open>BecomeLeader\<close> of \<^verbatim>\<open>server/vote.go\<close> and one round of \<^verbatim>\<open>StartTimeWheel\<close> of
  \<^verbatim>\<open>server/group.go\<close>.  The network answers the vote requests by a function \<open>vnet\<close> from the request and the peers asked to the
  answers that arrive within the ten seconds the candidate waits, in the order they arrive, each with the node it came from.  Meanwhile the
  server handles other messages: \<open>env\<close> is what they do to its state.
\<close>

section \<open>Definitions\<close>

type_synonym vote_net = "RequestVoteRequest \<Rightarrow> (u64 \<times> string) list \<Rightarrow> (u64 \<times> RequestVoteResponse) list"

definition BecomeLeader :: "'db lib \<Rightarrow> clock \<Rightarrow> ae_net \<Rightarrow> nat \<Rightarrow> 'db BFTRaftServer \<Rightarrow> 'db BFTRaftServer option" where
  "BecomeLeader L C hnet m s =
     (let s = set_rt m ((rt s m)\<lparr>rtRole := LEADER, rtLeader := srvId s\<rparr>) s;
          s = snd (updateDB L s (\<lambda>txn. SaveGroup L txn (rtGroup (rt s m))))
      in SendFollowersHeartbeat L C hnet m s)"

text \<open>The peers a request goes to: a goroutine per peer, which dereferences a nil node when the host is unknown.\<close>

fun ask_peers :: "'db lib \<Rightarrow> (u64 \<times> Peer) list \<Rightarrow> 'db BFTRaftServer \<Rightarrow> ((u64 \<times> string) list \<times> 'db BFTRaftServer) option" where
  "ask_peers L [] s = Some ([], s)"
| "ask_peers L ((pid, peer) # peers) s = (case GetHostNTXN L s (peerId peer) of
     (None, s) \<Rightarrow> None
   | (Some node, s) \<Rightarrow> do {
       (asked, s) \<leftarrow> ask_peers L peers s;
       Some (if GetClusterRPC L (hostServerAddr node) then (peerId peer, hostServerAddr node) # asked else asked, s)
     })"

text \<open>
  The answers that verify and grant the vote; a nil public key or, for a granted vote, an empty log of the candidate is a nil
  dereference.
\<close>

fun granted_votes ::
  "'db lib \<Rightarrow> LogEntry option \<Rightarrow> (u64 \<times> RequestVoteResponse) list \<Rightarrow> 'db BFTRaftServer \<Rightarrow>
   (RequestVoteResponse list \<times> 'db BFTRaftServer) option" where
  "granted_votes L lastEntry [] s = Some ([], s)"
| "granted_votes L lastEntry ((nodeId, voteResponse) # rest) s = do {
     (publicKey, s) \<leftarrow> GetHostPublicKey L s nodeId;
     pk \<leftarrow> publicKey;
     if VerifySign L pk (voteSignature voteResponse) (RequestVoteResponseSignData voteResponse) \<and> voteGranted voteResponse
     then do {
       last \<leftarrow> lastEntry;
       (votes, s) \<leftarrow> granted_votes L lastEntry rest s;
       Some (if voteLogIndex voteResponse \<le> leIndex last then voteResponse # votes else votes, s)
     }
     else granted_votes L lastEntry rest s
   }"

text \<open>The loop that collects the votes until there are enough.\<close>

fun collect_votes :: "int \<Rightarrow> RequestVoteResponse list \<Rightarrow> RequestVoteResponse list \<Rightarrow> RequestVoteResponse list option" where
  "collect_votes expectedVotes [] votes = None"
| "collect_votes expectedVotes (vote # received) votes =
     (let votes = votes @ [vote]
      in if int (length votes) \<ge> expectedVotes then Some votes else collect_votes expectedVotes received votes)"

text \<open>What happens before the request is made: the new role and the new term, which is saved twice.\<close>

definition start_election :: "'db lib \<Rightarrow> nat \<Rightarrow> 'db BFTRaftServer \<Rightarrow> 'db BFTRaftServer" where
  "start_election L m s =
     (let s = set_rt m ((rt s m)\<lparr>rtRole := CANDIDATE\<rparr>) s;
          s = ResetTerm L m (grpTerm (rtGroup (rt s m)) + 1) s
      in snd (SaveGroupNTXN L s (rtGroup (rt s m))))"

definition vote_request :: "'db lib \<Rightarrow> nat \<Rightarrow> LogEntry option \<Rightarrow> 'db BFTRaftServer \<Rightarrow> RequestVoteRequest" where
  "vote_request L m lastEntry s =
     (let request = \<lparr>rvGroup = gid s m, rvTerm = grpTerm (rtGroup (rt s m)),
                     rvLogIndex = (case lastEntry of None \<Rightarrow> 0 | Some e \<Rightarrow> leIndex e),
                     rvLogTerm = (case lastEntry of None \<Rightarrow> 0 | Some e \<Rightarrow> leTerm e),
                     rvCandidateId = srvId s, rvSignature = []\<rparr>
      in request\<lparr>rvSignature := serverSign L s (RequestVoteRequestSignData request)\<rparr>)"

definition BecomeCandidate ::
  "'db lib \<Rightarrow> clock \<Rightarrow> vote_net \<Rightarrow> ae_net \<Rightarrow> ('db BFTRaftServer \<Rightarrow> 'db BFTRaftServer) \<Rightarrow> nat \<Rightarrow> 'db BFTRaftServer \<Rightarrow>
   'db BFTRaftServer option" where
  "BecomeCandidate L C vnet hnet env m s =
     (let s = start_election L m s; lastEntry = LastLogEntry L (srvDB s) (gid s m); request = vote_request L m lastEntry s
      in do {
        (asked, s) \<leftarrow> ask_peers L (rtGroupPeers (rt s m)) s;
        let expectedVotes = ExpectedHonestPeers (rt s m);
        (received, s) \<leftarrow> granted_votes L lastEntry (vnet request asked) (env s);
        s \<leftarrow> (case collect_votes expectedVotes received [] of
                None \<Rightarrow> Some s
              | Some votes \<Rightarrow>
                  (let s = set_rt m ((rt s m)\<lparr>rtVotes := votes\<rparr>) s in
                   if rtRole (rt s m) = CANDIDATE
                   then do {
                     s \<leftarrow> BecomeLeader L C hnet m s;
                     Some (RefreshTimer C m 1 s)
                   }
                   else Some s));
        Some (RefreshTimer C m 25 s)
      })"

text \<open>
  Votes that arrive after the ten seconds.  The goroutine that collects votes goes on with the \<open>earlier\<close> ones, and when there are enough they become the
  votes of the group, whatever its role and its term are by then; nobody reads \<^verbatim>\<open>adequateVotes\<close> any more.
\<close>

definition late_votes ::
  "'db lib \<Rightarrow> LogEntry option \<Rightarrow> int \<Rightarrow> RequestVoteResponse list \<Rightarrow> (u64 \<times> RequestVoteResponse) list \<Rightarrow> nat \<Rightarrow> 'db BFTRaftServer \<Rightarrow>
   'db BFTRaftServer option" where
  "late_votes L lastEntry expectedVotes earlier answers m s = do {
     (received, s) \<leftarrow> granted_votes L lastEntry answers s;
     Some (case collect_votes expectedVotes received earlier of
             None \<Rightarrow> s
           | Some votes \<Rightarrow> set_rt m ((rt s m)\<lparr>rtVotes := votes\<rparr>) s)
   }"

text \<open>One round of the loop of \<^verbatim>\<open>StartTimeWheel\<close>.\<close>

record network =
  netVote :: vote_net
  netAppend :: ae_net
  netPull :: pull_net
  netCount :: "(u64 \<times> int) map_order"
  netVals :: "(u64 \<times> LogEntry list) map_order"

definition TimeWheel_round ::
  "'db lib \<Rightarrow> clock \<Rightarrow> network \<Rightarrow> ('db BFTRaftServer \<Rightarrow> 'db BFTRaftServer) \<Rightarrow> nat \<Rightarrow> 'db BFTRaftServer \<Rightarrow> 'db BFTRaftServer option" where
  "TimeWheel_round L C N env m s =
     (if rtTimeout (rt s m) > clkNow C then Some s
      else case rtRole (rt s m) of
        CANDIDATE \<Rightarrow> BecomeCandidate L C (netVote N) (netAppend N) env m s
      | FOLLOWER \<Rightarrow> if rtLeader (rt s m) = srvId s then None else BecomeCandidate L C (netVote N) (netAppend N) env m s
      | LEADER \<Rightarrow> SendFollowersHeartbeat L C (netAppend N) m s
      | OBSERVER \<Rightarrow> do {
          s \<leftarrow> PullAndCommitGroupLogs L (netCount N) (netVals N) (netPull N) (clkNow C) m s;
          Some (RefreshTimer C m 5 s)
        })"

section \<open>Collecting votes\<close>

lemma collect_votes_take:
  assumes "int (length acc) < q"
  shows "collect_votes q vs acc = (if q \<le> int (length acc + length vs) then Some (acc @ take (nat q - length acc) vs) else None)"
  using assms
proof (induction vs arbitrary: acc)
  case (Cons v vs)
  show ?case
  proof (cases "q \<le> int (length acc + 1)")
    case True
    with Cons.prems have "nat q - length acc = 1" by linarith
    with True show ?thesis by simp
  next
    case False
    then have "nat q - length acc = Suc (nat q - length (acc @ [v]))" by simp
    with False Cons.IH [of "acc @ [v]"] show ?thesis by simp
  qed
qed simp

lemma collect_votes_Some:
  assumes "0 < q" "collect_votes q vs [] = Some votes"
  shows "int (length votes) = q" "set votes \<subseteq> set vs"
  using assms collect_votes_take [of "[]" q vs] set_take_subset [of "nat q" vs] by (auto split: if_splits)

lemma collect_votes_prefix: "0 < q \<Longrightarrow> collect_votes q vs [] = Some votes \<Longrightarrow> votes = take (nat q) vs"
  using collect_votes_take [of "[]" q vs] by (auto split: if_splits)

lemma ask_peers_caches: "ask_peers L ps s = Some (asked, s') \<Longrightarrow> caches_only s s'"
proof (induction ps arbitrary: s asked)
  case (Cons p ps)
  obtain pid peer where p: "p = (pid, peer)" by fastforce
  obtain h s1 where h: "GetHostNTXN L s (peerId peer) = (h, s1)" by fastforce
  have "caches_only s s1" using h by (rule GetHostNTXN_caches)
  moreover have "caches_only s1 s'" using Cons h p by (cases h) (auto simp: bind_eq_Some_conv)
  ultimately show ?case by (rule caches_only_trans)
qed auto

text \<open>A granted vote signed with the key of the node it came from.\<close>

definition vote_for :: "'db lib \<Rightarrow> 'db BFTRaftServer \<Rightarrow> u64 \<Rightarrow> RequestVoteResponse \<Rightarrow> bool" where
  "vote_for L s n v \<longleftrightarrow> voteGranted v \<and>
     (\<exists>pk. pubkey L s n = Some pk \<and> VerifySign L pk (voteSignature v) (RequestVoteResponseSignData v))"

lemma granted_votes_counted:
  assumes "granted_votes L e answers s = Some (votes, s')"
  shows "caches_only s s' \<and> (\<exists>counted. subseq counted answers \<and> votes = map snd counted \<and> (\<forall>(n, v) \<in> set counted. vote_for L s n v))"
  using assms
proof (induction answers arbitrary: s votes)
  case (Cons a answers)
  obtain n v where a: "a = (n, v)" by fastforce
  obtain pk s1 where k: "GetHostPublicKey L s n = Some (Some pk, s1)"
    using Cons.prems a by (auto simp: bind_eq_Some_conv)
  have c: "caches_only s s1" using k by (rule GetHostPublicKey_caches)
  have same: "vote_for L s1 = vote_for L s" using pubkey_stable [OF k] by (simp add: vote_for_def fun_eq_iff)
  let ?ok = "VerifySign L pk (voteSignature v) (RequestVoteResponseSignData v) \<and> voteGranted v"
  obtain votes1 where v1: "granted_votes L e answers s1 = Some (votes1, s')" "votes = votes1 \<or> ?ok \<and> votes = v # votes1"
    using Cons.prems a k by (auto simp: bind_eq_Some_conv split: if_splits)
  obtain counted where IH: "caches_only s1 s'" "subseq counted answers" "votes1 = map snd counted" "\<forall>(n, v) \<in> set counted. vote_for L s n v"
    using Cons.IH [OF v1(1)] unfolding same by blast
  have this_vote: "vote_for L s n v" if ?ok using that k by (auto simp: vote_for_def pubkey_def)
  from v1(2) have "\<exists>counted. subseq counted (a # answers) \<and> votes = map snd counted \<and> (\<forall>(n, v) \<in> set counted. vote_for L s n v)"
  proof
    assume "votes = votes1"
    with IH show ?thesis by (intro exI [of _ counted]) (auto intro: list_emb_Cons)
  next
    assume "?ok \<and> votes = v # votes1"
    with IH this_vote a show ?thesis by (intro exI [of _ "a # counted"]) auto
  qed
  with caches_only_trans [OF c IH(1)] show ?case by blast
qed auto

lemma granted_votes_spec:
  assumes "granted_votes L e answers s = Some (votes, s')"
  shows "caches_only s s'" and "v \<in> set votes \<Longrightarrow> \<exists>n. (n, v) \<in> set answers \<and> vote_for L s n v"
proof -
  obtain counted where c: "caches_only s s'" "subseq counted answers" "votes = map snd counted" "\<forall>(n, v) \<in> set counted. vote_for L s n v"
    using granted_votes_counted [OF assms] by blast
  show "caches_only s s'" by (rule c(1))
  have "set counted \<subseteq> set answers" using c(2) by (auto dest: list_emb_set)
  with c(3,4) show "v \<in> set votes \<Longrightarrow> \<exists>n. (n, v) \<in> set answers \<and> vote_for L s n v" by fastforce
qed

lemma late_votes_cases:
  assumes "late_votes L e q earlier answers m s = Some s'"
  obtains (waiting) "caches_only s s'"
  | (enough) s1 votes where "caches_only s s1" "s' = set_rt m ((rt s1 m)\<lparr>rtVotes := votes\<rparr>) s1"
proof -
  obtain received s1 where r: "granted_votes L e answers s = Some (received, s1)"
    "s' = (case collect_votes q received earlier of None \<Rightarrow> s1 | Some votes \<Rightarrow> set_rt m ((rt s1 m)\<lparr>rtVotes := votes\<rparr>) s1)"
    using assms by (auto simp: late_votes_def bind_eq_Some_conv)
  have c: "caches_only s s1" using r(1) by (rule granted_votes_spec(1))
  show ?thesis
  proof (cases "collect_votes q received earlier")
    case None
    with waiting r(2) c show ?thesis by simp
  next
    case (Some votes)
    with enough [OF c, of votes] r(2) show ?thesis by simp
  qed
qed

text \<open>The votes of an old election become those of the present term: neither the role nor the term of the group is looked at.\<close>

lemma late_votes_stored:
  assumes "granted_votes L e answers s = Some (received, s1)" "collect_votes q received earlier = Some votes" "m < length (srvRTGroups s)"
  shows "\<exists>s'. late_votes L e q earlier answers m s = Some s' \<and> rt s' m = (rt s m)\<lparr>rtVotes := votes\<rparr>"
  using assms(2,3) unfolding late_votes_def assms(1) by (simp add: caches_only_sel [OF granted_votes_spec(1) [OF assms(1)]])

lemma counted_prefix:
  assumes "caches_only s s' \<and> (\<exists>counted. subseq counted answers \<and> received = map snd counted \<and> (\<forall>(n, v) \<in> set counted. P n v))"
    and "votes = take k received"
  shows "\<exists>counted. subseq counted answers \<and> votes = map snd counted \<and> (\<forall>(n, v) \<in> set counted. P n v)"
proof -
  obtain counted where c: "subseq counted answers" "received = map snd counted" "\<forall>(n, v) \<in> set counted. P n v"
    using assms(1) by blast
  have "subseq (take k counted) answers" using c(1) prefix_imp_subseq [OF take_is_prefix] by (rule subseq_order.trans [rotated])
  then show ?thesis using c assms(2) by (intro exI [of _ "take k counted"]) (auto simp: take_map dest: in_set_takeD)
qed

lemma granted_votes_length:
  "granted_votes L e answers s = Some (votes, s') \<Longrightarrow> length votes \<le> length (filter (\<lambda>(n, v). voteGranted v) answers)"
proof (induction answers arbitrary: s votes)
  case (Cons a answers)
  obtain n v where a: "a = (n, v)" by fastforce
  obtain pk s1 votes1 where "granted_votes L e answers s1 = Some (votes1, s')" "votes = votes1 \<or> voteGranted v \<and> votes = v # votes1"
    using Cons.prems a by (auto simp: bind_eq_Some_conv split: if_splits)
  with Cons.IH [of s1 votes1] a show ?case by auto
qed auto

section \<open>Becoming a candidate\<close>

text \<open>The group of a server that has just started an election.\<close>

definition candidate :: "RTGroup \<Rightarrow> RTGroup" where
  "candidate r = r\<lparr>rtRole := CANDIDATE, rtGroup := (rtGroup r)\<lparr>grpTerm := grpTerm (rtGroup r) + 1\<rparr>, rtVotes := [],
     rtLastVotedTerm := 0, rtLastVotedTo := 0,
     rtSendVotesForPeers := rtSendVotesForPeers r ++ map_of (map (\<lambda>(peerId, p). (peerId, True)) (rtGroupPeers r))\<rparr>"

text \<open>
  What handling other messages does to a group: it never makes the server a leader or a candidate, and it leaves the term of a candidate.
\<close>

definition no_promotion :: "nat \<Rightarrow> 'db BFTRaftServer \<Rightarrow> 'db BFTRaftServer \<Rightarrow> bool" where
  "no_promotion m s s' \<longleftrightarrow> (m < length (srvRTGroups s) \<longrightarrow> m < length (srvRTGroups s') \<and> srvId s' = srvId s \<and>
     (rtRole (rt s' m) = LEADER \<longrightarrow> rtRole (rt s m) = LEADER) \<and>
     (rtRole (rt s' m) = CANDIDATE \<longrightarrow> rtRole (rt s m) = CANDIDATE \<and> grpTerm (rtGroup (rt s' m)) = grpTerm (rtGroup (rt s m))))"

lemma no_promotionD:
  assumes "no_promotion m s s'" "m < length (srvRTGroups s)"
  shows "m < length (srvRTGroups s')" "srvId s' = srvId s" "rtRole (rt s' m) = LEADER \<Longrightarrow> rtRole (rt s m) = LEADER"
    "rtRole (rt s' m) = CANDIDATE \<Longrightarrow> rtRole (rt s m) = CANDIDATE"
    "rtRole (rt s' m) = CANDIDATE \<Longrightarrow> grpTerm (rtGroup (rt s' m)) = grpTerm (rtGroup (rt s m))"
  using assms by (simp_all add: no_promotion_def)

lemma no_promotion_keeps:
  "(\<And>t. no_promotion m t (env t)) \<Longrightarrow> \<forall>t. m < length (srvRTGroups t) \<longrightarrow> m < length (srvRTGroups (env t))"
  by (blast dest: no_promotionD(1))

lemma no_promotion_refl [simp, intro]: "no_promotion m s s"
  by (simp add: no_promotion_def)

lemma no_promotion_trans [trans]: "no_promotion m s t \<Longrightarrow> no_promotion m t u \<Longrightarrow> no_promotion m s u"
  by (auto simp: no_promotion_def)

context libraries
begin

lemma BecomeLeader_frame:
  assumes "BecomeLeader L C hnet m s = Some s'" "m < length (srvRTGroups s)"
  shows "\<exists>ps t v. rt s' m = (rt s m)\<lparr>rtRole := LEADER, rtLeader := srvId s, rtGroupPeers := ps, rtTimeout := t, rtSendVotesForPeers := v\<rparr>"
    and "logs_eq L (srvDB s) (srvDB s')" and "m < length (srvRTGroups s')"
proof -
  let ?s1 = "set_rt m ((rt s m)\<lparr>rtRole := LEADER, rtLeader := srvId s\<rparr>) s"
  let ?s2 = "snd (updateDB L ?s1 (\<lambda>txn. SaveGroup L txn (rtGroup (rt ?s1 m))))"
  have h: "SendFollowersHeartbeat L C hnet m ?s2 = Some s'" using assms(1) by (simp add: BecomeLeader_def Let_def)
  have 1: "hb_frame L ?s1 ?s2" by (rule updateDB_hb_frame [OF surjective_pairing]) (rule SaveGroup_logs)
  have 2: "hb_frame L ?s2 s'" using h by (rule SendFollowersHeartbeat_frame)
  have f: "hb_frame L ?s1 s'" using 1 2 by (rule hb_frame_trans)
  then obtain ps t v where "rt s' m = (rt ?s1 m)\<lparr>rtGroupPeers := ps, rtTimeout := t, rtSendVotesForPeers := v\<rparr>"
    using assms(2) unfolding hb_frame_def set_rt_sel by blast
  then show "\<exists>ps t v. rt s' m = (rt s m)\<lparr>rtRole := LEADER, rtLeader := srvId s, rtGroupPeers := ps, rtTimeout := t, rtSendVotesForPeers := v\<rparr>"
    using assms(2) by auto
  show "logs_eq L (srvDB s) (srvDB s')" "m < length (srvRTGroups s')" using f assms(2) by (simp_all add: hb_frame_def)
qed

lemma start_election:
  assumes "m < length (srvRTGroups s)"
  shows "rt (start_election L m s) m = candidate (rt s m)" "length (srvRTGroups (start_election L m s)) = length (srvRTGroups s)"
    "srvId (start_election L m s) = srvId s" "gid (start_election L m s) m = gid s m"
    "logs_eq L (srvDB s) (srvDB (start_election L m s))"
proof -
  let ?s0 = "set_rt m ((rt s m)\<lparr>rtRole := CANDIDATE\<rparr>) s"
  let ?s1 = "ResetTerm L m (grpTerm (rtGroup (rt ?s0 m)) + 1) ?s0"
  have s: "start_election L m s = snd (SaveGroupNTXN L ?s1 (rtGroup (rt ?s1 m)))" by (simp add: start_election_def Let_def)
  show "rt (start_election L m s) m = candidate (rt s m)" "gid (start_election L m s) m = gid s m"
    using assms by (simp_all add: s ResetTerm_rt candidate_def gid_def)
  show "length (srvRTGroups (start_election L m s)) = length (srvRTGroups s)" "srvId (start_election L m s) = srvId s"
    by (simp_all add: s)
  have "logs_eq L (srvDB ?s0) (srvDB ?s1)" by (rule ResetTerm_logs)
  also have "logs_eq L (srvDB ?s1) (srvDB (start_election L m s))" unfolding s by (rule SaveGroupNTXN_logs)
  finally show "logs_eq L (srvDB s) (srvDB (start_election L m s))" by simp
qed

lemma candidate_started:
  assumes "m < length (srvRTGroups s)" "caches_only (start_election L m s) s2"
  shows "m < length (srvRTGroups s2)" "rtRole (rt s2 m) = CANDIDATE" "srvId s2 = srvId s"
    "grpTerm (rtGroup (rt s2 m)) = grpTerm (rtGroup (rt s m)) + 1" "group_log L (srvDB s2) g = group_log L (srvDB s) g"
  using assms(1) start_election(1-3) [OF assms(1)] logs_eq_logs(1) [OF start_election(5) [OF assms(1)]]
  by (simp_all add: caches_only_sel [OF assms(2)] candidate_def)

lemma BecomeCandidate_cases:
  assumes b: "BecomeCandidate L C vnet hnet env m s = Some s'" and m: "m < length (srvRTGroups s)"
    and keeps: "\<forall>t. m < length (srvRTGroups t) \<longrightarrow> m < length (srvRTGroups (env t))"
  defines "s1 \<equiv> start_election L m s"
  defines "req \<equiv> vote_request L m (LastLogEntry L (srvDB s1) (gid s1 m)) s1"
  obtains (waiting) asked s2 votes where "ask_peers L (rtGroupPeers (rt s m)) s1 = Some (asked, s2)" "caches_only s1 s2"
      "logs_eq L (srvDB (env s2)) (srvDB s')"
      "rt s' m = (rt (env s2) m)\<lparr>rtVotes := votes, rtTimeout := clkNow C + RandomTimeout C 25\<rparr>"
  | (elected) asked s2 votes ps ss where "ask_peers L (rtGroupPeers (rt s m)) s1 = Some (asked, s2)" "caches_only s1 s2"
      "logs_eq L (srvDB (env s2)) (srvDB s')" "rtRole (rt (env s2) m) = CANDIDATE"
      "rt s' m = (rt (env s2) m)\<lparr>rtRole := LEADER, rtLeader := srvId (env s2), rtVotes := votes, rtGroupPeers := ps,
         rtSendVotesForPeers := ss, rtTimeout := clkNow C + RandomTimeout C 25\<rparr>"
      "int (length votes) = ExpectedHonestPeers (rt s m)"
      "length votes \<le> length (filter (\<lambda>(n, v). voteGranted v) (vnet req asked))"
      "\<And>v. v \<in> set votes \<Longrightarrow> \<exists>n. (n, v) \<in> set (vnet req asked) \<and> vote_for L (env s2) n v"
      "\<exists>counted. subseq counted (vnet req asked) \<and> votes = map snd counted \<and> (\<forall>(n, v) \<in> set counted. vote_for L (env s2) n v)"
proof -
  note st = start_election [OF m, folded s1_def]
  have ps: "rtGroupPeers (candidate (rt s m)) = rtGroupPeers (rt s m)" by (simp add: candidate_def)
  obtain asked s2 received s3 where ask: "ask_peers L (rtGroupPeers (rt s m)) s1 = Some (asked, s2)"
    and got: "granted_votes L (LastLogEntry L (srvDB s1) (gid s1 m)) (vnet req asked) (env s2) = Some (received, s3)"
    using b by (auto simp: BecomeCandidate_def Let_def bind_eq_Some_conv st(1) ps simp flip: s1_def req_def)
  have c: "caches_only s1 s2" using ask by (rule ask_peers_caches)
  have f: "caches_only (env s2) s3" using got by (rule granted_votes_spec(1))
  have m3: "m < length (srvRTGroups s3)" using m keeps by (simp add: caches_only_sel [OF f] caches_only_sel [OF c] st)
  have e: "ExpectedHonestPeers (rt s2 m) = ExpectedHonestPeers (rt s m)" "0 < ExpectedHonestPeers (rt s m)"
    using ep.positive by (simp_all add: caches_only_sel [OF c] st(1) candidate_def ExpectedHonestPeers_def)
  have same: "rt s3 = rt (env s2)" "srvDB s3 = srvDB (env s2)" "srvId s3 = srvId (env s2)" by (simp_all add: caches_only_sel [OF f])
  show ?thesis
  proof (cases "collect_votes (ExpectedHonestPeers (rt s m)) received []")
    case None
    then have "s' = RefreshTimer C m 25 s3" using b ask got e(1)
      by (simp add: BecomeCandidate_def Let_def bind_eq_Some_conv st(1) ps flip: s1_def req_def)
    then have "rt s' m = (rt (env s2) m)\<lparr>rtVotes := rtVotes (rt (env s2) m), rtTimeout := clkNow C + RandomTimeout C 25\<rparr>"
        "logs_eq L (srvDB (env s2)) (srvDB s')"
      using m3 by (simp_all add: RefreshTimer_def same)
    then show ?thesis using ask c by (intro waiting)
  next
    case (Some votes)
    let ?s4 = "set_rt m ((rt s3 m)\<lparr>rtVotes := votes\<rparr>) s3"
    show ?thesis
    proof (cases "rtRole (rt (env s2) m) = CANDIDATE")
      case False
      then have "s' = RefreshTimer C m 25 ?s4" using b ask got e(1) Some m3
        by (simp add: BecomeCandidate_def Let_def bind_eq_Some_conv st(1) ps same flip: s1_def req_def)
      then have "rt s' m = (rt (env s2) m)\<lparr>rtVotes := votes, rtTimeout := clkNow C + RandomTimeout C 25\<rparr>"
          "logs_eq L (srvDB (env s2)) (srvDB s')"
        using m3 by (simp_all add: RefreshTimer_def same)
      then show ?thesis using ask c by (intro waiting)
    next
      case True
      then obtain s5 where bl: "BecomeLeader L C hnet m ?s4 = Some s5" and s': "s' = RefreshTimer C m 25 (RefreshTimer C m 1 s5)"
        using b ask got e(1) Some m3
        by (auto simp: BecomeCandidate_def Let_def bind_eq_Some_conv st(1) ps same simp flip: s1_def req_def)
      obtain ps t ss where r5: "rt s5 m = (rt (env s2) m)\<lparr>rtVotes := votes, rtRole := LEADER, rtLeader := srvId (env s2),
          rtGroupPeers := ps, rtTimeout := t, rtSendVotesForPeers := ss\<rparr>"
        using BecomeLeader_frame(1) [OF bl] m3 by (auto simp: same)
      note l5 = BecomeLeader_frame(2,3) [OF bl]
      note cv = collect_votes_Some [OF e(2) Some]
      have lv: "length votes \<le> length received"
        using Some collect_votes_take [of "[]" "ExpectedHonestPeers (rt s m)" received] e(2) by (auto split: if_splits)
      have "logs_eq L (srvDB (env s2)) (srvDB s')" using l5(1) m3 by (simp add: s' same)
      moreover have "rt s' m = (rt (env s2) m)\<lparr>rtRole := LEADER, rtLeader := srvId (env s2), rtVotes := votes, rtGroupPeers := ps,
         rtSendVotesForPeers := ss, rtTimeout := clkNow C + RandomTimeout C 25\<rparr>"
        using l5(2) m3 r5 by (cases "rt (env s2) m") (simp add: s' RefreshTimer_def)
      moreover have "\<exists>counted. subseq counted (vnet req asked) \<and> votes = map snd counted \<and>
          (\<forall>(n, v) \<in> set counted. vote_for L (env s2) n v)"
        using granted_votes_counted [OF got] collect_votes_prefix [OF e(2) Some] by (rule counted_prefix)
      ultimately show ?thesis using ask c True cv lv granted_votes_length [OF got] granted_votes_spec(2) [OF got]
        by (intro elected [where asked = asked and ?s2.0 = s2 and votes = votes and ps = ps and ss = ss]) auto
    qed
  qed
qed

end

section \<open>Who can be elected\<close>

lemma stale_request_refused:
  assumes "rvTerm req \<le> grpTerm (rtGroup (rt s m))" "RequestVote L polls s m req = Some (vote, s')"
  shows "\<not> voteGranted vote"
  using assms(2) assms(1) by (cases rule: RequestVote_cases) (auto simp: may_grant_def)

lemma own_vote_refused:
  assumes "m < length (srvRTGroups s)" and "s1 = start_election L m s" and "req = vote_request L m e s1"
    and "RequestVote L polls s1 m req = Some (vote, s')"
  shows "\<not> voteGranted vote"
  using assms(4) by (rule stale_request_refused [rotated]) (simp add: assms(3) vote_request_def Let_def)

text \<open>Every node that was asked answers at most once, and nobody else does.\<close>

definition one_answer_each :: "vote_net \<Rightarrow> bool" where
  "one_answer_each vnet \<longleftrightarrow> (\<forall>req asked. distinct (map fst (vnet req asked)) \<and> fst ` set (vnet req asked) \<subseteq> fst ` set asked)"

lemma ask_peers_ids: "ask_peers L ps s = Some (asked, s') \<Longrightarrow> fst ` set asked \<subseteq> (peerId \<circ> snd) ` set ps"
proof (induction ps arbitrary: s asked)
  case (Cons p ps)
  obtain pid peer where p: "p = (pid, peer)" by fastforce
  obtain h s1 where h: "GetHostNTXN L s (peerId peer) = (h, s1)" by fastforce
  with Cons.prems p obtain asked1 where "ask_peers L ps s1 = Some (asked1, s')"
      "asked = asked1 \<or> (\<exists>a. asked = (peerId peer, a) # asked1)"
    by (cases h) (auto simp: bind_eq_Some_conv split: if_splits)
  then show ?case using Cons.IH [of s1 asked1] p by (auto dest!: subsetD)
qed auto

lemma few_granted:
  assumes "distinct (map fst answers)" "fst ` set answers \<subseteq> P" "finite P" "i \<in> P"
    and "\<And>v. (i, v) \<in> set answers \<Longrightarrow> \<not> voteGranted v"
  shows "length (filter (\<lambda>(n, v). voteGranted v) answers) < card P"
proof -
  let ?F = "filter (\<lambda>(n, v). voteGranted v) answers"
  have "distinct (map fst ?F)" using assms(1) by (rule distinct_map_filter)
  then have "length ?F = card (set (map fst ?F))" by (metis distinct_card length_map)
  also have "set (map fst ?F) \<subseteq> P - {i}" using assms(2,5) by auto
  then have "card (set (map fst ?F)) \<le> card (P - {i})" using assms(3) by (intro card_mono) auto
  also have "\<dots> < card P" using assms(3,4) by (rule card_Diff1_less)
  finally show ?thesis .
qed

context libraries
begin

lemma elected_needs_three:
  assumes b: "BecomeCandidate L C vnet hnet env m s = Some s'" and m: "m < length (srvRTGroups s)" and waits: "\<And>t. no_promotion m t (env t)"
    and wf: "peers_wf (rt s m)" "srvId s \<in> peer_ids (rt s m)" and net: "one_answer_each vnet"
    and self: "\<And>req asked v. (srvId s, v) \<in> set (vnet req asked) \<Longrightarrow> \<not> voteGranted v"
    and leader: "rtRole (rt s' m) = LEADER"
  shows "3 \<le> length (rtGroupPeers (rt s m))"
  using b m no_promotion_keeps [OF waits]
proof (cases rule: BecomeCandidate_cases)
  case (waiting asked s2 votes)
  then show ?thesis using leader no_promotionD(3) [OF waits [of s2]] candidate_started(1,2) [OF m waiting(2)] by auto
next
  case (elected asked s2 votes ps ss)
  let ?answers = "vnet (vote_request L m (LastLogEntry L (srvDB (start_election L m s)) (gid (start_election L m s) m))
      (start_election L m s)) asked"
  have ids: "(peerId \<circ> snd) ` set (rtGroupPeers (rt s m)) = peer_ids (rt s m)"
    using wf(1) unfolding peers_wf_def peer_ids_def by (intro image_cong) auto
  have "fst ` set ?answers \<subseteq> peer_ids (rt s m)"
  proof -
    have "fst ` set ?answers \<subseteq> fst ` set asked" using net unfolding one_answer_each_def by blast
    also have "\<dots> \<subseteq> (peerId \<circ> snd) ` set (rtGroupPeers (rt s m))" using elected(1) by (rule ask_peers_ids)
    finally show ?thesis using ids by simp
  qed
  moreover have "distinct (map fst ?answers)" using net by (auto simp: one_answer_each_def)
  ultimately have "length (filter (\<lambda>(n, v). voteGranted v) ?answers) < card (peer_ids (rt s m))"
    using wf(2) self by (intro few_granted) auto
  then have "length votes < length (rtGroupPeers (rt s m))" using elected(7) card_peer_ids [OF wf(1)] by simp
  then show ?thesis using elected(6) by (simp add: ExpectedHonestPeers_def ExpectedPlayers_eq)
qed

end

section \<open>The time wheel\<close>

lemma TimeWheel_sleeps: "clkNow C < rtTimeout (rt s m) \<Longrightarrow> TimeWheel_round L C N env m s = Some s"
  by (simp add: TimeWheel_round_def)

text \<open>A follower that is recorded as its own leader, as \<^verbatim>\<open>ScanHostedGroups\<close> sets up for a group of one, panics.\<close>

lemma TimeWheel_own_follower:
  "rtTimeout (rt s m) \<le> clkNow C \<Longrightarrow> rtRole (rt s m) = FOLLOWER \<Longrightarrow> rtLeader (rt s m) = srvId s \<Longrightarrow>
   TimeWheel_round L C N env m s = None"
  by (simp add: TimeWheel_round_def)

end
