(* ===== verification/Server.thy ===== *)
theory Server
  imports Election
begin

text \<open>
  The RPC handlers of a server (\<^verbatim>\<open>server/bftraft.go\<close>, with the handlers of a group they call in \<^verbatim>\<open>server/group.go\<close>):
  \<^verbatim>\<open>ExecCommand\<close>, the dispatch of the RPCs to the group they name, and the handlers that only read.  An RPC error and a
  refused request are \<open>None\<close> in the result; a panic is \<open>None\<close> of the whole.
\<close>

section \<open>Executing a command\<close>

definition exec_response :: "'db lib \<Rightarrow> CommandRequest \<Rightarrow> 'db BFTRaftServer \<Rightarrow> CommandResponse" where
  "exec_response L cmd s = \<lparr>crGroup = cmdGroup cmd, crLeaderId = 0, crNodeId = srvId s, crRequestId = cmdRequestId cmd,
     crSignature = serverSign L s (CommandSignData (cmdGroup cmd) (srvId s) (cmdRequestId cmd) []), crResult = []\<rparr>"

text \<open>The entry the leader makes for a command.\<close>

definition new_entry :: "'db lib \<Rightarrow> nat \<Rightarrow> CommandRequest \<Rightarrow> 'db BFTRaftServer \<Rightarrow> LogEntry" where
  "new_entry L m cmd s =
     (let index = LastEntryIndex L (srvDB s) (gid s m) + 1;
          hash = LogHash (LastEntryHash L (srvDB s) (gid s m)) index (cmdFuncId cmd) (cmdArg cmd)
      in \<lparr>leTerm = grpTerm (rtGroup (rt s m)), leIndex = index, leHash = hash, leCommand = Some cmd\<rparr>)"

text \<open>A command that registers a new host is accepted as it is, any other when its client has signed it.\<close>

definition exec_authorise :: "'db lib \<Rightarrow> CommandRequest \<Rightarrow> 'db BFTRaftServer \<Rightarrow> (bool \<times> 'db BFTRaftServer) option" where
  "exec_authorise L cmd s =
     (let (host, s) = GetHostNTXN L s (cmdClientId cmd);
          isRegNewNode = (host = None \<and> cmdGroup cmd = ALPHA_GROUP \<and> cmdFuncId cmd = REG_NODE)
      in if isRegNewNode then Some (True, s) else VerifyCommandSign L s cmd)"

text \<open>The transaction that makes the entry and appends it; an error of \<^verbatim>\<open>AppendEntryToLocal\<close> is the transaction's.\<close>

definition exec_append ::
  "'db lib \<Rightarrow> nat \<Rightarrow> CommandRequest \<Rightarrow> 'db BFTRaftServer \<Rightarrow> (append_error update_error option \<times> 'db BFTRaftServer) option" where
  "exec_append L m cmd s = do {
     r \<leftarrow> AppendEntryToLocal L (gid s m) (srvDB s) (new_entry L m cmd s);
     Some (updateDB L s (\<lambda>txn. r))
   }"

text \<open>The leader's branch once the command is accepted: append, send the heartbeat, commit.\<close>

definition exec_accepted ::
  "'db lib \<Rightarrow> clock \<Rightarrow> ae_net \<Rightarrow> nat \<Rightarrow> CommandRequest \<Rightarrow> CommandResponse \<Rightarrow> 'db BFTRaftServer \<Rightarrow>
   (CommandResponse \<times> 'db BFTRaftServer) option" where
  "exec_accepted L C net m cmd response s =
     (let response = response\<lparr>crLeaderId := srvId s\<rparr>; logEntry = new_entry L m cmd s in do {
        (err, s) \<leftarrow> exec_append L m cmd s;
        case err of
          Some e \<Rightarrow> Some (response, s)
        | None \<Rightarrow> do {
            s \<leftarrow> SendFollowersHeartbeat L C net m s;
            if length (rtGroupPeers (rt s m)) < 2 \<or> WaitLogApproved (leIndex logEntry)
            then do {
              (result, s) \<leftarrow> CommitGroupLog L (clkNow C) logEntry s;
              Some (response\<lparr>crResult := result\<rparr>, s)
            }
            else Some (response, s)
          }
      })"

definition exec_leader ::
  "'db lib \<Rightarrow> clock \<Rightarrow> ae_net \<Rightarrow> nat \<Rightarrow> CommandRequest \<Rightarrow> CommandResponse \<Rightarrow> 'db BFTRaftServer \<Rightarrow>
   (CommandResponse \<times> 'db BFTRaftServer) option" where
  "exec_leader L C net m cmd response s = do {
     (accepted, s) \<leftarrow> exec_authorise L cmd s;
     if accepted then exec_accepted L C net m cmd response s else Some (response, s)
   }"

text \<open>
  A server that does not lead the group forwards the command to the leader, or, when it does not host the group, to the
  first member in the order of a map iteration; \<open>fwd\<close> is the answer of the other server.  An unknown host is a nil
  dereference.
\<close>

definition exec_target ::
  "'db lib \<Rightarrow> (u64 \<times> Peer) map_order \<Rightarrow> nat option \<Rightarrow> u64 \<Rightarrow> 'db BFTRaftServer \<Rightarrow> (Host option \<times> 'db BFTRaftServer) option" where
  "exec_target L ord meta groupId s = (case meta of
     Some m \<Rightarrow> Some (GetHostNTXN L s (rtLeader (rt s m)))
   | None \<Rightarrow> do {
       peers \<leftarrow> GetGroupPeersFromKV L (srvDB s) groupId;
       Some (case ord peers of [] \<Rightarrow> (None, s) | (pid, peer) # rest \<Rightarrow> GetHost L s (srvDB s) pid)
     })"

definition ExecCommand ::
  "'db lib \<Rightarrow> clock \<Rightarrow> ae_net \<Rightarrow> (string \<Rightarrow> CommandRequest \<Rightarrow> CommandResponse option) \<Rightarrow> (u64 \<times> Peer) map_order \<Rightarrow>
   'db BFTRaftServer \<Rightarrow> CommandRequest \<Rightarrow> (CommandResponse option \<times> 'db BFTRaftServer) option" where
  "ExecCommand L C net fwd ord s cmd =
     (let response = exec_response L cmd s; meta = GetOnboardGroup s (cmdGroup cmd);
          sign = (\<lambda>response s. response\<lparr>crSignature := serverSign L s (CommandSignData (crGroup response)
            (crNodeId response) (crRequestId response) (crResult response))\<rparr>)
      in case meta of
        Some m \<Rightarrow>
          if rtLeader (rt s m) = srvId s
          then do {
            (response, s) \<leftarrow> exec_leader L C net m cmd response s;
            Some (Some (sign response s), s)
          }
          else do {
            (host, s) \<leftarrow> exec_target L ord meta (cmdGroup cmd) s;
            node \<leftarrow> host;
            Some (if GetClusterRPC L (hostServerAddr node) then (fwd (hostServerAddr node) cmd, s)
                  else (Some (sign response s), s))
          }
      | None \<Rightarrow> do {
            (host, s) \<leftarrow> exec_target L ord meta (cmdGroup cmd) s;
            node \<leftarrow> host;
            Some (if GetClusterRPC L (hostServerAddr node) then (fwd (hostServerAddr node) cmd, s)
                  else (Some (sign response s), s))
          })"

section \<open>Dispatch to a group\<close>

definition rpc_AppendEntries ::
  "'db lib \<Rightarrow> clock \<Rightarrow> 'db BFTRaftServer \<Rightarrow> AppendEntriesRequest \<Rightarrow> ((ae_error + AppendEntriesResponse) \<times> 'db BFTRaftServer) option" where
  "rpc_AppendEntries L C s req = (case GetOnboardGroup s (aeGroup req) of
     None \<Rightarrow> Some (Inl GroupNotOnboard, s)
   | Some m \<Rightarrow> AppendEntries L C s m req)"

text \<open>Approval is not implemented: the group's handler answers every request with a failure.\<close>

definition ApproveAppend :: "'db BFTRaftServer \<Rightarrow> nat \<Rightarrow> AppendEntriesResponse \<Rightarrow> ApproveAppendResponse" where
  "ApproveAppend s m req = \<lparr>aaGroup = arGroup req, aaPeer = srvId s, aaIndex = arIndex req, aaAppended = False,
     aaDelayed = False, aaFailed = True, aaSignature = []\<rparr>"

definition rpc_ApproveAppend :: "'db BFTRaftServer \<Rightarrow> AppendEntriesResponse \<Rightarrow> ApproveAppendResponse option" where
  "rpc_ApproveAppend s req = (case GetOnboardGroup s (arGroup req) of None \<Rightarrow> None | Some m \<Rightarrow> Some (ApproveAppend s m req))"

definition rpc_RequestVote ::
  "'db lib \<Rightarrow> (nat \<Rightarrow> 'db BFTRaftServer) \<Rightarrow> 'db BFTRaftServer \<Rightarrow> RequestVoteRequest \<Rightarrow>
   (RequestVoteResponse option \<times> 'db BFTRaftServer) option" where
  "rpc_RequestVote L polls s req = (case GetOnboardGroup s (rvGroup req) of
     None \<Rightarrow> Some (None, s)
   | Some m \<Rightarrow> do {
       (vote, s) \<leftarrow> RequestVote L polls s m req;
       Some (Some vote, s)
     })"

section \<open>Reading\<close>

definition GroupHosts :: "'db lib \<Rightarrow> 'db BFTRaftServer \<Rightarrow> u64 \<Rightarrow> (GroupNodesResponse \<times> 'db BFTRaftServer) option" where
  "GroupHosts L s groupId = do {
     (result, s) \<leftarrow> GetGroupHostsNTXN L s groupId;
     Some (\<lparr>gnrNodes = result, gnrSignature = serverSign L s (NodesSignData L result)\<rparr>, s)
   }"

fun members_loop ::
  "'db lib \<Rightarrow> (u64 \<times> Peer) list \<Rightarrow> GroupMember list \<Rightarrow> 'db BFTRaftServer \<Rightarrow> GroupMember list \<times> 'db BFTRaftServer" where
  "members_loop L [] members s = (members, s)"
| "members_loop L ((pid, p) # peers) members s = (case GetHostNTXN L s (peerId p) of
     (None, s) \<Rightarrow> members_loop L peers members s
   | (Some host, s) \<Rightarrow> members_loop L peers (members @ [\<lparr>gmHost = Some host, gmPeer = Some p\<rparr>]) s)"

definition RPCGroupMembers :: "'db lib \<Rightarrow> 'db BFTRaftServer \<Rightarrow> nat \<Rightarrow> GroupMembersResponse \<times> 'db BFTRaftServer" where
  "RPCGroupMembers L s m =
     (let (members, s) = members_loop L (rtGroupPeers (rt s m)) [] s
      in (\<lparr>gmrLastEntry = LastLogEntry L (srvDB s) (gid s m), gmrMembers = members,
           gmrSignature = serverSign L s (GetMembersSignData L members)\<rparr>, s))"

definition GroupMembers :: "'db lib \<Rightarrow> 'db BFTRaftServer \<Rightarrow> u64 \<Rightarrow> GroupMembersResponse option \<times> 'db BFTRaftServer" where
  "GroupMembers L s groupId = (case GetOnboardGroup s groupId of
     None \<Rightarrow> (None, s)
   | Some m \<Rightarrow> (let (res, s) = RPCGroupMembers L s m in (Some res, s)))"

definition GetGroupContent :: "'db lib \<Rightarrow> 'db BFTRaftServer \<Rightarrow> u64 \<Rightarrow> RaftGroup option \<times> 'db BFTRaftServer" where
  "GetGroupContent L s groupId = GetGroupNTXN L s groupId"

definition rpc_GetGroupLeader ::
  "'db lib \<Rightarrow> (nat \<Rightarrow> nat) \<Rightarrow> 'db BFTRaftServer \<Rightarrow> u64 \<Rightarrow> (GroupLeader \<times> 'db BFTRaftServer) option" where
  "rpc_GetGroupLeader L pick s groupId = GroupLeader L pick s groupId"

text \<open>A send on a nil channel, when no \<^verbatim>\<open>NodeJoin\<close> waits for the group, blocks its goroutine for ever.\<close>

definition SendGroupInvitation :: "'db BFTRaftServer \<Rightarrow> GroupInvitation \<Rightarrow> 'db BFTRaftServer" where
  "SendGroupInvitation s iv = (case srvGroupInvitations s (invGroup iv) of
     None \<Rightarrow> s
   | Some c \<Rightarrow> s\<lparr>srvGroupInvitations := (srvGroupInvitations s)(invGroup iv \<mapsto> c @ [iv])\<rparr>)"

section \<open>Who may execute a command\<close>

text \<open>The table of hosted groups points to groups of the heap, under their own ids.\<close>

definition onboard_ok :: "'db BFTRaftServer \<Rightarrow> bool" where
  "onboard_ok s \<longleftrightarrow> (\<forall>g m. GetOnboardGroup s g = Some m \<longrightarrow> m < length (srvRTGroups s) \<and> gid s m = g)"

definition command_signed :: "'db lib \<Rightarrow> 'db BFTRaftServer \<Rightarrow> CommandRequest \<Rightarrow> bool" where
  "command_signed L s cmd \<longleftrightarrow>
     (\<exists>pk. pubkey L s (cmdClientId cmd) = Some pk \<and> VerifySign L pk (cmdSignature cmd) (ExecCommandSignData cmd))"

definition registers_host :: "'db lib \<Rightarrow> 'db BFTRaftServer \<Rightarrow> CommandRequest \<Rightarrow> bool" where
  "registers_host L s cmd \<longleftrightarrow>
     fst (GetHostNTXN L s (cmdClientId cmd)) = None \<and> cmdGroup cmd = ALPHA_GROUP \<and> cmdFuncId cmd = REG_NODE"

lemma VerifyCommandSign_iff: "VerifyCommandSign L s cmd = Some (b, s') \<Longrightarrow> b \<longleftrightarrow> command_signed L s cmd"
  by (auto simp: VerifyCommandSign_def command_signed_def pubkey_def bind_eq_Some_conv split: option.splits)

lemma new_entry_caches: "caches_only s s' \<Longrightarrow> new_entry L m cmd s' = new_entry L m cmd s"
  by (simp add: new_entry_def caches_only_sel Let_def)

lemma exec_authorise_spec:
  assumes "exec_authorise L cmd s = Some (b, s')"
  shows "caches_only s s'" "b \<longleftrightarrow> registers_host L s cmd \<or> command_signed L s cmd"
proof -
  obtain h s1 where h: "GetHostNTXN L s (cmdClientId cmd) = (h, s1)" by fastforce
  have reg: "registers_host L s cmd \<longleftrightarrow> h = None \<and> cmdGroup cmd = ALPHA_GROUP \<and> cmdFuncId cmd = REG_NODE"
    using h by (simp add: registers_host_def)
  have sig: "command_signed L s1 cmd \<longleftrightarrow> command_signed L s cmd" using pubkey_GetHost [OF h] by (simp add: command_signed_def)
  have "registers_host L s cmd \<and> b \<and> s' = s1 \<or> \<not> registers_host L s cmd \<and> VerifyCommandSign L s1 cmd = Some (b, s')"
    using assms h reg by (auto simp: exec_authorise_def split: if_splits)
  then show "caches_only s s'" "b \<longleftrightarrow> registers_host L s cmd \<or> command_signed L s cmd"
    using GetHostNTXN_caches [OF h] VerifyCommandSign_caches VerifyCommandSign_iff sig caches_only_trans by metis+
qed

text \<open>The leader appends nothing, or goes on with an accepted command after changes of its caches only.\<close>

lemma exec_leader_cases:
  assumes "exec_leader L C net m cmd response s = Some (r, s')"
  obtains (refused) "caches_only s s'" "r = response" "\<not> registers_host L s cmd" "\<not> command_signed L s cmd"
  | (accepted) s1 where "caches_only s s1" "registers_host L s cmd \<or> command_signed L s cmd"
      "exec_accepted L C net m cmd response s1 = Some (r, s')"
proof -
  obtain b s1 where a: "exec_authorise L cmd s = Some (b, s1)"
    "(if b then exec_accepted L C net m cmd response s1 else Some (response, s1)) = Some (r, s')"
    using assms by (auto simp: exec_leader_def bind_eq_Some_conv)
  with exec_authorise_spec [OF a(1)] refused accepted show ?thesis by (auto split: if_splits)
qed

lemma exec_target_caches:
  assumes "exec_target L ord meta g s = Some (h, s')"
  shows "caches_only s s'"
proof (cases meta)
  case None
  with assms obtain ps where t: "(case ord ps of [] \<Rightarrow> (None, s) | (pid, peer) # rest \<Rightarrow> GetHost L s (srvDB s) pid) = (h, s')"
    by (auto simp: exec_target_def bind_eq_Some_conv)
  then show ?thesis by (cases "ord ps") (auto dest: GetHost_caches)
next
  case (Some m)
  with assms show ?thesis by (auto simp: exec_target_def dest: GetHostNTXN_caches)
qed

section \<open>The leader's log\<close>

context libraries
begin

lemma exec_accepted_log:
  assumes a: "exec_accepted L C net m cmd response s = Some (r, s')" and m: "m < length (srvRTGroups s)"
    and ok: "log_ok L (srvDB s) (gid s m)" and small: "unat (LastEntryIndex L (srvDB s) (gid s m)) + 1 < 2 ^ 64"
  shows "\<exists>new. (new = [] \<or> new = [new_entry L m cmd s]) \<and> log_extends L (gid s m) (srvDB s) (srvDB s') new \<and>
      chained (last_hash (genesisHash (gid s m)) (group_log L (srvDB s) (gid s m))) new"
proof -
  let ?e = "new_entry L m cmd s"
  obtain ar where ar: "AppendEntryToLocal L (gid s m) (srvDB s) ?e = Some ar"
    using a by (auto simp: exec_accepted_def exec_append_def Let_def bind_eq_Some_conv)
  obtain u s1 where u: "updateDB L s (\<lambda>txn. ar) = (u, s1)" by fastforce
  show ?thesis
  proof (cases "u = None")
    case False
    with a ar u have "s' = s" using pull_append_local(2) [OF ar u] by (auto simp: exec_accepted_def exec_append_def Let_def)
    then show ?thesis using log_extends_logs_eq [OF ok] by (intro exI [of _ "[]"]) simp
  next
    case True
    have app: "append_local L m ?e s = Some s1" using pull_append_local(1) [OF ar u True] .
    obtain db1 where db1: "s1 = s\<lparr>srvDB := db1\<rparr>" using append_local_only_DB [OF app] by blast
    have "log_below L (srvDB s) (gid s m) (leIndex ?e)"
      using log_below_next [OF ok small] by (simp add: new_entry_def Let_def)
    from append_local_log [OF app ok this] obtain new where new: "new = [] \<or> new = [?e]"
      "log_extends L (gid s m) (srvDB s) (srvDB s1) new"
      "chained (last_hash (genesisHash (gid s m)) (group_log L (srvDB s) (gid s m))) new" by blast
    obtain s2 where s2: "SendFollowersHeartbeat L C net m s1 = Some s2"
      and rest: "s' = s2 \<or> (\<exists>res. CommitGroupLog L (clkNow C) ?e s2 = Some (res, s'))"
      using a ar u True by (auto simp: exec_accepted_def exec_append_def Let_def bind_eq_Some_conv split: if_splits)
    have "logs_eq L (srvDB s1) (srvDB s2)" using SendFollowersHeartbeat_frame [OF s2] by (simp add: hb_frame_def)
    moreover have "logs_eq L (srvDB s2) (srvDB s')"
      using rest CommitGroupLog_frame by (auto simp: sm_frame_def)
    ultimately have "logs_eq L (srvDB s1) (srvDB s')" by (rule logs_eq_trans)
    then have "log_extends L (gid s m) (srvDB s) (srvDB s') (new @ [])"
      using log_extends_trans [OF new(2) log_extends_logs_eq] log_extendsD(1) [OF new(2)] by blast
    then show ?thesis using new by auto
  qed
qed

lemma ExecCommand_log:
  assumes x: "ExecCommand L C net fwd ord s cmd = Some (r, s')" and wf: "onboard_ok s"
    and ok: "log_ok L (srvDB s) (cmdGroup cmd)" and small: "unat (LastEntryIndex L (srvDB s) (cmdGroup cmd)) + 1 < 2 ^ 64"
  shows "logs_eq L (srvDB s) (srvDB s') \<or>
     (\<exists>m. GetOnboardGroup s (cmdGroup cmd) = Some m \<and> rtLeader (rt s m) = srvId s \<and>
        (registers_host L s cmd \<or> command_signed L s cmd) \<and>
        (\<exists>new. (new = [] \<or> new = [new_entry L m cmd s]) \<and> log_extends L (cmdGroup cmd) (srvDB s) (srvDB s') new \<and>
           chained (last_hash (genesisHash (cmdGroup cmd)) (group_log L (srvDB s) (cmdGroup cmd))) new))"
proof (cases "\<exists>m. GetOnboardGroup s (cmdGroup cmd) = Some m \<and> rtLeader (rt s m) = srvId s")
  case True
  then obtain m where m: "GetOnboardGroup s (cmdGroup cmd) = Some m" "rtLeader (rt s m) = srvId s" by blast
  then have g: "m < length (srvRTGroups s)" "gid s m = cmdGroup cmd" using wf by (auto simp: onboard_ok_def)
  obtain r1 where "exec_leader L C net m cmd (exec_response L cmd s) s = Some (r1, s')"
    using x m by (auto simp: ExecCommand_def Let_def bind_eq_Some_conv)
  then show ?thesis
  proof (cases rule: exec_leader_cases)
    case refused
    then show ?thesis by (simp add: caches_only_sel)
  next
    case (accepted s1)
    note f = caches_only_sel [OF accepted(1)] new_entry_caches [OF accepted(1)]
    from exec_accepted_log [OF accepted(3)] obtain new where "new = [] \<or> new = [new_entry L m cmd s]"
      "log_extends L (cmdGroup cmd) (srvDB s) (srvDB s') new"
      "chained (last_hash (genesisHash (cmdGroup cmd)) (group_log L (srvDB s) (cmdGroup cmd))) new"
      using g ok small by (auto simp: f)
    with m accepted(2) show ?thesis by blast
  qed
next
  case False
  then obtain host where "exec_target L ord (GetOnboardGroup s (cmdGroup cmd)) (cmdGroup cmd) s = Some (host, s')"
    using x by (auto simp: ExecCommand_def Let_def bind_eq_Some_conv split: option.splits if_splits)
  then have "caches_only s s'" by (rule exec_target_caches)
  then show ?thesis by (simp add: caches_only_sel)
qed

section \<open>A group of one\<close>

text \<open>A heartbeat of a leader without followers sends nothing and returns.\<close>

lemma SendFollowersHeartbeat_alone:
  assumes "m < length (srvRTGroups s)" "rtGroupPeers (rt s m) = [(srvId s, p)]"
  shows "SendFollowersHeartbeat L C net m s = Some (RefreshTimer C m 1 s)"
proof -
  have "rtGroupPeers (rt (RefreshTimer C m 1 s) m) = [(srvId s, p)]" using assms by (simp add: RefreshTimer_def)
  then show ?thesis by (simp add: SendFollowersHeartbeat_def Let_def)
qed

text \<open>The leader's entry is always accepted by its own log.\<close>

lemma exec_append_accepts:
  assumes io: "no_io_errors L" and ok: "log_ok L (srvDB s) (gid s m)" and small: "unat (LastEntryIndex L (srvDB s) (gid s m)) + 1 < 2 ^ 64"
    and g: "cmdGroup cmd = gid s m"
  obtains db where "exec_append L m cmd s = Some (None, s\<lparr>srvDB := db\<rparr>)" "append_local L m (new_entry L m cmd s) s = Some (s\<lparr>srvDB := db\<rparr>)"
    "log_extends L (gid s m) (srvDB s) db [new_entry L m cmd s]"
proof -
  let ?e = "new_entry L m cmd s"
  have e: "leCommand ?e = Some cmd" "leIndex ?e = LastEntryIndex L (srvDB s) (gid s m) + 1"
    "chained (last_hash (genesisHash (gid s m)) (group_log L (srvDB s) (gid s m))) [?e]"
    by (simp_all add: new_entry_def Let_def LastEntryHash_log [OF ok])
  have below: "log_below L (srvDB s) (gid s m) (leIndex ?e)" using log_below_next [OF ok small] e(2) by simp
  obtain s1 where s1: "append_local L m ?e s = Some s1" "log_extends L (gid s m) (srvDB s) (srvDB s1) [?e]"
    using append_local_accepts [OF io ok below e(1) g e(3)] by blast
  obtain db where db: "s1 = s\<lparr>srvDB := db\<rparr>" using append_local_only_DB [OF s1(1)] by blast
  obtain ar where ar: "AppendEntryToLocal L (gid s m) (srvDB s) ?e = Some ar" using s1(1) by (auto simp: append_local_def bind_eq_Some_conv)
  have "updateDB L s (\<lambda>txn. ar) = (None, s1)"
  proof (cases ar)
    case (Inl err)
    with s1(1) ar have "s1 = snd (updateDB L s (\<lambda>txn. (Inr txn :: unit + _)))" by (simp add: append_local_def)
    then have "updateDB L s (\<lambda>txn. (Inr txn :: unit + _)) = (fst (updateDB L s (\<lambda>txn. (Inr txn :: unit + _))), s1)" by simp
    then have "logs_eq L (srvDB s) (srvDB s1)" by (rule updateDB_logs) auto
    then show ?thesis using s1(2) logs_eq_logs(1) [of "srvDB s" "srvDB s1" "gid s m"] by (simp add: log_extends_def)
  next
    case (Inr db')
    obtain db2 where "txnCommit L db' = Inr db2" using io unfolding no_io_errors_def by blast
    with s1(1) ar Inr show ?thesis by (simp add: append_local_def updateDB_def)
  qed
  with ar have "exec_append L m cmd s = Some (None, s1)" by (simp add: exec_append_def)
  with that s1 db show ?thesis by simp
qed

text \<open>Once the heartbeat is done, the command is committed.\<close>

lemma exec_accepted_returns:
  assumes app: "exec_append L m cmd s = Some (None, s1)" "log_extends L (gid s m) (srvDB s) (srvDB s1) [new_entry L m cmd s]" "srvFuncReg s1 = srvFuncReg s"
    and hb: "SendFollowersHeartbeat L C net m s1 = Some s2"
    and com: "committable (srvFuncReg s) (gid s m) (new_entry L m cmd s)"
  shows "\<exists>r s'. exec_accepted L C net m cmd response s = Some (r, s') \<and> crLeaderId r = srvId s \<and>
     CommitGroupLog L (clkNow C) (new_entry L m cmd s) s2 = Some (crResult r, s') \<and> srvFuncReg s2 = srvFuncReg s \<and>
     log_extends L (gid s m) (srvDB s) (srvDB s') [new_entry L m cmd s]"
proof -
  let ?e = "new_entry L m cmd s"
  have f: "logs_eq L (srvDB s1) (srvDB s2)" "srvFuncReg s2 = srvFuncReg s"
    using SendFollowersHeartbeat_frame [OF hb] app(3) by (simp_all add: hb_frame_def)
  obtain res s' where c: "CommitGroupLog L (clkNow C) ?e s2 = Some (res, s')"
    using CommitGroupLog_returns [of s2 "gid s m" ?e "clkNow C"] com f(2) by auto
  have "logs_eq L (srvDB s2) (srvDB s')" using CommitGroupLog_frame [OF c] by (simp add: sm_frame_def)
  with f(1) have "logs_eq L (srvDB s1) (srvDB s')" by (rule logs_eq_trans)
  then have "log_extends L (gid s m) (srvDB s) (srvDB s') ([?e] @ [])"
    using log_extends_trans [OF app(2) log_extends_logs_eq] log_extendsD(1) [OF app(2)] by blast
  moreover have "exec_accepted L C net m cmd response s = Some (response\<lparr>crLeaderId := srvId s, crResult := res\<rparr>, s')"
    using app(1) hb c by (simp add: exec_accepted_def Let_def WaitLogApproved_def)
  ultimately show ?thesis using c f(2) by auto
qed

text \<open>A command that is authorised is, and neither the keys nor the hosts change when it is.\<close>

lemma exec_authorise_accepts:
  assumes "registers_host L s cmd \<or> command_signed L s cmd" "keys_ok L s"
  obtains s' where "exec_authorise L cmd s = Some (True, s')" "caches_only s s'" "keys_ok L s'"
    "\<And>n. fst (GetHostNTXN L s' n) = fst (GetHostNTXN L s n)"
proof -
  obtain h s1 where h: "GetHostNTXN L s (cmdClientId cmd) = (h, s1)" by fastforce
  have same: "srvNodePublicKeys s1 = srvNodePublicKeys s" "fst (GetHostNTXN L s1 n) = fst (GetHostNTXN L s n)" for n
    using h GetHost_stable [of L s _ h s1 n] by (auto simp: GetHostNTXN_def GetHost_def Let_def split: option.splits sum.splits)
  have keys: "keys_ok L s1" using assms(2) unfolding keys_ok_def GetHostPublicKey_None same .
  obtain b0 s0 where "VerifyCommandSign L s1 cmd = Some (b0, s0)" using keys_ok_VerifyCommandSign [OF keys] by blast
  with h obtain b s2 where v: "exec_authorise L cmd s = Some (b, s2)" "s2 = s1 \<or> VerifyCommandSign L s1 cmd = Some (b, s2)"
    by (cases "h = None \<and> cmdGroup cmd = ALPHA_GROUP \<and> cmdFuncId cmd = REG_NODE") (auto simp: exec_authorise_def)
  have "keys_ok L s2 \<and> (\<forall>n. fst (GetHostNTXN L s2 n) = fst (GetHostNTXN L s1 n))" if "VerifyCommandSign L s1 cmd = Some (b, s2)"
  proof -
    obtain k s' where k: "GetHostPublicKey L s1 (cmdClientId cmd) = Some (k, s')" using keys by (force simp: keys_ok_def)
    with that have "s' = s2" by (cases k) (simp_all add: VerifyCommandSign_def)
    with k have "GetHostPublicKey L s1 (cmdClientId cmd) = Some (k, s2)" by simp
    then show ?thesis using keys_ok_GetHostPublicKey [OF keys] GetHostPublicKey_hosts(1) by metis
  qed
  then show ?thesis using that [of s2] exec_authorise_spec [OF v(1)] v assms(1) keys same(2) by auto
qed

lemma ExecCommand_accepted:
  assumes m: "GetOnboardGroup s (cmdGroup cmd) = Some m" "rtLeader (rt s m) = srvId s"
    and a: "exec_authorise L cmd s = Some (True, s1)" "exec_accepted L C net m cmd (exec_response L cmd s) s1 = Some (r, s')"
  obtains r' where "ExecCommand L C net fwd ord s cmd = Some (Some r', s')" "crLeaderId r' = crLeaderId r" "crResult r' = crResult r"
  using that [of "r\<lparr>crSignature := serverSign L s' (CommandSignData (crGroup r) (crNodeId r) (crRequestId r) (crResult r))\<rparr>"] m a
  by (simp add: ExecCommand_def exec_leader_def Let_def)

lemma ExecCommand_alone:
  assumes io: "no_io_errors L" and wf: "onboard_ok s" and m: "GetOnboardGroup s (cmdGroup cmd) = Some m" "rtLeader (rt s m) = srvId s"
    and ok: "log_ok L (srvDB s) (cmdGroup cmd)" "unat (LastEntryIndex L (srvDB s) (cmdGroup cmd)) + 1 < 2 ^ 64"
    and alone: "rtGroupPeers (rt s m) = [(srvId s, p)]"
    and fn: "srvFuncReg s (cmdFuncId cmd) = Some fn" "fn \<noteq> FnNodeJoin"
    and auth: "registers_host L s cmd \<or> keys_ok L s \<and> command_signed L s cmd"
  shows "\<exists>r s2 s'. ExecCommand L C net fwd ord s cmd = Some (Some r, s') \<and> crLeaderId r = srvId s \<and>
     CommitGroupLog L (clkNow C) (new_entry L m cmd s) s2 = Some (crResult r, s') \<and> srvFuncReg s2 = srvFuncReg s \<and>
     log_extends L (cmdGroup cmd) (srvDB s) (srvDB s') [new_entry L m cmd s]"
proof -
  have g: "m < length (srvRTGroups s)" "gid s m = cmdGroup cmd" using wf m by (auto simp: onboard_ok_def)
  obtain s2 where s2: "exec_authorise L cmd s = Some (True, s2)" "caches_only s s2"
  proof (cases "registers_host L s cmd")
    case True
    obtain h s1 where h: "GetHostNTXN L s (cmdClientId cmd) = (h, s1)" by fastforce
    with True that [of s1] GetHostNTXN_caches [OF h] show ?thesis by (auto simp: exec_authorise_def registers_host_def)
  qed (use auth exec_authorise_accepts that in metis)
  note f = caches_only_sel [OF s2(2)] new_entry_caches [OF s2(2)]
  obtain db where db: "exec_append L m cmd s2 = Some (None, s2\<lparr>srvDB := db\<rparr>)" "log_extends L (gid s m) (srvDB s) db [new_entry L m cmd s]"
    using exec_append_accepts [OF io, of s2 m cmd] ok g unfolding f by metis
  have hb: "SendFollowersHeartbeat L C net m (s2\<lparr>srvDB := db\<rparr>) = Some (RefreshTimer C m 1 (s2\<lparr>srvDB := db\<rparr>))"
    using SendFollowersHeartbeat_alone [of m "s2\<lparr>srvDB := db\<rparr>" p] g(1) alone f by (simp add: rt_def)
  have "committable (srvFuncReg s2) (gid s2 m) (new_entry L m cmd s2)" using g fn by (simp add: committable_def f new_entry_def Let_def)
  from exec_accepted_returns [OF db(1) _ _ hb this, of "exec_response L cmd s"] db(2) obtain r s' where
    "exec_accepted L C net m cmd (exec_response L cmd s) s2 = Some (r, s')" "crLeaderId r = srvId s"
    "CommitGroupLog L (clkNow C) (new_entry L m cmd s) (RefreshTimer C m 1 (s2\<lparr>srvDB := db\<rparr>)) = Some (crResult r, s')"
    "srvFuncReg (RefreshTimer C m 1 (s2\<lparr>srvDB := db\<rparr>)) = srvFuncReg s" "log_extends L (gid s m) (srvDB s) (srvDB s') [new_entry L m cmd s]"
    unfolding f by (auto simp: f)
  with ExecCommand_accepted [OF m s2(1)] g(2) show ?thesis by metis
qed

end

section \<open>Reading\<close>

text \<open>
  For a group that is not hosted the answer about its leader is always empty: the host that was picked among the peers is
  lost.
\<close>

theorem GroupLeader_not_hosted:
  assumes "GetOnboardGroup s g = None" "GroupLeader L pick s g = Some (res, s')"
  shows "glNode res = None \<and> \<not> glAccuate res"
  using assms
  by (auto simp: GroupLeader_def Let_def bind_eq_Some_conv)

lemma GroupLeader_hosted:
  "GetOnboardGroup s g = Some m \<Longrightarrow> GroupLeader L pick s g =
     Some (\<lparr>glNode = fst (GetHostNTXN L s (rtLeader (rt s m))), glAccuate = True, glSignature = []\<rparr>,
       snd (GetHostNTXN L s (rtLeader (rt s m))))"
  by (simp add: GroupLeader_def Let_def split: prod.split)

end
