(* ===== verification/Client.thy ===== *)
theory Client
  imports Consensus Store
begin

text \<open>
  The client library: \<^verbatim>\<open>client/user_client.go\<close>, \<^verbatim>\<open>client/alpha.go\<close>, \<^verbatim>\<open>client/feedback_server.go\<close> and \<^verbatim>\<open>utils/alpha.go\<close>.  A
  connection to a server is the address it was dialled with.  What the servers answer is given by a record of
  functions: for every query the answers to the calls, in the order they arrive.
\<close>

section \<open>State\<close>

record AlphaRPCsCache =
  arcBootstraps :: "string list"
  arcRpcs :: "string list"
  arcLastCheck :: int

record BFTRaftClient =
  brcId :: u64
  brcPrivateKey :: rsa_PrivateKey
  brcAlphaRPCs :: AlphaRPCsCache
  brcGroupHosts :: "string \<rightharpoonup> Host list"
  brcGroupLeader :: "string \<rightharpoonup> string"
  brcCmdResChan :: "u64 \<rightharpoonup> (u64 \<rightharpoonup> bytes list)"
  brcCounter :: u64

text \<open>The answer to a call: a reply, a gRPC error, or nothing within ten seconds.\<close>

datatype 'a answer = Answer 'a | Failed | TimedOut

record cluster =
  clAlpha :: "string list \<Rightarrow> GroupNodesResponse answer list"
  clHosts :: "string list \<Rightarrow> u64 \<Rightarrow> GroupNodesResponse answer list"
  clLeader :: "string list \<Rightarrow> u64 \<Rightarrow> GroupLeader answer list"
  clContent :: "string list \<Rightarrow> u64 \<Rightarrow> RaftGroup answer list"
  clMembers :: "string list \<Rightarrow> u64 \<Rightarrow> GroupMembersResponse answer list"
  clResults :: "CommandRequest \<Rightarrow> bytes list"
  clCount :: "(u64 \<times> int) map_order"
  clPick :: "nat \<Rightarrow> nat"

text \<open>An iteration order that starts anywhere.\<close>

definition pick_order :: "(nat \<Rightarrow> nat) \<Rightarrow> 'a map_order" where
  "pick_order p xs = rotate (p (length xs)) xs"

lemma pick_order_iteration: "iteration_order (pick_order p)"
proof -
  have "mset (rotate n xs) = mset xs" for n and xs :: "'a list"
    by (simp add: rotate_drop_take flip: mset_append) (metis append_take_drop_id mset_append union_commute)
  then show ?thesis by (simp add: iteration_order_def pick_order_def)
qed

section \<open>Alpha nodes\<close>

text \<open>
  The closures passed to \<^verbatim>\<open>MajorityResponse\<close>.  For a failed call \<^verbatim>\<open>AlphaNodes\<close> returns a typed nil pointer, which is a result
  (\<open>Some None\<close>) and not the nil interface.
\<close>

definition alpha_result :: "'db lib \<Rightarrow> GroupNodesResponse answer \<Rightarrow> GroupNodesResponse option FuncResult" where
  "alpha_result L a = (case a of
     Answer nodes \<Rightarrow> \<lparr>Result = Some (Some nodes), Feature = NodesSignData L (gnrNodes nodes)\<rparr>
   | Failed \<Rightarrow> \<lparr>Result = Some None, Feature = []\<rparr>
   | TimedOut \<Rightarrow> \<lparr>Result = None, Feature = []\<rparr>)"

text \<open>\<open>None\<close>: the nil response is dereferenced.\<close>

definition AlphaNodes :: "'db lib \<Rightarrow> cluster \<Rightarrow> string list \<Rightarrow> Host list option" where
  "AlphaNodes L N servers = (let bootstrapServers = filter (dialOK L) servers in do {
     res \<leftarrow> MajorityResponse (clCount N) (pick_order (clPick N)) bootstrapServers
              (map (alpha_result L) (clAlpha N bootstrapServers));
     case res of None \<Rightarrow> Some [] | Some response \<Rightarrow> do { nodes \<leftarrow> response; Some (gnrNodes nodes) }
   })"

definition ResetBootstrap :: "string list \<Rightarrow> AlphaRPCsCache \<Rightarrow> AlphaRPCsCache" where
  "ResetBootstrap addrs arc = arc\<lparr>arcBootstraps := addrs\<rparr>"

definition NewAlphaRPCsCache :: "int \<Rightarrow> string list \<Rightarrow> AlphaRPCsCache" where
  "NewAlphaRPCsCache now bootstraps = \<lparr>arcBootstraps = bootstraps, arcRpcs = [], arcLastCheck = now\<rparr>"

text \<open>\<^verbatim>\<open>Get\<close>: the connections are looked up again when there is none or after five minutes.\<close>

definition alpha_Get :: "'db lib \<Rightarrow> cluster \<Rightarrow> int \<Rightarrow> AlphaRPCsCache \<Rightarrow> (string list \<times> AlphaRPCsCache) option" where
  "alpha_Get L N now arc =
     (if length (arcRpcs arc) < 1 \<or> now > arcLastCheck arc + 300000
      then do {
        nodes \<leftarrow> AlphaNodes L N (arcBootstraps arc);
        let rpcs = filter (dialOK L) (map hostServerAddr nodes);
            arc = arc\<lparr>arcRpcs := rpcs\<rparr>;
            arc = (if length rpcs > 0 then ResetBootstrap rpcs arc else arc);
            arc = arc\<lparr>arcLastCheck := now\<rparr>
        in Some (rpcs, arc)
      }
      else Some (arcRpcs arc, arc))"

definition client_alpha :: "'db lib \<Rightarrow> cluster \<Rightarrow> int \<Rightarrow> BFTRaftClient \<Rightarrow> (string list \<times> BFTRaftClient) option" where
  "client_alpha L N now b = do {
     (rpcs, arc) \<leftarrow> alpha_Get L N now (brcAlphaRPCs b);
     Some (rpcs, b\<lparr>brcAlphaRPCs := arc\<rparr>)
   }"

section \<open>Queries\<close>

definition NewClient :: "'db lib \<Rightarrow> int \<Rightarrow> string list \<Rightarrow> bytes \<Rightarrow> BFTRaftClient option" where
  "NewClient L now bootstraps optPrivateKey = (case ParsePrivateKey L optPrivateKey of
     None \<Rightarrow> None
   | Some privateKey \<Rightarrow> Some \<lparr>brcId = HashPublicKey L (PublicKeyFromPrivate privateKey), brcPrivateKey = privateKey,
       brcAlphaRPCs = NewAlphaRPCsCache now bootstraps, brcGroupHosts = Map.empty, brcGroupLeader = Map.empty,
       brcCmdResChan = Map.empty, brcCounter = 0\<rparr>)"

definition hosts_result :: "'db lib \<Rightarrow> GroupNodesResponse answer \<Rightarrow> Host list FuncResult" where
  "hosts_result L a = (case a of
     Answer res \<Rightarrow> \<lparr>Result = Some (gnrNodes res), Feature = NodesSignData L (gnrNodes res)\<rparr>
   | _ \<Rightarrow> \<lparr>Result = None, Feature = []\<rparr>)"

definition client_GetGroupHosts ::
  "'db lib \<Rightarrow> cluster \<Rightarrow> int \<Rightarrow> BFTRaftClient \<Rightarrow> u64 \<Rightarrow> (Host list option \<times> BFTRaftClient) option" where
  "client_GetGroupHosts L N now b groupId = (case brcGroupHosts b (cacheKey groupId) of
     Some cached \<Rightarrow> Some (Some cached, b)
   | None \<Rightarrow> do {
       (rpcs, b) \<leftarrow> client_alpha L N now b;
       res \<leftarrow> MajorityResponse (clCount N) (pick_order (clPick N)) rpcs (map (hosts_result L) (clHosts N rpcs groupId));
       Some (res, case res of None \<Rightarrow> b
                  | Some hosts \<Rightarrow> b\<lparr>brcGroupHosts := (brcGroupHosts b)(cacheKey groupId \<mapsto> hosts)\<rparr>)
     })"

text \<open>The closure of \<^verbatim>\<open>GetGroupLeader\<close> dereferences the node of the answer even when it is nil.\<close>

definition leader_result :: "GroupLeader answer \<Rightarrow> Host FuncResult option" where
  "leader_result a = (case a of
     Answer res \<Rightarrow> do {
       node \<leftarrow> glNode res;
       Some \<lparr>Result = Some node, Feature = bytes_of_string (hostServerAddr node)\<rparr>
     }
   | _ \<Rightarrow> Some \<lparr>Result = None, Feature = []\<rparr>)"

definition client_GetGroupLeader ::
  "'db lib \<Rightarrow> cluster \<Rightarrow> int \<Rightarrow> BFTRaftClient \<Rightarrow> u64 \<Rightarrow> (string option \<times> BFTRaftClient) option" where
  "client_GetGroupLeader L N now b groupId = (case brcGroupLeader b (cacheKey groupId) of
     Some cached \<Rightarrow> Some (Some cached, b)
   | None \<Rightarrow> do {
       (rpcs, b) \<leftarrow> client_alpha L N now b;
       results \<leftarrow> those (map leader_result (clLeader N rpcs groupId));
       res \<leftarrow> MajorityResponse (clCount N) (pick_order (clPick N)) rpcs results;
       Some (case res of
           None \<Rightarrow> (None, b)
         | Some leaderHost \<Rightarrow>
             if dialOK L (hostServerAddr leaderHost)
             then (Some (hostServerAddr leaderHost),
                   b\<lparr>brcGroupLeader := (brcGroupLeader b)(cacheKey groupId \<mapsto> hostServerAddr leaderHost)\<rparr>)
             else (None, b))
     })"

definition exists_result :: "RaftGroup answer \<Rightarrow> bool FuncResult" where
  "exists_result a = (case a of
     Answer g \<Rightarrow> \<lparr>Result = Some True, Feature = [1]\<rparr>
   | Failed \<Rightarrow> \<lparr>Result = Some False, Feature = [0]\<rparr>
   | TimedOut \<Rightarrow> \<lparr>Result = None, Feature = []\<rparr>)"

definition GroupExists :: "'db lib \<Rightarrow> cluster \<Rightarrow> int \<Rightarrow> BFTRaftClient \<Rightarrow> u64 \<Rightarrow> (bool \<times> BFTRaftClient) option" where
  "GroupExists L N now b groupId = do {
     (rpcs, b) \<leftarrow> client_alpha L N now b;
     res \<leftarrow> MajorityResponse (clCount N) (pick_order (clPick N)) rpcs (map exists_result (clContent N rpcs groupId));
     found \<leftarrow> res;
     Some (found, b)
   }"

section \<open>Executing a command\<close>

datatype client_error = LeaderNotFound | NoGroupHosts | NotEnoughResponses

text \<open>
  The command is sent to the leader; its answer and the feedback of the followers arrive in a channel, \<open>clResults\<close> being
  what arrives within ten seconds.  A key that is missing from \<^verbatim>\<open>responseReceived\<close> reads as nil.
\<close>

definition command_request :: "'db lib \<Rightarrow> BFTRaftClient \<Rightarrow> u64 \<Rightarrow> u64 \<Rightarrow> bytes \<Rightarrow> CommandRequest" where
  "command_request L b groupId funcId arg =
     (let cmdReq = \<lparr>cmdGroup = groupId, cmdClientId = brcId b, cmdRequestId = brcCounter b, cmdFuncId = funcId,
                    cmdSignature = [], cmdArg = arg\<rparr>
      in cmdReq\<lparr>cmdSignature := Sign L (brcPrivateKey b) (ExecCommandSignData cmdReq)\<rparr>)"

fun receive_responses :: "bytes list \<Rightarrow> (u64 \<rightharpoonup> bytes) \<Rightarrow> u64 list \<Rightarrow> (u64 \<rightharpoonup> bytes) \<times> u64 list" where
  "receive_responses [] responseReceived responseHashes = (responseReceived, responseHashes)"
| "receive_responses (res # rest) responseReceived responseHashes =
     (let hash = HashData res in receive_responses rest (responseReceived(hash \<mapsto> res)) (responseHashes @ [hash]))"

definition await_responses :: "(u64 \<times> int) map_order \<Rightarrow> nat \<Rightarrow> bytes list \<Rightarrow> client_error + bytes" where
  "await_responses ord expectedResponse arrivals =
     (if length arrivals < expectedResponse then Inl NotEnoughResponses
      else (let (responseReceived, responseHashes) = receive_responses (take expectedResponse arrivals) Map.empty [];
                majorityHash = PickMajority ord responseHashes
            in Inr (case responseReceived majorityHash of None \<Rightarrow> [] | Some majorityData \<Rightarrow> majorityData)))"

definition client_ExecCommand ::
  "'db lib \<Rightarrow> cluster \<Rightarrow> int \<Rightarrow> BFTRaftClient \<Rightarrow> u64 \<Rightarrow> u64 \<Rightarrow> bytes \<Rightarrow> ((client_error + bytes) \<times> BFTRaftClient) option" where
  "client_ExecCommand L N now b groupId funcId arg = do {
     (leader, b) \<leftarrow> client_GetGroupLeader L N now b groupId;
     case leader of
       None \<Rightarrow> Some (Inl LeaderNotFound, b)
     | Some addr \<Rightarrow> do {
         let b = b\<lparr>brcCounter := brcCounter b + 1\<rparr>;
             cmdReq = command_request L b groupId funcId arg;
             chans = (case brcCmdResChan b groupId of None \<Rightarrow> Map.empty | Some m \<Rightarrow> m);
             opened = b\<lparr>brcCmdResChan := (brcCmdResChan b)(groupId \<mapsto> chans(cmdRequestId cmdReq \<mapsto> []))\<rparr>;
             closed = (\<lambda>b. b\<lparr>brcCmdResChan := (brcCmdResChan b)(groupId \<mapsto> chans(cmdRequestId cmdReq := None))\<rparr>)
         in do {
           (hosts, b) \<leftarrow> client_GetGroupHosts L N now opened groupId;
           Some (case hosts of
               None \<Rightarrow> Inl NoGroupHosts
             | Some hs \<Rightarrow> await_responses (clCount N) (nat (ExpectedPlayers (int (length hs)))) (clResults N cmdReq),
             closed b)
         }
       }
   }"

text \<open>The feedback server hands a result to the waiting command; a send on a missing channel blocks its goroutine.\<close>

definition ResponseCommand :: "CommandResult \<Rightarrow> BFTRaftClient \<Rightarrow> BFTRaftClient" where
  "ResponseCommand cmd b = (case brcCmdResChan b (resGroup cmd) of
     None \<Rightarrow> b
   | Some chans \<Rightarrow> (case chans (resRequestId cmd) of
       None \<Rightarrow> b
     | Some ch \<Rightarrow> b\<lparr>brcCmdResChan := (brcCmdResChan b)(resGroup cmd \<mapsto> chans(resRequestId cmd \<mapsto> ch @ [resResult cmd]))\<rparr>))"

section \<open>What the majority decides\<close>

lemma collect_results_append:
  "fst (collect_results frs (hs, vs)) = hs @ map (HashData \<circ> Feature) (filter (\<lambda>fr. Result fr \<noteq> None) frs)"
  by (induction frs arbitrary: hs vs) (auto simp: Let_def split: option.split)

lemma collect_results_vals:
  "map_of (snd (collect_results frs (hs, vs))) h =
    (let F = filter (\<lambda>fr. Result fr \<noteq> None \<and> HashData (Feature fr) = h) frs
     in if F = [] then map_of vs h else Result (last F))"
  by (induction frs arbitrary: hs vs) (auto simp: Let_def update_conv' split: option.splits)

text \<open>The results a query yields: those of the calls that returned a value.\<close>

definition result_hashes :: "'a FuncResult list \<Rightarrow> u64 list" where
  "result_hashes frs = map (HashData \<circ> Feature) (filter (\<lambda>fr. Result fr \<noteq> None) frs)"

text \<open>
  C27.  When every call has been answered and more than half of the returned values have the same feature hash, \<^verbatim>\<open>MajorityResponse\<close> returns a
  value with that hash, whatever the failed calls and the order of the maps are.
\<close>

theorem MajorityResponse_quorum:
  assumes "iteration_order ord" "length frs = length clients" "length (result_hashes frs) < 2 * count_list (result_hashes frs) h"
  shows "\<exists>fr v. fr \<in> set frs \<and> Result fr = Some v \<and> HashData (Feature fr) = h \<and> MajorityResponse ord vord clients frs = Some (Some v)"
proof -
  let ?F = "filter (\<lambda>fr. Result fr \<noteq> None \<and> HashData (Feature fr) = h) frs"
  have maj: "PickMajority ord (result_hashes frs) = h" using assms(1,3) by (rule PickMajority_quorum)
  have "h \<in> set (result_hashes frs)" using assms(3) by (metis count_list_0_iff mult_0_right not_less_zero)
  then have ne: "?F \<noteq> []" by (auto simp: result_hashes_def filter_empty_conv)
  then have l: "last ?F \<in> set ?F" by (rule last_in_set)
  have "map_of (snd (collect_results frs ([], []))) h = Some (the (Result (last ?F)))"
    using ne l by (auto simp: collect_results_vals)
  then have "MajorityResponse ord vord clients frs = Some (Some (the (Result (last ?F))))"
    using assms(2) maj collect_results_append [of frs "[]" "[]"]
    by (cases "collect_results frs ([], [])") (simp add: MajorityResponse_def result_hashes_def)
  then show ?thesis using l by auto
qed

theorem MajorityResponse_quorum_witness:
  "\<exists>v. MajorityResponse rev rev [1 :: nat, 2, 3] [\<lparr>Result = Some ''a'', Feature = [1]\<rparr>, \<lparr>Result = None, Feature = []\<rparr>,
      \<lparr>Result = Some ''b'', Feature = [1]\<rparr>] = Some (Some v)"
  using MajorityResponse_quorum [of rev "[\<lparr>Result = Some ''a'', Feature = [1]\<rparr>, \<lparr>Result = None, Feature = []\<rparr>,
      \<lparr>Result = Some ''b'', Feature = [1]\<rparr>]" "[1 :: nat, 2, 3]" "HashData [1]" rev]
  by (auto simp: iteration_order_def result_hashes_def)

lemma receive_responses_eq:
  "receive_responses rs m hs = (fold (\<lambda>r m. m(HashData r \<mapsto> r)) rs m, hs @ map HashData rs)"
  by (induction rs arbitrary: m hs) (auto simp: Let_def)

lemma fold_upd: "fold (\<lambda>r m. m(HashData r \<mapsto> r)) rs m h =
    (let F = filter (\<lambda>r. HashData r = h) rs in if F = [] then m h else Some (last F))"
  by (induction rs arbitrary: m) (auto simp: Let_def)

lemma count_map_inj: "(\<And>y. y \<in> set xs \<Longrightarrow> f y = f x \<Longrightarrow> y = x) \<Longrightarrow> count_list (map f xs) (f x) = count_list xs x"
proof (induction xs)
  case (Cons a xs)
  then have "count_list (map f xs) (f x) = count_list xs x" by auto
  moreover have "f a = f x \<longleftrightarrow> a = x" using Cons.prems [of a] by auto
  ultimately show ?case by simp
qed simp

text \<open>
  C28.  A result that more than half of the awaited responses to a command carry is the one the client returns, whatever the other
  responses and their order are, when no other response collides with it under the hash.
\<close>

theorem await_responses_majority:
  assumes ord: "iteration_order ord" and n: "n \<le> length arrivals" "n < 2 * count_list (take n arrivals) d"
    and collisions: "\<forall>r \<in> set (take n arrivals). HashData r = HashData d \<longrightarrow> r = d"
  shows "await_responses ord n arrivals = Inr d"
proof -
  let ?rs = "take n arrivals"
  have inj: "r = d" if "r \<in> set ?rs" "HashData r = HashData d" for r using collisions that by blast
  then have "count_list (map HashData ?rs) (HashData d) = count_list ?rs d" by (rule count_map_inj)
  then have "PickMajority ord (map HashData ?rs) = HashData d"
    using n by (intro PickMajority_quorum [OF ord]) (simp add: min_absorb2)
  moreover have "d \<in> set ?rs" using n by (metis count_list_0_iff mult_0_right not_less_zero)
  then have ne: "filter (\<lambda>r. HashData r = HashData d) ?rs \<noteq> []" by (auto simp: filter_empty_conv)
  then have "last (filter (\<lambda>r. HashData r = HashData d) ?rs) = d" using inj last_in_set [OF ne] by simp
  with ne have "fold (\<lambda>r m. m(HashData r \<mapsto> r)) ?rs Map.empty (HashData d) = Some d"
    by (simp add: fold_upd)
  ultimately show ?thesis using n(1) by (simp add: await_responses_def receive_responses_eq)
qed

theorem await_responses_majority_witness: "await_responses rev 3 [[1], [2], [1]] = Inr [1]"
  by (rule await_responses_majority)
    (auto simp: iteration_order_def HashData_def fnv_offset_def fnv_prime_def)

end
