(* ===== verification/Connections.thy ===== *)
theory Connections
  imports State_Machine
begin

text \<open>
  The maps of connections and of server objects that all servers of a process share, \<^verbatim>\<open>ClientConn\<close> of \<^verbatim>\<open>utils/conns.go\<close> and \<^verbatim>\<open>RPCServers\<close> of
  \<^verbatim>\<open>utils/rpcs.go\<close>, and the contract they have in common with the caches of a server: an object is made when it is first asked for,
  and is the same from then on.  Objects are named by numbers; \<open>poolNext\<close> is the next that is free.
\<close>

section \<open>Definitions\<close>

record conn_pool =
  ClientConn :: "string \<rightharpoonup> nat"
  RPCServers :: "string \<rightharpoonup> nat"
  poolNext :: nat

definition GetClientConn :: "'db lib \<Rightarrow> string \<Rightarrow> conn_pool \<Rightarrow> nat option \<times> conn_pool" where
  "GetClientConn L addr p = (case ClientConn p addr of
     Some cachedConn \<Rightarrow> (Some cachedConn, p)
   | None \<Rightarrow>
       if dialOK L addr
       then (Some (poolNext p), p\<lparr>ClientConn := (ClientConn p)(addr \<mapsto> poolNext p), poolNext := poolNext p + 1\<rparr>)
       else (None, p))"

definition GetGRPCServer :: "string \<Rightarrow> conn_pool \<Rightarrow> nat \<times> conn_pool" where
  "GetGRPCServer addr p = (case RPCServers p addr of
     Some cachedRPC \<Rightarrow> (cachedRPC, p)
   | None \<Rightarrow> (poolNext p, p\<lparr>RPCServers := (RPCServers p)(addr \<mapsto> poolNext p), poolNext := poolNext p + 1\<rparr>))"

text \<open>\<open>listenOK\<close> says whether the port can be opened; the result is the server object that serves it.\<close>

definition GRPCServerListen :: "(string \<Rightarrow> bool) \<Rightarrow> string \<Rightarrow> conn_pool \<Rightarrow> nat option \<times> conn_pool" where
  "GRPCServerListen listenOK addr p =
     (if listenOK addr then (let (srv, p) = GetGRPCServer addr p in (Some srv, p)) else (None, p))"

section \<open>The contract\<close>

locale get_or_create =
  fixes held :: "'s \<Rightarrow> 'k \<Rightarrow> 'v option" and getter :: "'k \<Rightarrow> 's \<Rightarrow> 'v option \<times> 's"
  assumes hit: "held s k = Some v \<Longrightarrow> getter k s = (Some v, s)"
    and miss: "held s k = None \<Longrightarrow> getter k s = (r, s') \<Longrightarrow> held s' = (held s)(k := r)"
begin

lemma held_after:
  assumes "getter k s = (r, s')"
  shows "held s' = (held s)(k := r)"
proof (cases "held s k")
  case None
  then show ?thesis using assms by (rule miss)
next
  case (Some v)
  with hit [OF Some] assms have "r = held s k" "s' = s" by simp_all
  then show ?thesis by simp
qed

lemma stays: "held s k = Some v \<Longrightarrow> getter k' s = (r, s') \<Longrightarrow> held s' k = Some v"
  by (cases "k' = k") (simp_all add: held_after hit)

lemma again: "getter k s = (Some v, s') \<Longrightarrow> getter k s' = (Some v, s')"
  by (rule hit) (simp add: held_after)

end

text \<open>Connections, server objects, and the caches of hosts and of groups.\<close>

interpretation conns: get_or_create ClientConn "GetClientConn L"
  by unfold_locales (auto simp: GetClientConn_def fun_eq_iff split: if_splits)

interpretation servers: get_or_create RPCServers "\<lambda>addr p. map_prod Some id (GetGRPCServer addr p)"
  by unfold_locales (auto simp: GetGRPCServer_def)

interpretation host_cache: get_or_create "\<lambda>s n. srvHosts s (cacheKey n)" "\<lambda>n s. GetHost L s txn n"
  by unfold_locales (auto simp: GetHost_def Let_def fun_eq_iff split: option.splits sum.splits)

interpretation group_cache: get_or_create "\<lambda>s n. srvGroups s (cacheKey n)" "\<lambda>n s. GetGroup L s txn n"
  by unfold_locales (auto simp: GetGroup_def fun_eq_iff split: option.splits)

section \<open>Connections\<close>

text \<open>Only addresses that can be dialled have a connection, and connections and server objects are all different.\<close>

definition pool_ok :: "'db lib \<Rightarrow> conn_pool \<Rightarrow> bool" where
  "pool_ok L p \<longleftrightarrow> (\<forall>addr \<in> dom (ClientConn p). dialOK L addr) \<and> inj_on (ClientConn p) (dom (ClientConn p)) \<and>
     inj_on (RPCServers p) (dom (RPCServers p)) \<and> ran (ClientConn p) \<inter> ran (RPCServers p) = {} \<and>
     (\<forall>c \<in> ran (ClientConn p) \<union> ran (RPCServers p). c < poolNext p)"

lemma pool_ok_empty: "pool_ok L \<lparr>ClientConn = Map.empty, RPCServers = Map.empty, poolNext = 0\<rparr>"
  by (simp add: pool_ok_def)

lemma inj_on_new: "inj_on f (dom f) \<Longrightarrow> (\<And>c. c \<in> ran f \<Longrightarrow> c \<noteq> n) \<Longrightarrow> inj_on (f(k \<mapsto> n)) (dom (f(k \<mapsto> n)))"
  by (auto simp: inj_on_def ran_def dom_def) metis+

lemma ran_new: "f k = None \<Longrightarrow> ran (f(k \<mapsto> n)) = insert n (ran f)"
  by (rule ran_map_upd)

lemma GetClientConn_ok:
  assumes "pool_ok L p" "GetClientConn L addr p = (r, p')"
  shows "pool_ok L p'"
proof (cases "ClientConn p addr = None \<and> dialOK L addr")
  case True
  then have p': "p' = p\<lparr>ClientConn := (ClientConn p)(addr \<mapsto> poolNext p), poolNext := poolNext p + 1\<rparr>"
    using assms(2) by (auto simp: GetClientConn_def)
  have "inj_on ((ClientConn p)(addr \<mapsto> poolNext p)) (dom ((ClientConn p)(addr \<mapsto> poolNext p)))"
    using assms(1) by (intro inj_on_new) (auto simp: pool_ok_def)
  then show ?thesis using assms(1) True unfolding pool_ok_def p' by (auto simp: ran_new less_Suc_eq)
next
  case False
  then show ?thesis using assms by (auto simp: GetClientConn_def split: option.splits)
qed

lemma GetGRPCServer_ok:
  assumes "pool_ok L p" "GetGRPCServer addr p = (r, p')"
  shows "pool_ok L p'"
proof (cases "RPCServers p addr")
  case None
  then have p': "p' = p\<lparr>RPCServers := (RPCServers p)(addr \<mapsto> poolNext p), poolNext := poolNext p + 1\<rparr>"
    using assms(2) by (auto simp: GetGRPCServer_def)
  have "inj_on ((RPCServers p)(addr \<mapsto> poolNext p)) (dom ((RPCServers p)(addr \<mapsto> poolNext p)))"
    using assms(1) by (intro inj_on_new) (auto simp: pool_ok_def)
  then show ?thesis using assms(1) None unfolding pool_ok_def p' by (auto simp: ran_new less_Suc_eq)
next
  case Some
  then show ?thesis using assms by (auto simp: GetGRPCServer_def)
qed

text \<open>
  The rest of the development asks of a connection only whether there is one: with any shared map of connections, \<^verbatim>\<open>GetClusterRPC\<close> finds one
  exactly for the addresses that can be dialled.
\<close>

lemma GetClusterRPC_pool:
  assumes "pool_ok L p"
  shows "GetClusterRPC L addr \<longleftrightarrow> fst (GetClientConn L addr p) \<noteq> None"
  using assms by (cases "ClientConn p addr") (auto simp: GetClusterRPC_def GetClientConn_def pool_ok_def)

end
