(* ===== verification/Membership.thy ===== *)
theory Membership
  imports Server Client Connections
begin

text \<open>
  The operations with which a node takes part in the network: \<^verbatim>\<open>RegHost\<close>, \<^verbatim>\<open>NodeJoin\<close> and \<^verbatim>\<open>NewGroup\<close> of
  \<^verbatim>\<open>server/membership.go\<close>, \<^verbatim>\<open>ColdStart\<close> and \<^verbatim>\<open>SyncAlphaGroup\<close> of \<^verbatim>\<open>server/alpha.go\<close>, and the start-up of
  \<^verbatim>\<open>server/bftraft.go\<close> and \<^verbatim>\<open>server/config.go\<close>.  They act on a server and on its client.  While an operation waits, the server
  handles other messages: \<open>env\<close> is what they do to its state.
\<close>

datatype op_error = OpMarshalError | OpClientError client_error | RemoteError | UnexpectedResult | InvitationTimeout
  | GroupTimeout | GroupFailed group_error

section \<open>Registering a host\<close>

definition RegHost ::
  "'db lib \<Rightarrow> cluster \<Rightarrow> int \<Rightarrow> 'db BFTRaftServer \<Rightarrow> BFTRaftClient \<Rightarrow>
   (op_error option \<times> 'db BFTRaftServer \<times> BFTRaftClient) option" where
  "RegHost L N now s b = (case marshalPKIXPublicKey L (PublicKeyFromPrivate (srvPrivateKey s)) of
     None \<Rightarrow> Some (Some OpMarshalError, s, b)
   | Some publicKeyBytes \<Rightarrow>
       (let host = \<lparr>hostId = srvId s, hostLastSeen = 0, hostOnline = True, hostServerAddr = optAddress (srvOpts s),
                    hostPublicKey = publicKeyBytes\<rparr>
        in case marshalHost L host of
          None \<Rightarrow> Some (Some OpMarshalError, s, b)
        | Some hostData \<Rightarrow>
            (let (err, s) = SaveHostNTXN L s host in do {
               (res, b) \<leftarrow> client_ExecCommand L N now b ALPHA_GROUP REG_NODE hostData;
               case res of
                 Inl e \<Rightarrow> Some (Some (OpClientError e), s, b)
               | Inr [] \<Rightarrow> None
               | Inr (r # rs) \<Rightarrow> Some (if r = 0 then Some RemoteError else if r = 1 then None else Some UnexpectedResult, s, b)
             })))"

section \<open>Joining a group\<close>

text \<open>The invitations of members, the first of each, until \<open>expected\<close> have come; the result is their leaders.\<close>

fun collect_invitations :: "u64 list \<Rightarrow> int \<Rightarrow> GroupInvitation list \<Rightarrow> u64 list \<Rightarrow> u64 list \<Rightarrow> u64 list option" where
  "collect_invitations members expected [] nodes leaders = None"
| "collect_invitations members expected (iv # ivs) nodes leaders =
     (if invNode iv \<in> set members
      then (let (nodes, leaders) = (if invNode iv \<in> set nodes then (nodes, leaders)
                                    else (nodes @ [invNode iv], leaders @ [invLeader iv]))
            in if int (length nodes) \<ge> expected then Some leaders else collect_invitations members expected ivs nodes leaders)
      else collect_invitations members expected ivs nodes leaders)"

definition LEADER_const :: u64 where
  "LEADER_const = 0"

text \<open>
  Enough invitations have come.  A node that is itself the chosen leader assigns the constant \<^verbatim>\<open>LEADER\<close> to the variable
  \<open>leader\<close>, and not to \<open>role\<close>.  A group that is not known is a nil dereference in \<^verbatim>\<open>SetOnboardGroup\<close>.
\<close>

definition join_group ::
  "'db lib \<Rightarrow> (u64 \<times> int) map_order \<Rightarrow> int \<Rightarrow> u64 \<Rightarrow> u64 list \<Rightarrow> 'db BFTRaftServer \<Rightarrow> 'db BFTRaftServer option" where
  "join_group L ord now groupId invLeaders s =
     (let (found, s) = GetGroupNTXN L s groupId;
          peer = \<lparr>peerId = srvId s, peerGroup = groupId, peerNextIndex = 0, peerMatchIndex = 0\<rparr> in do {
        groupPeers \<leftarrow> GetGroupPeersFromKV L (srvDB s) groupId;
        case updateDB L s (\<lambda>txn. SavePeer L txn peer) of
          (Some err, s) \<Rightarrow> Some s
        | (None, s) \<Rightarrow>
            (let leader = PickMajority ord invLeaders;
                 groupPeers = AList.update (srvId s) peer groupPeers;
                 role = FOLLOWER;
                 leader = (if leader = srvId s then LEADER_const else leader) in do {
               grp \<leftarrow> found;
               let (m, s) = NewRTGroup s now leader groupPeers grp role
               in Some (SetOnboardGroup s m)
             })
      })"

definition NodeJoin ::
  "'db lib \<Rightarrow> cluster \<Rightarrow> int \<Rightarrow> ('db BFTRaftServer \<Rightarrow> 'db BFTRaftServer) \<Rightarrow> u64 \<Rightarrow> 'db BFTRaftServer \<Rightarrow> BFTRaftClient \<Rightarrow>
   (op_error option \<times> 'db BFTRaftServer \<times> BFTRaftClient) option" where
  "NodeJoin L N now env groupId s b = (case marshalNodeJoin L \<lparr>njGroup = groupId\<rparr> of
     None \<Rightarrow> Some (Some OpMarshalError, s, b)
   | Some joinData \<Rightarrow>
       (let s = s\<lparr>srvGroupInvitations := (srvGroupInvitations s)(groupId \<mapsto> [])\<rparr> in do {
          (res, b) \<leftarrow> client_ExecCommand L N now b ALPHA_GROUP NODE_JOIN joinData;
          case res of
            Inl e \<Rightarrow> Some (Some (OpClientError e), s, b)
          | Inr [] \<Rightarrow> None
          | Inr (r # rs) \<Rightarrow>
              if r = 1
              then do {
                (hosts, s) \<leftarrow> GetGroupHostsNTXN L s groupId;
                let hostsMap = remdups (map hostId hosts);
                    expectedResponse = ExpectedPlayers (int (length hostsMap));
                    s = env s;
                    arrived = (case srvGroupInvitations s groupId of None \<Rightarrow> [] | Some ivs \<Rightarrow> ivs)
                in case collect_invitations hostsMap expectedResponse arrived [] [] of
                     Some invLeaders \<Rightarrow> do {
                       s \<leftarrow> join_group L (clCount N) now groupId invLeaders s;
                       Some (None, s, b)
                     }
                   | None \<Rightarrow> Some (Some InvitationTimeout,
                       s\<lparr>srvGroupInvitations := (srvGroupInvitations s)(groupId := None)\<rparr>, b)
              }
              else Some (Some RemoteError, s, b)
        }))"

section \<open>Creating a group\<close>

definition NewGroup ::
  "'db lib \<Rightarrow> cluster \<Rightarrow> int \<Rightarrow> ('db BFTRaftServer \<Rightarrow> 'db BFTRaftServer) \<Rightarrow> RaftGroup \<Rightarrow> 'db BFTRaftServer \<Rightarrow> BFTRaftClient \<Rightarrow>
   (op_error option \<times> 'db BFTRaftServer \<times> BFTRaftClient) option" where
  "NewGroup L N now env grp s b = (case marshalRaftGroup L grp of
     None \<Rightarrow> Some (Some OpMarshalError, s, b)
   | Some groupData \<Rightarrow>
       (let s = s\<lparr>srvPendingNewGroups := (srvPendingNewGroups s)(grpId grp \<mapsto> [])\<rparr> in do {
          (res, b) \<leftarrow> client_ExecCommand L N now b ALPHA_GROUP NEW_GROUP groupData;
          case res of
            Inl e \<Rightarrow> Some (Some (OpClientError e), s, b)
          | Inr r \<Rightarrow>
              if length r > 1
              then (let s = env s in case srvPendingNewGroups s (grpId grp) of
                  Some (err # errs) \<Rightarrow> Some (map_option GroupFailed err,
                    s\<lparr>srvPendingNewGroups := (srvPendingNewGroups s)(grpId grp \<mapsto> errs)\<rparr>, b)
                | _ \<Rightarrow> Some (Some GroupTimeout, s, b))
              else Some (Some RemoteError, s, b)
        }))"

section \<open>The alpha group\<close>

definition cold_start_txn :: "'db lib \<Rightarrow> RaftGroup \<Rightarrow> Peer \<Rightarrow> Host \<Rightarrow> 'db \<Rightarrow> save_error + 'db" where
  "cold_start_txn L g p h txn = (case SaveGroup L txn g of
     Inl e \<Rightarrow> Inl e
   | Inr txn \<Rightarrow> (case SavePeer L txn p of Inl e \<Rightarrow> Inl e | Inr txn \<Rightarrow> SaveHost L txn h))"

text \<open>\<^verbatim>\<open>log.Fatal\<close> ends the process: \<open>None\<close>.\<close>

definition ColdStart ::
  "'db lib \<Rightarrow> int \<Rightarrow> 'db BFTRaftServer \<Rightarrow> BFTRaftClient \<Rightarrow> ('db BFTRaftServer \<times> BFTRaftClient) option" where
  "ColdStart L now s b =
     (let alphaGroup = \<lparr>grpReplications = 32, grpId = ALPHA_GROUP, grpTerm = 0\<rparr>;
          thisPeer = \<lparr>peerId = srvId s, peerGroup = ALPHA_GROUP, peerNextIndex = 0, peerMatchIndex = 0\<rparr>;
          thisHost = \<lparr>hostId = srvId s, hostLastSeen = 0, hostOnline = True, hostServerAddr = optAddress (srvOpts s),
            hostPublicKey = (case marshalPKIXPublicKey L (PublicKeyFromPrivate (srvPrivateKey s)) of Some k \<Rightarrow> k | None \<Rightarrow> [])\<rparr>
      in case updateDB L s (cold_start_txn L alphaGroup thisPeer thisHost) of
           (Some err, s) \<Rightarrow> None
         | (None, s) \<Rightarrow>
             (let (m, s) = NewRTGroup s now (srvId s) [(peerId thisPeer, thisPeer)] alphaGroup LEADER;
                  s = set_rt m ((rt s m)\<lparr>rtRole := LEADER\<rparr>) s
              in Some (SetOnboardGroup s m, b\<lparr>brcAlphaRPCs := ResetBootstrap [optAddress (srvOpts s)] (brcAlphaRPCs b)\<rparr>)))"

definition members_result :: "'db lib \<Rightarrow> GroupMembersResponse answer \<Rightarrow> GroupMembersResponse FuncResult" where
  "members_result L a = (case a of
     Answer res \<Rightarrow> \<lparr>Result = Some res, Feature = GetMembersSignData L (gmrMembers res)\<rparr>
   | _ \<Rightarrow> \<lparr>Result = None, Feature = []\<rparr>)"

definition content_result :: "'db lib \<Rightarrow> RaftGroup answer \<Rightarrow> RaftGroup FuncResult" where
  "content_result L a = (case a of
     Answer res \<Rightarrow> (case marshalRaftGroup L res of
         Some data \<Rightarrow> \<lparr>Result = Some res, Feature = data\<rparr> | None \<Rightarrow> \<lparr>Result = None, Feature = []\<rparr>)
   | _ \<Rightarrow> \<lparr>Result = None, Feature = []\<rparr>)"

text \<open>The scan of the members for this server, which stops at the first match and dereferences every peer before it.\<close>

fun is_member :: "u64 \<Rightarrow> GroupMember list \<Rightarrow> bool option" where
  "is_member sid [] = Some False"
| "is_member sid (member # members) = do {
     peer \<leftarrow> gmPeer member;
     if peerId peer = sid then Some True else is_member sid members
   }"

text \<open>The writes of \<^verbatim>\<open>SyncAlphaGroup\<close>; their errors are dropped, a nil peer or host being one.\<close>

definition dropped :: "'db \<Rightarrow> (save_error + 'db) option \<Rightarrow> 'db" where
  "dropped txn r = (case r of Some (Inr txn') \<Rightarrow> txn' | _ \<Rightarrow> txn)"

fun save_members :: "'db lib \<Rightarrow> GroupMember list \<Rightarrow> 'db \<Rightarrow> 'db" where
  "save_members L [] txn = txn"
| "save_members L (member # members) txn =
     (let txn = dropped txn (map_option (SavePeer L txn) (gmPeer member));
          txn = dropped txn (map_option (SaveHost L txn) (gmHost member))
      in save_members L members txn)"

definition sync_writes :: "'db lib \<Rightarrow> RaftGroup \<Rightarrow> GroupMember list \<Rightarrow> 'db \<Rightarrow> 'db" where
  "sync_writes L grp members txn = save_members L members (dropped txn (Some (SaveGroup L txn grp)))"

text \<open>The group that was found locally is the cached object, whose term the assignment changes too.\<close>

definition SyncAlphaGroup ::
  "'db lib \<Rightarrow> cluster \<Rightarrow> int \<Rightarrow> 'db BFTRaftServer \<Rightarrow> BFTRaftClient \<Rightarrow> ('db BFTRaftServer \<times> BFTRaftClient) option" where
  "SyncAlphaGroup L N now s b = do {
     (alphaRPCs, b) \<leftarrow> client_alpha L N now b;
     res \<leftarrow> MajorityResponse (clCount N) (pick_order (clPick N)) alphaRPCs
              (map (members_result L) (clMembers N alphaRPCs ALPHA_GROUP));
     case res of
       None \<Rightarrow> ColdStart L now s b
     | Some alphaMemberRes \<Rightarrow> do {
         let members = gmrMembers alphaMemberRes;
         isAlphaMember \<leftarrow> is_member (srvId s) members;
         let (local_group, s) = GetGroupNTXN L s ALPHA_GROUP in
         if isAlphaMember then (if local_group = None then None else Some (s, b))
         else do {
           found \<leftarrow> (case local_group of
               Some g \<Rightarrow> Some (Some g)
             | None \<Rightarrow> MajorityResponse (clCount N) (pick_order (clPick N)) alphaRPCs
                 (map (content_result L) (clContent N alphaRPCs ALPHA_GROUP)));
           grp \<leftarrow> found;
           let grp = grp\<lparr>grpTerm := (case gmrLastEntry alphaMemberRes of None \<Rightarrow> 0 | Some lastEntry \<Rightarrow> leIndex lastEntry)\<rparr>;
               s = (if local_group = None then s else s\<lparr>srvGroups := (srvGroups s)(cacheKey ALPHA_GROUP \<mapsto> grp)\<rparr>);
               (err, s) = updateDB L s (\<lambda>txn. (Inr (sync_writes L grp members txn) :: unit + _))
           in Some (s, b)
         }
       }
   }"

section \<open>Start-up\<close>

definition ConfigKey :: bytes where
  "ConfigKey = ComposeKeyPrefix CONFIG_GROUP SERVER_CONF"

text \<open>Every failure to read the configuration panics.\<close>

definition GetConfig :: "'db lib \<Rightarrow> 'db \<Rightarrow> ServerConfig option" where
  "GetConfig L kvdb = (case txnGet L kvdb ConfigKey of
     Inl err \<Rightarrow> None
   | Inr item \<Rightarrow> do {
       data \<leftarrow> ItemValue (Some item);
       (case unmarshalServerConfig L data of (conf, ok) \<Rightarrow> if ok then Some conf else None)
     })"

text \<open>\<open>db\<close> is the database \<^verbatim>\<open>badger.Open\<close> created; the error of the update is dropped.\<close>

definition InitDatabase :: "'db lib \<Rightarrow> rsa_PrivateKey option \<Rightarrow> 'db \<Rightarrow> 'db" where
  "InitDatabase L generated db = (case GenerateKey L generated of
     Some (privateKey, publicKey) \<Rightarrow>
       (let configBytes = (case marshalServerConfig L \<lparr>confPrivateKey = privateKey\<rparr> of Some b \<Rightarrow> b | None \<Rightarrow> [])
        in case txnSet L db ConfigKey configBytes of
             Inl e \<Rightarrow> db
           | Inr txn \<Rightarrow> (case txnCommit L txn of Inl e \<Rightarrow> db | Inr db' \<Rightarrow> db'))
   | None \<Rightarrow> db)"

definition fresh_server :: "u64 \<Rightarrow> Options \<Rightarrow> 'db \<Rightarrow> rsa_PrivateKey \<Rightarrow> 'db BFTRaftServer" where
  "fresh_server sid serverOpts db privateKey = \<lparr>srvId = sid, srvOpts = serverOpts, srvDB = db, srvFuncReg = Map.empty,
     srvGroupsOnboard = Map.empty, srvRTGroups = [], srvGroupInvitations = Map.empty, srvPendingNewGroups = Map.empty,
     srvGroups = Map.empty, srvHosts = Map.empty, srvNodePublicKeys = Map.empty, srvPrivateKey = privateKey, srvOut = []\<rparr>"

definition GetServer ::
  "'db lib \<Rightarrow> cluster \<Rightarrow> int \<Rightarrow> Options \<Rightarrow> 'db \<Rightarrow> ('db BFTRaftServer \<times> BFTRaftClient) option" where
  "GetServer L N now serverOpts db = do {
     config \<leftarrow> GetConfig L db;
     privateKey \<leftarrow> ParsePrivateKey L (confPrivateKey config);
     let sid = HashPublicKey L (PublicKeyFromPrivate privateKey);
     nclient \<leftarrow> NewClient L now (optBootstrap serverOpts) (confPrivateKey config);
     (hosted, s) \<leftarrow> ScanHostedGroups L now (fresh_server sid serverOpts db privateKey) sid;
     SyncAlphaGroup L N now (RegisterMembershipCommands s) nclient
   }"

text \<open>
  \<^verbatim>\<open>StartServer\<close> serves on the server object of its address and registers this host, whatever comes of it; the registration of the services and
  listening are left to grpc.  \<open>env\<close> is what the server is sent in the second before it registers.
\<close>

definition StartServer ::
  "'db lib \<Rightarrow> cluster \<Rightarrow> int \<Rightarrow> ('db BFTRaftServer \<Rightarrow> 'db BFTRaftServer) \<Rightarrow> conn_pool \<Rightarrow> 'db BFTRaftServer \<Rightarrow> BFTRaftClient \<Rightarrow>
   ('db BFTRaftServer \<times> BFTRaftClient \<times> conn_pool) option" where
  "StartServer L N now env pool s b =
     (let (srv, pool) = GetGRPCServer (optAddress (srvOpts s)) pool in do {
        (err, s, b) \<leftarrow> RegHost L N now (env s) b;
        Some (s, b, pool)
      })"

section \<open>Invitations\<close>

lemma collect_invitations_spec:
  assumes "collect_invitations members q ivs nodes leaders = Some ls" "int (length nodes) < q"
    and "distinct nodes" "set nodes \<subseteq> set members" "length leaders = length nodes"
  shows "\<exists>new. subseq new ivs \<and> distinct (nodes @ map invNode new) \<and> set (map invNode new) \<subseteq> set members \<and>
     int (length nodes + length new) = q \<and> ls = leaders @ map invLeader new"
  using assms
proof (induction ivs arbitrary: nodes leaders)
  case (Cons iv ivs)
  show ?case
  proof (cases "invNode iv \<in> set members \<and> invNode iv \<notin> set nodes")
    case False
    then have "collect_invitations members q ivs nodes leaders = Some ls"
      using Cons.prems by (auto simp: Let_def split: if_splits)
    with Cons.IH Cons.prems show ?thesis by (meson list_emb_Cons)
  next
    case True
    show ?thesis
    proof (cases "q \<le> int (length nodes + 1)")
      case q: True
      with True Cons.prems show ?thesis by (intro exI [of _ "[iv]"]) (auto simp: Let_def)
    next
      case q: False
      then have "collect_invitations members q ivs (nodes @ [invNode iv]) (leaders @ [invLeader iv]) = Some ls"
        using True Cons.prems by (simp add: Let_def)
      then obtain new where "subseq new ivs" "distinct ((nodes @ [invNode iv]) @ map invNode new)"
        "set (map invNode new) \<subseteq> set members" "int (length (nodes @ [invNode iv]) + length new) = q"
        "ls = (leaders @ [invLeader iv]) @ map invLeader new"
        using Cons.IH [of "nodes @ [invNode iv]" "leaders @ [invLeader iv]"] Cons.prems True q by auto
      with True show ?thesis by (intro exI [of _ "iv # new"]) auto
    qed
  qed
qed simp



text \<open>
  The leader a joining node follows is the one more than half of the counted invitations name, and the node is a follower of the group and
  one of its peers.  When it is named itself, the leader it records is node 0: the constant \<^verbatim>\<open>LEADER\<close> is assigned to the wrong variable.
\<close>

theorem join_group_leader:
  assumes j: "join_group L ord now g invLeaders s = Some s'" and ord: "iteration_order ord"
    and maj: "length invLeaders < 2 * count_list invLeaders l" and m: "GetOnboardGroup s' g = Some m" "GetOnboardGroup s g = None"
    and found: "fst (GetGroupNTXN L s g) = Some grp" "grpId grp = g"
  shows "rtLeader (rt s' m) = (if l = srvId s then 0 else l) \<and> rtRole (rt s' m) = FOLLOWER \<and> srvId s \<in> peer_ids (rt s' m)"
proof -
  let ?peer = "\<lparr>peerId = srvId s, peerGroup = g, peerNextIndex = 0, peerMatchIndex = 0\<rparr>"
  obtain s1 where s1: "GetGroupNTXN L s g = (Some grp, s1)" using found(1) by (metis prod.collapse)
  have c: "caches_only s s1" using s1 by (simp add: GetGroupNTXN_def caches)
  have sid: "srvId s1 = srvId s" by (simp add: caches_only_sel [OF c])
  obtain u s2 where u: "updateDB L s1 (\<lambda>txn. SavePeer L txn ?peer) = (u, s2)" by fastforce
  obtain db2 where db2: "s2 = s1\<lparr>srvDB := db2\<rparr>" using updateDB_only_DB [OF u] by blast
  have none: "GetOnboardGroup s2 g = None" using m(2) by (simp add: db2 GetOnboardGroup_def caches_only_sel [OF c])
  have p: "PickMajority ord invLeaders = l" using ord maj by (rule PickMajority_quorum)
  obtain ps where ps: "GetGroupPeersFromKV L (srvDB s1) g = Some ps"
    using j s1 by (auto simp: join_group_def Let_def bind_eq_Some_conv)
  have "u = None" using j s1 u ps none m(1) sid by (auto simp: join_group_def Let_def split: option.splits)
  with j s1 u ps have s': "s' = (let (m, s3) = NewRTGroup s2 now (if l = srvId s2 then LEADER_const else l)
      (AList.update (srvId s2) ?peer ps) grp FOLLOWER in SetOnboardGroup s3 m)"
    by (auto simp: join_group_def p sid Let_def NewRTGroup_def)
  then have mm: "m = length (srvRTGroups s2)" and r: "rt s' m = \<lparr>rtLeader = (if l = srvId s2 then LEADER_const else l), rtLastVotedTo = 0,
      rtLastVotedTerm = 0, rtGroupPeers = AList.update (srvId s2) ?peer ps, rtGroup = grp, rtTimeout = now + 60000,
      rtRole = FOLLOWER, rtVotes = [], rtSendVotesForPeers = Map.empty\<rparr>"
    using m(1) found(2) by (auto simp: NewRTGroup_def SetOnboardGroup_def GetOnboardGroup_def gid_def rt_def)
  have id: "srvId s2 = srvId s" by (simp add: db2 caches_only_sel [OF c])
  show "rtLeader (rt s' m) = (if l = srvId s then 0 else l) \<and> rtRole (rt s' m) = FOLLOWER \<and> srvId s \<in> peer_ids (rt s' m)"
    by (simp_all add: r id LEADER_const_def peer_ids_def update_keys flip: set_map)
qed

section \<open>The configuration\<close>

context libraries
begin

lemma GetConfig_InitDatabase:
  assumes "no_io_errors L" "GenerateKey L generated = Some (priv, pub)" "marshalServerConfig L \<lparr>confPrivateKey = priv\<rparr> = Some b"
  shows "GetConfig L (InitDatabase L generated db) = Some \<lparr>confPrivateKey = priv\<rparr>"
proof -
  obtain txn where txn: "txnSet L db ConfigKey b = Inr txn" using assms(1) unfolding no_io_errors_def by blast
  obtain db' where db': "txnCommit L txn = Inr db'" using assms(1) unfolding no_io_errors_def by blast
  have "kv L db' ConfigKey = Some b" using set [OF txn] commit [OF db'] by simp
  then show ?thesis using assms(2,3) txn db' server_config [OF assms(3)]
    by (simp add: GetConfig_def InitDatabase_def get ItemValue_def)
qed

section \<open>A cold start\<close>

lemma cold_start_txn_kv:
  assumes "cold_start_txn L g p h txn = Inr txn'"
  shows "logs_eq L txn txn'"
    and "\<exists>dg dp dh. marshalRaftGroup L g = Some dg \<and> marshalPeer L p = Some dp \<and> marshalHost L h = Some dh \<and>
      kv L txn' = (kv L txn)(GroupKey (grpId g) \<mapsto> dg, PeerKey (peerGroup p) (peerId p) \<mapsto> dp, HostKey (hostId h) \<mapsto> dh)"
proof -
  obtain t1 t2 where t: "SaveGroup L txn g = Inr t1" "SavePeer L t1 p = Inr t2" "SaveHost L t2 h = Inr txn'"
    using assms by (auto simp: cold_start_txn_def split: sum.splits)
  then show "logs_eq L txn txn'" using SaveGroup_logs SavePeer_logs SaveHost_logs logs_eq_trans by metis
  show "\<exists>dg dp dh. marshalRaftGroup L g = Some dg \<and> marshalPeer L p = Some dp \<and> marshalHost L h = Some dh \<and>
      kv L txn' = (kv L txn)(GroupKey (grpId g) \<mapsto> dg, PeerKey (peerGroup p) (peerId p) \<mapsto> dp, HostKey (hostId h) \<mapsto> dh)"
    using t by (auto simp: SaveGroup_def SavePeer_def SaveHost_def split: option.splits sum.splits dest!: set)
qed

text \<open>After a cold start the server is the leader and the only member of the alpha group.\<close>

lemma ColdStart_state:
  assumes "ColdStart L now s b = Some (s', b')"
  obtains m db where "GetOnboardGroup s' ALPHA_GROUP = Some m" "m = length (srvRTGroups s)"
    "rt s' m = \<lparr>rtLeader = srvId s, rtLastVotedTo = 0, rtLastVotedTerm = 0,
       rtGroupPeers = [(srvId s, \<lparr>peerId = srvId s, peerGroup = ALPHA_GROUP, peerNextIndex = 0, peerMatchIndex = 0\<rparr>)],
       rtGroup = \<lparr>grpReplications = 32, grpId = ALPHA_GROUP, grpTerm = 0\<rparr>, rtTimeout = now + 60000, rtRole = LEADER,
       rtVotes = [], rtSendVotesForPeers = Map.empty\<rparr>"
    "logs_eq L (srvDB s) (srvDB s')" "srvId s' = srvId s" "srvFuncReg s' = srvFuncReg s"
    "srvRTGroups s' = srvRTGroups s @ [rt s' m]"
    "srvGroupsOnboard s' = (srvGroupsOnboard s)(cacheKey ALPHA_GROUP \<mapsto> m)"
    "arcBootstraps (brcAlphaRPCs b') = [optAddress (srvOpts s)]"
proof -
  let ?g = "\<lparr>grpReplications = 32, grpId = ALPHA_GROUP, grpTerm = 0\<rparr>"
  let ?p = "\<lparr>peerId = srvId s, peerGroup = ALPHA_GROUP, peerNextIndex = 0, peerMatchIndex = 0\<rparr>"
  let ?h = "\<lparr>hostId = srvId s, hostLastSeen = 0, hostOnline = True, hostServerAddr = optAddress (srvOpts s),
     hostPublicKey = (case marshalPKIXPublicKey L (PublicKeyFromPrivate (srvPrivateKey s)) of Some k \<Rightarrow> k | None \<Rightarrow> [])\<rparr>"
  obtain u s1 where u: "updateDB L s (cold_start_txn L ?g ?p ?h) = (u, s1)" by fastforce
  obtain db where db: "s1 = s\<lparr>srvDB := db\<rparr>" using updateDB_only_DB [OF u] by blast
  have logs: "logs_eq L (srvDB s) (srvDB s1)" using u cold_start_txn_kv(1) by (rule updateDB_logs)
  have "u = None" using assms u by (cases u) (simp_all add: ColdStart_def Let_def)
  with assms u have "s' = SetOnboardGroup (set_rt (length (srvRTGroups s)) ((rt (snd (NewRTGroup s1 now (srvId s) [(srvId s, ?p)] ?g LEADER)) (length (srvRTGroups s)))\<lparr>rtRole := LEADER\<rparr>)
      (snd (NewRTGroup s1 now (srvId s) [(srvId s, ?p)] ?g LEADER))) (length (srvRTGroups s))"
    and b': "b' = b\<lparr>brcAlphaRPCs := ResetBootstrap [optAddress (srvOpts s)] (brcAlphaRPCs b)\<rparr>"
    by (auto simp: ColdStart_def Let_def NewRTGroup_def db SetOnboardGroup_def set_rt_def)
  then show ?thesis using logs
    by (intro that [of "length (srvRTGroups s)"])
      (simp_all add: SetOnboardGroup_def GetOnboardGroup_def NewRTGroup_def set_rt_def rt_def gid_def db ResetBootstrap_def)
qed

lemma SMRegHost_saves:
  assumes "no_io_errors L" "unmarshalHost L arg = (h, True)"
    and "marshalHost L (h\<lparr>hostId := HashPublicKeyBytes (hostPublicKey h), hostOnline := True\<rparr>) = Some d"
  shows "\<exists>s'. SMRegHost L arg e s = Some ([1], s') \<and> kv L (srvDB s') (HostKey (HashPublicKeyBytes (hostPublicKey h))) = Some d"
proof -
  let ?h = "h\<lparr>hostId := HashPublicKeyBytes (hostPublicKey h), hostOnline := True\<rparr>"
  obtain t1 where t1: "txnSet L (srvDB s) (HostKey (HashPublicKeyBytes (hostPublicKey h))) d = Inr t1"
    using assms(1) unfolding no_io_errors_def by blast
  obtain t2 where t2: "txnCommit L t1 = Inr t2" using assms(1) unfolding no_io_errors_def by blast
  have "updateDB L s (\<lambda>txn. SaveHost L txn ?h) = (None, s\<lparr>srvDB := t2\<rparr>)"
    using t1 t2 assms(3) by (simp add: updateDB_def SaveHost_def)
  then have "SMRegHost L arg e s = Some ([1], s\<lparr>srvDB := t2\<rparr>)" using assms(2) by (simp add: SMRegHost_def Let_def)
  moreover have "kv L t2 (HostKey (HashPublicKeyBytes (hostPublicKey h))) = Some d" using set [OF t1] commit [OF t2] by simp
  ultimately show ?thesis by simp
qed

text \<open>A network of one node registers a new host, whose request nobody could have verified.\<close>

lemma cold_start_registers:
  assumes cold: "ColdStart L now s b = Some (s1, b1)" and wf: "onboard_ok s" and io: "no_io_errors L"
    and fn: "srvFuncReg s REG_NODE = Some FnRegHost" and ok: "log_ok L (srvDB s) ALPHA_GROUP" "group_log L (srvDB s) ALPHA_GROUP = []"
    and cmd: "cmdGroup cmd = ALPHA_GROUP" "cmdFuncId cmd = REG_NODE" "fst (GetHostNTXN L s1 (cmdClientId cmd)) = None"
    and arg: "unmarshalHost L (cmdArg cmd) = (h, True)"
      "marshalHost L (h\<lparr>hostId := HashPublicKeyBytes (hostPublicKey h), hostOnline := True\<rparr>) = Some d"
  shows "\<exists>r s2 e. ExecCommand L C net fwd ord s1 cmd = Some (Some r, s2) \<and> crResult r = [1] \<and>
     kv L (srvDB s2) (HostKey (HashPublicKeyBytes (hostPublicKey h))) = Some d \<and>
     group_log L (srvDB s2) ALPHA_GROUP = [e] \<and> leCommand e = Some cmd \<and> leIndex e = 1"
proof -
  from cold obtain m where st: "GetOnboardGroup s1 ALPHA_GROUP = Some m" "m = length (srvRTGroups s)"
    "rtLeader (rt s1 m) = srvId s1" "rtGroupPeers (rt s1 m) = [(srvId s1, \<lparr>peerId = srvId s, peerGroup = ALPHA_GROUP, peerNextIndex = 0, peerMatchIndex = 0\<rparr>)]"
    "logs_eq L (srvDB s) (srvDB s1)" "srvFuncReg s1 = srvFuncReg s" "gid s1 m = ALPHA_GROUP"
    "srvRTGroups s1 = srvRTGroups s @ [rt s1 m]" "srvGroupsOnboard s1 = (srvGroupsOnboard s)(cacheKey ALPHA_GROUP \<mapsto> m)"
    by (cases rule: ColdStart_state) (auto simp: gid_def)
  have "gid s1 i = gid s i" if "i < length (srvRTGroups s)" for i
    using that st(8) by (metis gid_def nth_append rt_def)
  moreover have "length (srvRTGroups s1) = Suc (length (srvRTGroups s))" using arg_cong [OF st(8), of length] by simp
  ultimately have wf1: "onboard_ok s1"
    using wf st(2,7,9) unfolding onboard_ok_def GetOnboardGroup_def by (auto split: if_splits intro: less_SucI)
  note logs = logs_eq_logs [OF st(5)]
  have last: "LastEntryIndex L (srvDB s1) ALPHA_GROUP = 0" using ok by (simp add: LastEntryIndex_log logs)
  obtain r s2 s3 where x: "ExecCommand L C net fwd ord s1 cmd = Some (Some r, s2)"
    "CommitGroupLog L (clkNow C) (new_entry L m cmd s1) s3 = Some (crResult r, s2)" "srvFuncReg s3 = srvFuncReg s1"
    "log_extends L ALPHA_GROUP (srvDB s1) (srvDB s2) [new_entry L m cmd s1]"
    using ExecCommand_alone [OF io wf1, of cmd m _ FnRegHost C net fwd ord] st cmd ok(1) last fn
    by (auto simp: logs registers_host_def)
  have e: "leCommand (new_entry L m cmd s1) = Some cmd" "leIndex (new_entry L m cmd s1) = 1"
    by (simp_all add: new_entry_def Let_def st(7) last)
  have "SMRegHost L (cmdArg cmd) (new_entry L m cmd s1) s3 = Some (crResult r, s2)"
    using x(2,3) e(1) cmd(2) fn st(6) by (simp add: CommitGroupLog_def runRaftFunc_def)
  with SMRegHost_saves [OF io arg] obtain "crResult r = [1]" "kv L (srvDB s2) (HostKey (HashPublicKeyBytes (hostPublicKey h))) = Some d"
    by (metis option.inject prod.inject)
  moreover have "group_log L (srvDB s2) ALPHA_GROUP = [new_entry L m cmd s1]" using log_extendsD(2) [OF x(4)] ok(2) by (simp add: logs)
  ultimately show ?thesis using x(1) e by blast
qed

end

end
