(* ===== verification/Examples.thy ===== *)
theory Examples
  imports Membership
begin

text \<open>
  A small cluster on the in-memory libraries, on which the statements of the development are run: a group with id 7
  and three peers, node 1 its leader with two log entries, node 2 a follower that has the first.
\<close>

definition ex_pk :: rsa_PublicKey where "ex_pk = \<lparr>rsaN = 33, rsaE = 3\<rparr>"
definition ex_key :: rsa_PrivateKey where "ex_key = \<lparr>rsaPublicKey = ex_pk, rsaD = 7\<rparr>"

definition ex_cmd :: CommandRequest where
  "ex_cmd = \<lparr>cmdGroup = 7, cmdClientId = 9, cmdRequestId = 1, cmdFuncId = 10, cmdSignature = [], cmdArg = [42]\<rparr>"

definition ex_e1 :: LogEntry where
  "ex_e1 = \<lparr>leTerm = 1, leIndex = 1, leHash = LogHash (genesisHash 7) 1 10 [42], leCommand = Some ex_cmd\<rparr>"

definition ex_e2 :: LogEntry where
  "ex_e2 = \<lparr>leTerm = 1, leIndex = 2, leHash = LogHash (leHash ex_e1) 2 10 [42], leCommand = Some ex_cmd\<rparr>"

definition ex_db1 :: memdb where "ex_db1 = [(LogEntryKey 7 1, enc_log_entry ex_e1)]"
definition ex_db2 :: memdb where "ex_db2 = [(LogEntryKey 7 1, enc_log_entry ex_e1), (LogEntryKey 7 2, enc_log_entry ex_e2)]"

definition ex_peer :: "u64 \<Rightarrow> Peer" where
  "ex_peer i = \<lparr>peerId = i, peerGroup = 7, peerNextIndex = 2, peerMatchIndex = 1\<rparr>"

definition ex_rt :: "u64 \<Rightarrow> role \<Rightarrow> RTGroup" where
  "ex_rt leader role = \<lparr>rtLeader = leader, rtLastVotedTo = 0, rtLastVotedTerm = 0,
     rtGroupPeers = [(1, ex_peer 1), (2, ex_peer 2), (3, ex_peer 3)],
     rtGroup = \<lparr>grpReplications = 3, grpId = 7, grpTerm = 1\<rparr>, rtTimeout = 0, rtRole = role, rtVotes = [],
     rtSendVotesForPeers = Map.empty\<rparr>"

definition ex_opts :: Options where
  "ex_opts = \<lparr>optDBPath = ''db'', optAddress = ''a:1'', optBootstrap = [], optConsensusTimeout = 1000\<rparr>"

definition ex_server :: "u64 \<Rightarrow> RTGroup list \<Rightarrow> memdb \<Rightarrow> memdb BFTRaftServer" where
  "ex_server i rts db = \<lparr>srvId = i, srvOpts = ex_opts, srvDB = db, srvFuncReg = [10 \<mapsto> FnUser 0],
     srvGroupsOnboard = [cacheKey 7 \<mapsto> 0], srvRTGroups = rts, srvGroupInvitations = Map.empty, srvPendingNewGroups = Map.empty,
     srvGroups = Map.empty, srvHosts = Map.empty, srvNodePublicKeys = (\<lambda>k. Some ex_pk), srvPrivateKey = ex_key, srvOut = []\<rparr>"

definition ex_leader :: "memdb BFTRaftServer" where "ex_leader = ex_server 1 [ex_rt 1 LEADER] ex_db2"
definition ex_follower :: "memdb BFTRaftServer" where "ex_follower = ex_server 2 [ex_rt 1 FOLLOWER] ex_db1"

definition ex_clock :: clock where
  "ex_clock = \<lparr>clkNow = 0, clkRand = 1 / 2, clkRound = (\<lambda>x. x)\<rparr>"

lemma ex_clock_ok: "clock_ok ex_clock"
  by (simp add: clock_ok_def ex_clock_def mono_def)

lemma mem_io [simp]: "no_io_errors mem_lib"
  by (simp add: no_io_errors_def)

lemma mem_log_empty: "log_ok mem_lib [] g" "group_log mem_lib [] g = []"
  by (simp_all add: log_ok_def kv_mem group_log_def log_keys_def)

lemma ex_log1: "log_ok mem_lib ex_db1 7" "group_log mem_lib ex_db1 7 = [ex_e1]"
proof -
  have kv: "kv mem_lib ex_db1 = (kv mem_lib [])(LogEntryKey 7 (leIndex ex_e1) \<mapsto> enc_log_entry ex_e1)"
    by (simp add: kv_mem ex_db1_def ex_e1_def)
  have c: "leCommand ex_e1 = Some ex_cmd" "cmdGroup ex_cmd = 7" by (simp_all add: ex_e1_def ex_cmd_def)
  show "log_ok mem_lib ex_db1 7" "group_log mem_lib ex_db1 7 = [ex_e1]"
    using mem.group_log_insert [OF mem_log_empty(1) _ _ c kv] by (simp_all add: mem_log_empty)
qed

lemma ex_log2: "log_ok mem_lib ex_db2 7" "group_log mem_lib ex_db2 7 = [ex_e1, ex_e2]"
proof -
  have kv: "kv mem_lib ex_db2 = (kv mem_lib ex_db1)(LogEntryKey 7 (leIndex ex_e2) \<mapsto> enc_log_entry ex_e2)"
    by (auto simp: kv_mem ex_db1_def ex_db2_def ex_e2_def fun_eq_iff)
  have c: "leCommand ex_e2 = Some ex_cmd" "cmdGroup ex_cmd = 7" by (simp_all add: ex_e2_def ex_cmd_def)
  have less: "leIndex ex_e1 < leIndex ex_e2" by (simp add: ex_e1_def ex_e2_def)
  show "log_ok mem_lib ex_db2 7" "group_log mem_lib ex_db2 7 = [ex_e1, ex_e2]"
    using mem.group_log_insert [OF ex_log1(1) _ _ c kv] less by (simp_all add: ex_log1(2))
qed

lemma ex_chained: "chained (genesisHash 7) [ex_e1, ex_e2]" "contiguous 1 [ex_e1, ex_e2]"
  by (simp_all add: ex_e1_def ex_e2_def ex_cmd_def)

lemma ex_server_sel [simp]:
  "srvId (ex_server i rts db) = i" "srvDB (ex_server i rts db) = db" "srvRTGroups (ex_server i rts db) = rts"
  "srvFuncReg (ex_server i rts db) = [10 \<mapsto> FnUser 0]" "srvNodePublicKeys (ex_server i rts db) k = Some ex_pk"
  "rt (ex_server i (r # rts) db) 0 = r" "gid (ex_server i (r # rts) db) 0 = grpId (rtGroup r)"
  "srvHosts (ex_server i rts db) = Map.empty" "srvGroups (ex_server i rts db) = Map.empty"
  "GetOnboardGroup (ex_server i rts db) g = (if g = 7 then Some 0 else None)"
  by (simp_all add: ex_server_def rt_def gid_def GetOnboardGroup_def)

lemma ex_rt_sel [simp]:
  "rtLeader (ex_rt l ro) = l" "rtRole (ex_rt l ro) = ro" "grpId (rtGroup (ex_rt l ro)) = 7" "grpTerm (rtGroup (ex_rt l ro)) = 1"
  "rtGroupPeers (ex_rt l ro) = [(1, ex_peer 1), (2, ex_peer 2), (3, ex_peer 3)]"
  "rtLastVotedTerm (ex_rt l ro) = 0" "rtLastVotedTo (ex_rt l ro) = 0" "rtTimeout (ex_rt l ro) = 0"
  by (simp_all add: ex_rt_def)

lemma ex_keys [simp]: "keys_ok L (ex_server i rts db)" "pubkey L (ex_server i rts db) n = Some ex_pk"
  "GetHostPublicKey L (ex_server i rts db) n = Some (Some ex_pk, ex_server i rts db)"
  by (simp_all add: keys_ok_def GetHostPublicKey_def pubkey_def)

lemma ex_index:
  "LastEntryIndex mem_lib ex_db1 7 = 1" "LastLogEntry mem_lib ex_db1 7 = Some ex_e1"
  "LastEntryIndex mem_lib ex_db2 7 = 2" "LastLogEntry mem_lib ex_db2 7 = Some ex_e2"
  using ex_log1 ex_log2
  by (simp_all add: mem.LastEntryIndex_log mem.LastLogEntry_log ex_e1_def ex_e2_def)

lemma ex_committable: "committable [10 \<mapsto> FnUser 0] 7 ex_e2" "committable [10 \<mapsto> FnUser 0] 7 ex_e1"
  by (simp_all add: committable_def ex_e1_def ex_e2_def ex_cmd_def)

lemma ex_tracks: "peer_tracks mem_lib ex_db1 7 (ex_peer 2)"
  by (simp add: peer_tracks_def ex_index ex_log1 ex_peer_def)

section \<open>Votes\<close>

definition ex_sign :: "RequestVoteResponse \<Rightarrow> RequestVoteResponse" where
  "ex_sign v = v\<lparr>voteSignature := enc_pkix ex_pk @ SHA1Hash (RequestVoteResponseSignData v)\<rparr>"

definition ex_vote :: "u64 \<Rightarrow> u64 \<Rightarrow> RequestVoteResponse" where
  "ex_vote cand voter = ex_sign \<lparr>voteGroup = 7, voteTerm = 1, voteLogIndex = 1, voteCandidateId = cand,
     voteVoter = voter, voteGranted = True, voteSignature = []\<rparr>"

lemma ex_vote_sel [simp]:
  "voteGroup (ex_vote c v) = 7" "voteCandidateId (ex_vote c v) = c" "voteVoter (ex_vote c v) = v" "voteGranted (ex_vote c v)"
  "VerifySign mem_lib ex_pk (voteSignature (ex_vote c v)) (RequestVoteResponseSignData (ex_vote c v))"
  by (simp_all add: ex_vote_def ex_sign_def VerifySign_def RequestVoteResponseSignData_def)

definition ex_claim :: "u64 \<Rightarrow> u64 list \<Rightarrow> AppendEntriesRequest" where
  "ex_claim leader vs = \<lparr>aeGroup = 7, aeTerm = 2, aeLeaderId = leader, aePrevLogIndex = 1, aePrevLogTerm = 1, aeSignature = [],
     aeQuorumVotes = map (ex_vote leader) vs, aeEntries = []\<rparr>"

lemma ex_peers_wf: "peers_wf (ex_rt l ro)" "peer_ids (ex_rt l ro) = {1, 2, 3}"
  by (simp_all add: peers_wf_def peer_ids_def ex_peer_def)

lemma ex_expected: "ExpectedHonestPeers (ex_rt l ro) = 2"
  by (simp add: ExpectedHonestPeers_def ExpectedPlayers_def)

lemma ex_follows:
  assumes "vs = [1, 3] \<or> vs = [2, 3]"
  shows "\<exists>s'. BecomeFollower mem_lib ex_clock 0 (ex_claim leader vs) (ex_server i [ex_rt l ro] db) = Some (True, s')"
  using assms by (auto simp: BecomeFollower_def ex_claim_def ex_expected ex_peer_def Let_def)

section \<open>Requests\<close>

definition ex_append :: AppendEntriesRequest where
  "ex_append = \<lparr>aeGroup = 7, aeTerm = 1, aeLeaderId = 1, aePrevLogIndex = 1, aePrevLogTerm = 1, aeSignature = [],
     aeQuorumVotes = [], aeEntries = [ex_e2]\<rparr>"

lemma ex_append_facts:
  "aeEntries ex_append = [ex_e2]" "aeLeaderId ex_append = 1" "aePrevLogIndex ex_append = 1" "aePrevLogTerm ex_append = 1"
  "contiguous 2 [ex_e2]" "chained (last_hash (genesisHash 7) [ex_e1]) [ex_e2]" "leTerm ex_e1 = 1"
  "gid ex_follower 0 = 7" "srvDB ex_follower = ex_db1" "srvRTGroups ex_follower = [ex_rt 1 FOLLOWER]" "rt ex_follower 0 = ex_rt 1 FOLLOWER"
  "srvFuncReg ex_follower = [10 \<mapsto> FnUser 0]" "keys_ok mem_lib ex_follower" "pubkey mem_lib ex_follower n = Some ex_pk"
  by (simp_all add: ex_append_def ex_e2_def ex_e1_def ex_cmd_def last_hash_def ex_follower_def)

lemma ex_append_accepted:
  "\<exists>resp s'. AppendEntries mem_lib ex_clock ex_follower 0 ex_append = Some (Inr resp, s')"
  using mem.AppendEntries_accepts [of 0 ex_follower ex_append ex_clock]
  by (auto simp: ex_append_facts ex_log1 ex_index ex_committable simp del: contiguous.simps chained.simps)

text \<open>A leader without followers, and a command that its client has signed.\<close>

definition ex_alone :: "memdb BFTRaftServer" where
  "ex_alone = ex_server 1 [(ex_rt 1 LEADER)\<lparr>rtGroupPeers := [(1, ex_peer 1)]\<rparr>] []"

definition ex_signed :: CommandRequest where
  "ex_signed = ex_cmd\<lparr>cmdSignature := enc_pkix ex_pk @ SHA1Hash (ExecCommandSignData ex_cmd)\<rparr>"

lemma ex_alone_facts:
  "GetOnboardGroup ex_alone 7 = Some 0" "rtLeader (rt ex_alone 0) = srvId ex_alone" "onboard_ok ex_alone" "srvId ex_alone = 1"
  "srvDB ex_alone = []" "rtGroupPeers (rt ex_alone 0) = [(1, ex_peer 1)]" "srvFuncReg ex_alone 10 = Some (FnUser 0)"
  "keys_ok L ex_alone" "command_signed mem_lib ex_alone ex_signed" "cmdGroup ex_signed = 7" "cmdFuncId ex_signed = 10"
  by (simp_all add: ex_alone_def onboard_ok_def command_signed_def ex_signed_def ex_cmd_def VerifySign_def
      ExecCommandSignData_def)

lemma mem_last_empty [simp]: "LastEntryIndex mem_lib [] g = 0" "LastLogEntry mem_lib [] g = None"
  by (simp_all add: mem.LastEntryIndex_log mem.LastLogEntry_log mem_log_empty)

lemma ex_alone_runs:
  "\<exists>r s'. ExecCommand mem_lib ex_clock (\<lambda>sent. []) (\<lambda>a c. None) (\<lambda>ps. ps) ex_alone ex_signed = Some (Some r, s') \<and>
     group_log mem_lib (srvDB s') 7 = [new_entry mem_lib 0 ex_signed ex_alone]"
  using mem.ExecCommand_alone [OF mem_io ex_alone_facts(3), of ex_signed 0 "ex_peer 1" "FnUser 0" ex_clock "\<lambda>sent. []" "\<lambda>a c. None" "\<lambda>ps. ps"]
  by (auto simp: ex_alone_facts mem_log_empty dest!: log_extendsD(2))

definition ex_vote_req :: "u64 \<Rightarrow> RequestVoteRequest" where
  "ex_vote_req c = \<lparr>rvGroup = 7, rvTerm = 2, rvLogIndex = 1, rvLogTerm = 1, rvCandidateId = c, rvSignature = []\<rparr>"

end
