(* ===== verification/Log_Properties.thy ===== *)
theory Log_Properties
  imports Examples
begin

text \<open>
  The properties of the replicated log: the handlers and operations that touch it, stated with the assumptions on the libraries
  written out, and a run of each on the example cluster.
\<close>

text \<open>
  C11.  Whatever request \<^verbatim>\<open>AppendEntries\<close> is sent, the log of the group is afterwards the old log followed by some of the
  entries of the request in their order, its hash chain is intact, and the logs of all other groups are as they were.  The
  only bound is that the indices of the new entries do not exceed 64 bits.
\<close>

theorem append_entries_extends_log:
  assumes "libraries L" "AppendEntries L C s m req = Some (r, s')" "m < length (srvRTGroups s)"
    and "log_ok L (srvDB s) (gid s m)" "chained (genesisHash (gid s m)) (group_log L (srvDB s) (gid s m))"
    and "unat (LastEntryIndex L (srvDB s) (gid s m)) + length (aeEntries req) + 1 < 2 ^ 64"
  shows "\<exists>new. subseq new (aeEntries req) \<and> group_log L (srvDB s') (gid s m) = group_log L (srvDB s) (gid s m) @ new \<and>
     chained (genesisHash (gid s m)) (group_log L (srvDB s') (gid s m)) \<and> log_ok L (srvDB s') (gid s m) \<and>
     (\<forall>g. g \<noteq> gid s m \<longrightarrow> group_log L (srvDB s') g = group_log L (srvDB s) g)"
  using libraries.AppendEntries_log [OF assms(1-4,6)] assms(5) by (auto simp: log_extends_def chained_append)

theorem append_entries_extends_log_witness:
  "\<exists>r s' new. AppendEntries mem_lib ex_clock ex_follower 0 ex_append = Some (r, s') \<and> subseq new [ex_e2] \<and>
     group_log mem_lib (srvDB s') 7 = [ex_e1] @ new \<and> chained (genesisHash 7) ([ex_e1] @ new)"
proof -
  obtain r s' where a: "AppendEntries mem_lib ex_clock ex_follower 0 ex_append = Some (r, s')" using ex_append_accepted by blast
  have "chained (genesisHash 7) [ex_e1]" using ex_chained by simp
  then show ?thesis using append_entries_extends_log [OF mem.libraries_axioms a] a
    by (auto simp: ex_append_facts ex_log1 ex_index)
qed



text \<open>
  A request from the recorded leader whose previous index and term match and whose entries continue the indices and the hash
  chain is accepted, when every command names a registered function and nothing fails in the libraries: all entries are
  appended.
\<close>

theorem append_entries_accepts:
  assumes "libraries L" "no_io_errors L" "m < length (srvRTGroups s)" "log_ok L (srvDB s) (gid s m)" "keys_ok L s"
    and "map_of (rtGroupPeers (rt s m)) (aeLeaderId req) \<noteq> None" "aeLeaderId req = rtLeader (rt s m)"
      "pubkey L s (rtLeader (rt s m)) \<noteq> None"
    and "unat (LastEntryIndex L (srvDB s) (gid s m)) + length (aeEntries req) + 1 < 2 ^ 64"
    and "aePrevLogIndex req = LastEntryIndex L (srvDB s) (gid s m)"
      "aePrevLogTerm req = (case LastLogEntry L (srvDB s) (gid s m) of None \<Rightarrow> 0 | Some e \<Rightarrow> leTerm e)"
    and "aeEntries req \<noteq> []" "contiguous (LastEntryIndex L (srvDB s) (gid s m) + 1) (aeEntries req)"
      "chained (last_hash (genesisHash (gid s m)) (group_log L (srvDB s) (gid s m))) (aeEntries req)"
    and "\<forall>e \<in> set (aeEntries req). committable (srvFuncReg s) (gid s m) e"
  shows "\<exists>resp s'. AppendEntries L C s m req = Some (Inr resp, s') \<and> arSuccessed resp \<and>
     group_log L (srvDB s') (gid s m) = group_log L (srvDB s) (gid s m) @ aeEntries req"
proof -
  obtain resp s' where "AppendEntries L C s m req = Some (Inr resp, s')" "arSuccessed resp"
      "log_extends L (gid s m) (srvDB s) (srvDB s') (aeEntries req)"
    by (rule exE [OF libraries.AppendEntries_accepts [OF assms(1-14), of C]]) (use assms(15) in blast)+
  then show ?thesis by (intro exI [of _ resp] exI [of _ s']) (simp add: log_extends_def)
qed

theorem append_entries_accepts_witness:
  "\<exists>resp s'. AppendEntries mem_lib ex_clock ex_follower 0 ex_append = Some (Inr resp, s') \<and> arSuccessed resp \<and>
     group_log mem_lib (srvDB s') 7 = [ex_e1, ex_e2]"
proof -
  note a = append_entries_accepts [where s = ex_follower and m = 0 and req = ex_append and L = mem_lib and C = ex_clock,
      unfolded ex_append_facts ex_rt_sel ex_log1 ex_index]
  show ?thesis
    by (rule a [simplified append_Cons append_Nil])
      (simp_all add: mem.libraries_axioms ex_log1 ex_append_facts ex_committable del: contiguous.simps chained.simps)
qed

text \<open>
  C23.  \<^verbatim>\<open>PullGroupLogs\<close> answers with the entries of the group's log after the one at the requested index, in order, and with
  nothing when no entry has that index; the entry at the index itself is never part of the answer.
\<close>

theorem pull_group_logs_suffix:
  assumes "libraries L" "log_ok L (srvDB s) (pullGroup req)"
  shows "PullGroupLogs L s req = Some (if \<exists>e \<in> set (group_log L (srvDB s) (pullGroup req)). leIndex e = pullIndex req
      then map Some (filter (\<lambda>e. pullIndex req < leIndex e) (group_log L (srvDB s) (pullGroup req))) else [])"
  using libraries.PullGroupLogs_log [OF assms] by (simp add: Let_def)

theorem pull_group_logs_suffix_witness:
  "PullGroupLogs mem_lib ex_leader \<lparr>pullGroup = 7, pullIndex = 1\<rparr> = Some [Some ex_e2] \<and>
   PullGroupLogs mem_lib ex_leader \<lparr>pullGroup = 7, pullIndex = 3\<rparr> = Some []"
  using pull_group_logs_suffix [OF mem.libraries_axioms, of ex_leader "\<lparr>pullGroup = 7, pullIndex = 1\<rparr>"]
    pull_group_logs_suffix [OF mem.libraries_axioms, of ex_leader "\<lparr>pullGroup = 7, pullIndex = 3\<rparr>"]
  by (simp_all add: ex_leader_def ex_log2) (simp_all add: ex_e1_def ex_e2_def)

text \<open>
  C24.  On a well-formed log, for an entry of the group with an index above all stored ones, \<^verbatim>\<open>AppendEntryToLocal\<close> refines the
  abstract append: it checks the next hash of the chain and nothing else, and on success the log is the old one with the entry at
  its end.
\<close>

theorem append_refines:
  assumes "libraries L" "log_ok L db g" "\<forall>e' \<in> set (group_log L db g). leIndex e' < leIndex e"
    and "leCommand e = Some c" "cmdGroup c = g" "marshalLogEntry L e = Some data"
    and "txnSet L db (LogEntryKey g (leIndex e)) data = Inr db2"
  shows "AppendEntryToLocal L g db e = Some (if chained (last_hash (genesisHash g) (group_log L db g)) [e]
            then Inr db2 else Inl LogHashMismatch) \<and>
     group_log L db2 g = group_log L db g @ [e] \<and> log_ok L db2 g"
proof -
  have b: "libraries L" using assms(1) .
  note r = libraries.AppendEntryToLocal_refines [OF b assms(2) _ assms(4-7)]
  have "\<And>e'. e' \<in> set (group_log L db g) \<Longrightarrow> leIndex e' < leIndex e" using assms(3) by blast
  then show ?thesis using r assms(4) by (simp add: eq_commute)
qed

theorem append_refines_witness:
  "AppendEntryToLocal mem_lib 7 ex_db1 ex_e2 = Some (Inr (AList.update (LogEntryKey 7 2) (enc_log_entry ex_e2) ex_db1))"
  using append_refines [OF mem.libraries_axioms ex_log1(1), of ex_e2 ex_cmd "enc_log_entry ex_e2"
      "AList.update (LogEntryKey 7 2) (enc_log_entry ex_e2) ex_db1"] ex_append_facts(6)
  by (simp add: ex_log1 del: chained.simps) (simp add: ex_e1_def ex_e2_def ex_cmd_def)

lemma filter_split_sorted:
  fixes f :: "'a \<Rightarrow> 'b :: linorder"
  assumes "sorted_wrt (<) (map f xs)"
  shows "xs = filter (\<lambda>x. f x < n) xs @ filter (\<lambda>x. n \<le> f x) xs"
  using assms
proof (induction xs)
  case (Cons x xs)
  then have "filter (\<lambda>x. f x < n) xs = []" if "n \<le> f x" using that by (force simp: filter_empty_conv)
  with Cons show ?case by (auto simp: not_less)
qed simp

text \<open>
  \<^verbatim>\<open>PeerUncommittedLogEntries\<close> returns the entries from the peer's next index on in the order of the log, and as previous entry
  the one just before them, if there is one.
\<close>

theorem uncommitted_entries_suffix:
  assumes "libraries L" "log_ok L db g" "peerNextIndex peer \<noteq> 0" "PeerUncommittedLogEntries L db g peer = (entries, prevEntry)"
  shows "\<exists>committed. group_log L db g = committed @ entries \<and> (\<forall>e \<in> set committed. leIndex e < peerNextIndex peer) \<and>
      (\<forall>e \<in> set entries. peerNextIndex peer \<le> leIndex e) \<and> (committed \<noteq> [] \<longrightarrow> prevEntry = last committed)"
proof -
  let ?log = "group_log L db g" and ?old = "\<lambda>e. leIndex e < peerNextIndex peer"
  have b: "libraries L" using assms(1) .
  have eq: "entries = filter (\<lambda>e. peerNextIndex peer \<le> leIndex e) ?log"
    "filter ?old ?log \<noteq> [] \<longrightarrow> prevEntry = last (filter ?old ?log)"
    using libraries.PeerUncommittedLogEntries_log [OF b assms(2), of peer] assms(3,4) by (auto simp: Let_def)
  have "?log = filter ?old ?log @ filter (\<lambda>e. peerNextIndex peer \<le> leIndex e) ?log"
    using libraries.sorted_group_log [OF b assms(2)] by (rule filter_split_sorted)
  then show ?thesis using eq by (intro exI [of _ "filter ?old ?log"]) (auto simp: not_less)
qed

theorem uncommitted_entries_suffix_witness:
  "\<exists>committed. [ex_e1, ex_e2] = committed @ fst (PeerUncommittedLogEntries mem_lib ex_db2 7 (ex_peer 2)) \<and>
     (\<forall>e \<in> set committed. leIndex e < 2)"
  using uncommitted_entries_suffix [OF mem.libraries_axioms ex_log2(1), of "ex_peer 2", OF _ surjective_pairing]
  by (auto simp: ex_log2 ex_peer_def)

text \<open>
  The log is tamper evident: two chains of the same length that end in the same hash have the same indices, functions,
  arguments and hashes throughout, unless two of the hashed strings collide under SHA-1.  Terms, clients and signatures are not
  covered.
\<close>

theorem log_tamper_evident:
  assumes "chained (genesisHash g) es" "chained (genesisHash g) es'" "length es = length es'"
    and "last_hash (genesisHash g) es = last_hash (genesisHash g) es'"
    and "\<forall>x \<in> set (preimages (genesisHash g) es). \<forall>y \<in> set (preimages (genesisHash g) es'). SHA1Hash x = SHA1Hash y \<longrightarrow> x = y"
  shows "list_all2 same_operation es es'"
  using chained_tamper_evident [OF assms(1,2) refl assms(3,4)] assms(5) by blast

theorem log_tamper_evident_witness:
  "list_all2 same_operation [ex_e1] [ex_e1\<lparr>leTerm := 5\<rparr>]"
  by (rule log_tamper_evident [of 7])
    (simp_all add: last_hash_def preimage_def, simp_all add: ex_e1_def ex_cmd_def)

text \<open>
  C25.  The reverse iterator finds the end of the log: \<^verbatim>\<open>LastLogEntry\<close> is the entry with the greatest index, and \<^verbatim>\<open>LastEntryHash\<close>
  and \<^verbatim>\<open>LastEntryIndex\<close> are its hash and index, with the hash of the group's name and zero for the empty log.
\<close>

theorem last_log_entry_correct:
  assumes "libraries L" "log_ok L db g"
  shows "(case LastLogEntry L db g of
        None \<Rightarrow> group_log L db g = [] \<and> LastEntryHash L db g = genesisHash g \<and> LastEntryIndex L db g = 0
      | Some e \<Rightarrow> e \<in> set (group_log L db g) \<and> (\<forall>e' \<in> set (group_log L db g). leIndex e' \<le> leIndex e) \<and>
          LastEntryHash L db g = leHash e \<and> LastEntryIndex L db g = leIndex e)"
proof (cases "group_log L db g" rule: rev_cases)
  case Nil
  then show ?thesis using assms
    by (simp add: libraries.LastLogEntry_log libraries.LastEntryHash_log libraries.LastEntryIndex_log last_hash_def)
next
  case (snoc es e)
  then have "\<forall>e' \<in> set es. leIndex e' \<le> leIndex e"
    using libraries.sorted_group_log [OF assms] by (auto simp: sorted_wrt_append order.strict_implies_order)
  with snoc show ?thesis using assms
    by (simp add: libraries.LastLogEntry_log libraries.LastEntryHash_log libraries.LastEntryIndex_log last_hash_def)
qed

theorem last_log_entry_correct_witness:
  "LastLogEntry mem_lib ex_db2 7 = Some ex_e2 \<and> leIndex ex_e1 \<le> 2 \<and> LastEntryHash mem_lib ex_db2 7 = leHash ex_e2"
  using last_log_entry_correct [OF mem.libraries_axioms ex_log2(1)] by (auto simp: ex_log2 ex_index)

text \<open>
  Running the command of an entry through the state machine, whatever function it names, changes no log of any group and
  neither the identity nor the key nor the functions of the server.
\<close>

theorem state_machine_keeps_logs:
  assumes "libraries L" "CommitGroupLog L now e s = Some (r, s')"
  shows "group_log L (srvDB s') g = group_log L (srvDB s) g \<and> srvId s' = srvId s \<and> srvPrivateKey s' = srvPrivateKey s \<and>
     srvFuncReg s' = srvFuncReg s"
  using libraries.CommitGroupLog_frame [OF assms] libraries.logs_eq_logs(1) [OF assms(1)] by (simp add: sm_frame_def)

theorem state_machine_keeps_logs_witness:
  "\<exists>r s'. CommitGroupLog mem_lib 0 ex_e2 ex_leader = Some (r, s') \<and> group_log mem_lib (srvDB s') 7 = [ex_e1, ex_e2]"
proof -
  obtain r s' where c: "CommitGroupLog mem_lib 0 ex_e2 ex_leader = Some (r, s')"
    using mem.CommitGroupLog_returns [of ex_leader 7 ex_e2 0] ex_committable by (auto simp: ex_leader_def)
  show ?thesis using c state_machine_keeps_logs [OF mem.libraries_axioms c, of 7] by (auto simp: ex_leader_def ex_log2)
qed

end
