(* ===== verification/Hosting.thy ===== *)
theory Hosting
  imports Membership
begin

text \<open>
  What every operation of a server does to the groups it hosts: none is lost, each keeps its id, and handling messages never makes the
  server a leader or a candidate, so that only the time wheel does.
\<close>

section \<open>Hosted groups\<close>

text \<open>In all groups of a server the maps of peers are keyed by the ids of the peers.\<close>

definition well_typed :: "'db BFTRaftServer \<Rightarrow> bool" where
  "well_typed s \<longleftrightarrow> (\<forall>i < length (srvRTGroups s). peers_wf (rt s i))"

text \<open>Groups keep their ids and stay well typed, and a hosted group was hosted before or is new.\<close>

definition hosting :: "'db BFTRaftServer \<Rightarrow> 'db BFTRaftServer \<Rightarrow> bool" where
  "hosting s s' \<longleftrightarrow> length (srvRTGroups s) \<le> length (srvRTGroups s') \<and> (\<forall>i < length (srvRTGroups s). gid s' i = gid s i) \<and>
     (\<forall>g m. GetOnboardGroup s' g = Some m \<longrightarrow> GetOnboardGroup s g = Some m \<or>
        length (srvRTGroups s) \<le> m \<and> m < length (srvRTGroups s') \<and> gid s' m = g) \<and>
     (well_typed s \<longrightarrow> well_typed s')"

lemma hosting_refl [simp, intro]: "hosting s s"
  by (simp add: hosting_def)

lemma hosting_trans [trans]:
  assumes "hosting s t" "hosting t u"
  shows "hosting s u"
proof -
  have "GetOnboardGroup s g = Some m \<or> length (srvRTGroups s) \<le> m \<and> m < length (srvRTGroups u) \<and> gid u m = g"
    if "GetOnboardGroup u g = Some m" for g m
  proof (cases "GetOnboardGroup t g = Some m")
    case True
    then show ?thesis using assms unfolding hosting_def by (metis order.strict_trans2)
  next
    case False
    then show ?thesis using assms that unfolding hosting_def by (meson order_trans)
  qed
  moreover have "length (srvRTGroups s) \<le> length (srvRTGroups u)" "\<forall>i < length (srvRTGroups s). gid u i = gid s i"
    using assms unfolding hosting_def by (auto intro: order_trans)
  moreover have "well_typed s \<longrightarrow> well_typed u" using assms by (simp add: hosting_def)
  ultimately show ?thesis by (simp add: hosting_def)
qed

lemma hosting_onboard: "hosting s s' \<Longrightarrow> onboard_ok s \<Longrightarrow> onboard_ok s'"
  unfolding hosting_def onboard_ok_def by (metis order.strict_trans2)

lemma hosting_typed: "hosting s s' \<Longrightarrow> well_typed s \<Longrightarrow> well_typed s'"
  by (simp add: hosting_def)

lemma hosting_cong: "srvRTGroups s' = srvRTGroups s \<Longrightarrow> srvGroupsOnboard s' = srvGroupsOnboard s \<Longrightarrow> hosting s s'"
  by (simp add: hosting_def well_typed_def gid_def rt_def GetOnboardGroup_def)

lemma caches_hosting: "caches_only s s' \<Longrightarrow> hosting s s'"
  by (intro hosting_cong) (simp_all add: caches_only_sel)

lemma updateDB_hosting: "updateDB L s f = (r, s') \<Longrightarrow> hosting s s'"
  by (drule updateDB_only_DB) (metis BFTRaftServer.select_convs(5,6) BFTRaftServer.surjective BFTRaftServer.update_convs(3) hosting_cong)

lemma set_rt_hosting:
  assumes "grpId (rtGroup r) = gid s m" "peers_wf (rt s m) \<Longrightarrow> peers_wf r"
  shows "hosting s (set_rt m r s)"
proof -
  have "well_typed (set_rt m r s)" if "well_typed s"
    unfolding well_typed_def
  proof (intro allI impI)
    fix i assume "i < length (srvRTGroups (set_rt m r s))"
    then show "peers_wf (rt (set_rt m r s) i)" using that assms(2) by (cases "i = m") (auto simp: well_typed_def rt_def set_rt_def)
  qed
  with assms(1) show ?thesis
    by (cases "m < length (srvRTGroups s)") (auto simp: hosting_def gid_def rt_def set_rt_def GetOnboardGroup_def nth_list_update)
qed

lemma RefreshTimer_hosting: "hosting s (RefreshTimer C m t s)"
  unfolding RefreshTimer_def by (rule set_rt_hosting) (simp_all add: gid_def peers_wf_def)

lemma new_group_hosting:
  assumes "NewRTGroup s now l ps g r = (m, s1)" "\<And>r. rtGroupPeers r = ps \<Longrightarrow> peers_wf r"
  shows "hosting s (SetOnboardGroup s1 m)"
proof -
  have "well_typed (SetOnboardGroup s1 m)" if "well_typed s"
    using that assms by (auto simp: well_typed_def NewRTGroup_def SetOnboardGroup_def rt_def nth_append)
  with assms(1) show ?thesis
    by (auto simp: hosting_def NewRTGroup_def SetOnboardGroup_def GetOnboardGroup_def gid_def rt_def nth_append split: if_splits)
qed

lemma hb_frame_hosting: "hb_frame L s s' \<Longrightarrow> hosting s s'"
  by (simp add: hosting_def hb_frame_gid) (simp add: hb_frame_def well_typed_def GetOnboardGroup_def)

text \<open>Handling a message moreover never makes the server a leader or a candidate of a group it already hosted.\<close>

definition handled :: "'db BFTRaftServer \<Rightarrow> 'db BFTRaftServer \<Rightarrow> bool" where
  "handled s s' \<longleftrightarrow> hosting s s' \<and> (\<forall>m. no_promotion m s s')"

lemma handled_hosting: "handled s s' \<Longrightarrow> hosting s s'"
  by (simp add: handled_def)

lemma handled_refl [simp, intro]: "handled s s"
  by (simp add: handled_def)

lemma handled_trans [trans]: "handled s t \<Longrightarrow> handled t u \<Longrightarrow> handled s u"
  unfolding handled_def by (blast intro: hosting_trans no_promotion_trans)

lemma handled_cong:
  "srvRTGroups s' = srvRTGroups s \<Longrightarrow> srvGroupsOnboard s' = srvGroupsOnboard s \<Longrightarrow> srvId s' = srvId s \<Longrightarrow> handled s s'"
  by (simp add: handled_def hosting_cong no_promotion_def rt_def)

lemma caches_handled: "caches_only s s' \<Longrightarrow> handled s s'"
  by (intro handled_cong) (simp_all add: caches_only_sel)

lemma updateDB_handled: "updateDB L s f = (r, s') \<Longrightarrow> handled s s'"
  by (drule updateDB_only_DB, rule handled_cong) (metis BFTRaftServer.select_convs(1,5,6) BFTRaftServer.surjective BFTRaftServer.update_convs(3))+

lemma set_rt_handled:
  assumes "grpId (rtGroup r) = gid s m" "rtRole r = LEADER \<Longrightarrow> rtRole (rt s m) = LEADER"
    and "m < length (srvRTGroups s) \<Longrightarrow> rtRole r = CANDIDATE \<Longrightarrow>
      rtRole (rt s m) = CANDIDATE \<and> grpTerm (rtGroup r) = grpTerm (rtGroup (rt s m))"
    and "peers_wf (rt s m) \<Longrightarrow> peers_wf r"
  shows "handled s (set_rt m r s)"
proof -
  have "no_promotion i s (set_rt m r s)" for i
    using assms(2,3) by (cases "i = m") (auto simp: no_promotion_def set_rt_def rt_def)
  with set_rt_hosting [OF assms(1,4)] show ?thesis by (simp add: handled_def)
qed

lemma RefreshTimer_handled: "handled s (RefreshTimer C m t s)"
  unfolding RefreshTimer_def by (rule set_rt_handled) (simp_all add: peers_wf_def gid_def)

lemma new_group_handled:
  "NewRTGroup s now l ps g r = (m, s1) \<Longrightarrow> (\<And>r. rtGroupPeers r = ps \<Longrightarrow> peers_wf r) \<Longrightarrow> handled s (SetOnboardGroup s1 m)"
  unfolding handled_def using new_group_hosting [of s now l ps g r m s1]
  by (auto simp: no_promotion_def NewRTGroup_def SetOnboardGroup_def rt_def nth_append)

lemma hb_frame_handled:
  assumes "hb_frame L s s'"
  shows "handled s s'"
proof -
  have "no_promotion i s s'" for i
  proof (cases "i < length (srvRTGroups s)")
    case True
    with assms obtain ps t v where "rt s' i = (rt s i)\<lparr>rtGroupPeers := ps, rtTimeout := t, rtSendVotesForPeers := v\<rparr>"
      unfolding hb_frame_def by blast
    then show ?thesis using assms by (simp add: no_promotion_def hb_frame_def)
  qed (simp add: no_promotion_def)
  with hb_frame_hosting [OF assms] show ?thesis by (simp add: handled_def)
qed

section \<open>Peers in the database\<close>

lemma peers_loop_wf:
  "peers_wf (r\<lparr>rtGroupPeers := acc\<rparr>) \<Longrightarrow> peers_loop L p items acc = Some ps \<Longrightarrow> peers_wf (r\<lparr>rtGroupPeers := ps\<rparr>)"
proof (induction L p items acc rule: peers_loop.induct)
  case (2 L p item rest acc)
  show ?case
  proof (cases "prefix p (fst item)")
    case True
    with 2(3) obtain d where d: "ItemValue (Some item) = Some d" by (cases "ItemValue (Some item)") simp_all
    let ?q = "fst (unmarshalPeer L d)"
    have "peers_wf (r\<lparr>rtGroupPeers := AList.update (peerId ?q) ?q acc\<rparr>)" using peers_wf_update [OF 2(2), of ?q _ r] by simp
    then show ?thesis using 2(1) [OF True d refl] 2(3) True d by (simp add: Let_def)
  next
    case False
    with 2 show ?thesis by simp
  qed
qed simp

lemma stored_peers_wf:
  assumes "GetGroupPeersFromKV L db g = Some ps"
  shows "peers_wf (r\<lparr>rtGroupPeers := ps\<rparr>)"
proof (rule peers_loop_wf)
  show "peers_wf (r\<lparr>rtGroupPeers := []\<rparr>)" by (simp add: peers_wf_def)
qed (rule assms [unfolded GetGroupPeersFromKV_def Let_def])

section \<open>State machine functions\<close>

lemma notifyPending_handled: "handled s (notifyPending g e s)"
  by (intro handled_cong) (simp_all add: notifyPending_def split: option.split)

lemma NodeJoin_txn_handled:
  assumes "NodeJoin_txn L n g p s = Some (r, s')"
  shows "handled s s'"
proof -
  obtain h s1 where h: "GetHost L s (srvDB s) n = (h, s1)" by fastforce
  obtain gr s2 where gr: "GetGroup L s1 (srvDB s1) g = (gr, s2)" by fastforce
  have c: "handled s s1" "handled s1 s2" using h gr by (simp_all add: caches caches_handled)
  consider "s' = s1" | "s' = s2" | u f where "updateDB L s1 f = (u :: join_error update_error option, s')"
    | u f where "updateDB L s2 f = (u :: join_error update_error option, s')"
    using assms h gr by (auto simp: NodeJoin_txn_def bind_eq_Some_conv split: option.splits if_splits)
  then show ?thesis using c by cases (auto intro: handled_trans updateDB_handled)
qed

lemma SMNodeJoin_handled:
  assumes "SMNodeJoin L arg e s = Some (r, s')"
  shows "handled s s'"
proof -
  obtain req ok where req: "unmarshalNodeJoin L arg = (req, ok)" by fastforce
  show ?thesis
  proof (cases ok)
    case False
    with assms req show ?thesis by (simp add: SMNodeJoin_def)
  next
    case True
    with assms req obtain cmd err s1 where cmd: "leCommand e = Some cmd"
      and j: "NodeJoin_txn L (cmdClientId cmd) (njGroup req)
        \<lparr>peerId = cmdClientId cmd, peerGroup = njGroup req, peerNextIndex = 0, peerMatchIndex = 0\<rparr> s = Some (err, s1)"
      by (auto simp: SMNodeJoin_def bind_eq_Some_conv Let_def)
    obtain h s2 where h: "GetHostNTXN L s1 (cmdClientId cmd) = (h, s2)" by fastforce
    let ?p = "\<lparr>peerId = cmdClientId cmd, peerGroup = njGroup req, peerNextIndex = 0, peerMatchIndex = 0\<rparr>"
    have "handled s s1" using j by (rule NodeJoin_txn_handled)
    moreover have "handled s1 s2" using h by (simp add: caches caches_handled)
    moreover have "handled s2 (set_rt m ((rt s2 m)\<lparr>rtGroupPeers := AList.update (cmdClientId cmd) ?p (rtGroupPeers (rt s2 m))\<rparr>)
        (s2\<lparr>srvOut := out\<rparr>))" for m out
    proof -
      have "handled s2 (s2\<lparr>srvOut := out\<rparr>)" by (rule handled_cong) simp_all
      also have "handled (s2\<lparr>srvOut := out\<rparr>)
          (set_rt m ((rt s2 m)\<lparr>rtGroupPeers := AList.update (cmdClientId cmd) ?p (rtGroupPeers (rt s2 m))\<rparr>) (s2\<lparr>srvOut := out\<rparr>))"
        by (rule set_rt_handled) (simp_all add: gid_def rt_def peers_wf_update)
      finally show ?thesis .
    qed
    moreover have "s' = s1 \<or> s' = s2 \<or>
        (\<exists>m out. s' = set_rt m ((rt s2 m)\<lparr>rtGroupPeers := AList.update (cmdClientId cmd) ?p (rtGroupPeers (rt s2 m))\<rparr>) (s2\<lparr>srvOut := out\<rparr>))"
      using assms req True cmd j h
      by (auto simp: SMNodeJoin_def bind_eq_Some_conv Let_def split: if_splits option.splits)
    ultimately show ?thesis using handled_trans by blast
  qed
qed

lemma SMNewGroup_handled:
  assumes "SMNewGroup L now arg e s = Some (r, s')"
  shows "handled s s'"
proof -
  obtain cmd grp ok where cmd: "leCommand e = Some cmd" and grp: "unmarshalRaftGroup L arg = (grp, ok)"
    using assms by (fastforce simp: SMNewGroup_def bind_eq_Some_conv)
  obtain ex s1 where ex: "GetGroup L s (srvDB s) (grpId grp) = (ex, s1)" by fastforce
  let ?p = "\<lparr>peerId = cmdClientId cmd, peerGroup = grpId grp, peerNextIndex = 0, peerMatchIndex = 0\<rparr>"
  obtain u s2 where u: "updateDB L s1 (NewGroup_txn L grp ?p) = (u, s2)" by fastforce
  obtain m s3 where m: "NewRTGroup s2 now (cmdClientId cmd) [(peerId ?p, ?p)] (grp\<lparr>grpTerm := 0\<rparr>) LEADER = (m, s3)"
    by fastforce
  have 1: "handled s s1" using ex by (simp add: caches caches_handled)
  have 2: "handled s s2" using 1 updateDB_handled [OF u] by (rule handled_trans)
  have 3: "handled s (SetOnboardGroup s3 m)" using 2 new_group_handled [OF m] by (auto simp: peers_wf_def intro: handled_trans)
  have "s' = s \<or> s' = s2 \<or> s' = notifyPending (grpId grp) (Some GroupExisted) s1 \<or>
      (\<exists>e. s' = notifyPending (grpId grp) e s2) \<or> s' = notifyPending (grpId grp) None (SetOnboardGroup s3 m)"
    using assms cmd grp ex u m
    by (auto simp: SMNewGroup_def Let_def split: if_splits option.splits bool.splits)
  then show ?thesis using 1 2 3 notifyPending_handled handled_trans by (metis handled_refl)
qed

lemma SMRegHost_handled: "SMRegHost L arg e s = Some (r, s') \<Longrightarrow> handled s s'"
  by (auto simp: SMRegHost_def Let_def split: prod.splits bool.splits intro: updateDB_handled)

lemma SMNewClient_handled: "SMNewClient L arg e s = Some (r, s') \<Longrightarrow> handled s s'"
  by (auto simp: SMNewClient_def SaveHostNTXN_def Let_def split: prod.splits bool.splits intro: updateDB_handled)

lemma runRaftFunc_handled: "runRaftFunc L now fn arg e s = Some (r, s') \<Longrightarrow> handled s s'"
  by (cases fn) (auto simp: runRaftFunc_def
      dest: SMNodeJoin_handled SMRegHost_handled SMNewClient_handled SMNewGroup_handled)

lemma CommitGroupLog_handled: "CommitGroupLog L now e s = Some (r, s') \<Longrightarrow> handled s s'"
  by (auto simp: CommitGroupLog_def bind_eq_Some_conv dest: runRaftFunc_handled)

section \<open>Handlers\<close>

lemma append_local_handled: "append_local L m e s = Some s' \<Longrightarrow> handled s s'"
  unfolding append_local_def bind_eq_Some_conv using updateDB_handled [OF surjective_pairing] by fastforce

lemma respond_client_handled: "handled s (respond_client L m e c r h s)"
  by (intro handled_cong) (simp_all add: respond_client_def)

lemma apply_entries_handled: "apply_entries L now m es resp s = Some (r, s') \<Longrightarrow> handled s s'"
proof (induction es arbitrary: resp s)
  case (Cons e es)
  obtain cmd s1 res s2 where 1: "append_local L m e s = Some s1" and cmd: "leCommand e = Some cmd"
    and 2: "CommitGroupLog L now e s1 = Some (res, s2)"
    using Cons.prems by (auto simp: bind_eq_Some_conv WaitLogApproved_def)
  obtain h s3 where h: "GetHostNTXN L s2 (cmdClientId cmd) = (h, s3)" by fastforce
  have c: "handled s s3"
    using append_local_handled [OF 1] CommitGroupLog_handled [OF 2] caches_handled [OF GetHostNTXN_caches [OF h]] handled_trans by metis
  show ?case
  proof (cases h)
    case None
    then have "apply_entries L now m es resp s3 = Some (r, s')"
      using Cons.prems 1 2 cmd h by (simp add: bind_eq_Some_conv WaitLogApproved_def)
    then show ?thesis using Cons.IH c handled_trans by blast
  next
    case (Some client)
    let ?s4 = "respond_client L m e cmd res client s3"
    obtain resp' where "apply_entries L now m es resp' ?s4 = Some (r, s')"
      using Cons.prems 1 2 cmd h Some by (auto simp: bind_eq_Some_conv WaitLogApproved_def Let_def)
    then show ?thesis using Cons.IH [of resp' ?s4] c respond_client_handled handled_trans by metis
  qed
qed simp

lemma ResetTerm_handled:
  assumes "m < length (srvRTGroups s) \<Longrightarrow> rtRole (rt s m) \<noteq> CANDIDATE"
  shows "handled s (ResetTerm L m t s)"
proof -
  let ?r = "(rt s m)\<lparr>rtGroup := (rtGroup (rt s m))\<lparr>grpTerm := t\<rparr>, rtVotes := [], rtLastVotedTerm := 0, rtLastVotedTo := 0,
      rtSendVotesForPeers := rtSendVotesForPeers (rt s m) ++ map_of (map (\<lambda>(peerId, p). (peerId, True)) (rtGroupPeers (rt s m)))\<rparr>"
  have "handled s (set_rt m ?r s)" by (rule set_rt_handled) (use assms in \<open>simp_all add: gid_def peers_wf_def\<close>)
  also have "handled (set_rt m ?r s) (snd (SaveGroupNTXN L (set_rt m ?r s) (rtGroup ?r)))"
    unfolding SaveGroupNTXN_def by (rule updateDB_handled [OF surjective_pairing])
  finally show ?thesis by (simp add: ResetTerm_def Let_def)
qed

lemma save_handled: "handled s (snd (SaveGroupNTXN L s g))"
  unfolding SaveGroupNTXN_def by (rule updateDB_handled [OF surjective_pairing])

lemma BecomeFollower_handled:
  assumes "BecomeFollower L C m req s = Some (b, s')"
  shows "handled s s'"
proof (cases "int (length (aeQuorumVotes req)) < ExpectedHonestPeers (rt s m)")
  case True
  with assms show ?thesis by (simp add: BecomeFollower_def)
next
  case False
  with assms obtain ids s1 where ids: "check_votes L m req (aeQuorumVotes req) [] s = Some (ids, s1)"
    by (auto simp: BecomeFollower_def Let_def bind_eq_Some_conv)
  have c: "handled s s1" using check_votes_spec(1) [OF ids] by (rule caches_handled)
  show ?thesis
  proof (cases "ExpectedHonestPeers (rt s m) \<le> int (length ids)")
    case True
    let ?s2 = "set_rt m ((rt s1 m)\<lparr>rtRole := FOLLOWER\<rparr>) s1"
    let ?s3 = "RefreshTimer C m 10 (ResetTerm L m (aeTerm req) ?s2)"
    let ?s4 = "set_rt m ((rt ?s3 m)\<lparr>rtLeader := aeLeaderId req\<rparr>) ?s3"
    have "handled s1 ?s2" by (rule set_rt_handled) (simp_all add: peers_wf_def gid_def)
    also have "handled ?s2 (ResetTerm L m (aeTerm req) ?s2)" by (rule ResetTerm_handled) simp
    also have "handled (ResetTerm L m (aeTerm req) ?s2) ?s3" by (rule RefreshTimer_handled)
    also have "handled ?s3 ?s4" by (rule set_rt_handled) (simp_all add: peers_wf_def gid_def)
    also have "handled ?s4 (snd (SaveGroupNTXN L ?s4 (rtGroup (rt ?s4 m))))" by (rule save_handled)
    finally have "handled s1 s'" using True False assms ids by (simp add: BecomeFollower_def Let_def)
    with c show ?thesis by (rule handled_trans)
  next
    case f: False
    with False assms ids c show ?thesis by (simp add: BecomeFollower_def Let_def)
  qed
qed

lemma verify_loop_caches:
  "verify_loop L es n i h s = Some (b, s') \<Longrightarrow> caches_only s s'"
proof (induction L es n i h s rule: verify_loop.induct)
  case (1 L es n i h s)
  show ?case
  proof (cases "i < n + of_nat (length es)")
    case False
    with "1.prems" show ?thesis by (subst (asm) verify_loop.simps) simp
  next
    case True
    then obtain cmd where cmd: "leCommand (es ! unat (i - n)) = Some cmd"
      using "1.prems" by (subst (asm) verify_loop.simps) (auto simp: Let_def split: option.splits)
    show ?thesis
    proof (cases "s' = s")
      case False
      then obtain v s1 where v: "VerifyCommandSign L s cmd = Some (v, s1)" and
        rest: "verify_loop L es n (i + 1) (LogHash h i (cmdFuncId cmd) (cmdArg cmd)) s1 = Some (b, s')" and
        hash: "\<not> (leIndex (es ! unat (i - n)) \<noteq> i \<or> leHash (es ! unat (i - n)) \<noteq> LogHash h i (cmdFuncId cmd) (cmdArg cmd))"
        using "1.prems" True cmd by (subst (asm) verify_loop.simps) (auto simp: Let_def split: option.splits if_splits)
      have "caches_only s1 s'" using "1.IH" [OF True refl cmd refl hash v refl rest] .
      with VerifyCommandSign_caches [OF v] show ?thesis by (rule caches_only_trans)
    qed simp
  qed
qed


lemma append_new_handled:
  assumes "append_new L now m req resp s = Some (r, s')"
  shows "handled s s'"
proof -
  let ?last = "LastEntryIndex L (srvDB s) (gid s m)" and ?h = "LastEntryHash L (srvDB s) (gid s m)"
  have "s' = s \<or> (\<exists>b s1. verify_loop L (aeEntries req) (?last + 1) (?last + 1) ?h s = Some (b, s1) \<and>
      (s' = s1 \<or> (\<exists>resp'. apply_entries L now m (aeEntries req) resp s1 = Some (resp', s'))))"
    using assms by (auto simp: append_new_def Let_def bind_eq_Some_conv split: if_splits)
  then show ?thesis
    using caches_handled [OF verify_loop_caches] apply_entries_handled handled_trans by (metis handled_refl)
qed

lemma check_leader_handled:
  "check_leader L C s m req = Some (err, s') \<Longrightarrow> handled s s'"
  by (auto simp: check_leader_def bind_eq_Some_conv split: if_splits intro: BecomeFollower_handled)

lemma AppendEntries_handled:
  assumes a: "AppendEntries L C s m req = Some (r, s')"
  shows "handled s s'"
proof -
  obtain err s1 where c: "check_leader L C s m req = Some (err, s1)"
    using a by (auto simp: AppendEntries_def Let_def bind_eq_Some_conv)
  have h1: "handled s s1" using c by (rule check_leader_handled)
  show ?thesis
  proof (cases "err = None")
    case False
    with a c h1 show ?thesis by (auto simp: AppendEntries_def Let_def)
  next
    case True
    then obtain k s2 where k: "GetHostPublicKey L s1 (rtLeader (rt s1 m)) = Some (k, s2)"
      using a c by (auto simp: AppendEntries_def Let_def bind_eq_Some_conv)
    let ?s3 = "set_rt m ((rt s2 m)\<lparr>rtTimeout := clkNow C + 10000\<rparr>) s2"
    have h2: "handled s s2" using h1 caches_handled [OF GetHostPublicKey_caches [OF k]] by (rule handled_trans)
    have "handled s2 ?s3" by (rule set_rt_handled) (simp_all add: peers_wf_def gid_def)
    with h2 have h3: "handled s ?s3" by (rule handled_trans)
    have "s' = s2 \<or> s' = ?s3 \<or> (\<exists>resp. append_new L (clkNow C) m req resp ?s3 = Some (r, s'))"
      using a c True k by (auto simp: AppendEntries_def Let_def split: if_splits)
    then show ?thesis using h2 h3 append_new_handled handled_trans by blast
  qed
qed

lemma exec_accepted_handled:
  assumes lib: "libraries L" and a: "exec_accepted L C net m cmd response s = Some (r, s')"
  shows "handled s s'"
proof -
  let ?e = "new_entry L m cmd s"
  obtain ar where ar: "AppendEntryToLocal L (gid s m) (srvDB s) ?e = Some ar"
    using a by (auto simp: exec_accepted_def exec_append_def Let_def bind_eq_Some_conv)
  obtain u s1 where u: "updateDB L s (\<lambda>txn. ar) = (u, s1)" by fastforce
  have h1: "handled s s1" using u by (rule updateDB_handled)
  show ?thesis
  proof (cases "u = None")
    case False
    with a ar u h1 show ?thesis by (auto simp: exec_accepted_def exec_append_def Let_def)
  next
    case True
    obtain s2 where s2: "SendFollowersHeartbeat L C net m s1 = Some s2"
      and rest: "s' = s2 \<or> (\<exists>res. CommitGroupLog L (clkNow C) ?e s2 = Some (res, s'))"
      using a ar u True by (auto simp: exec_accepted_def exec_append_def Let_def bind_eq_Some_conv split: if_splits)
    have "handled s s2" using h1 hb_frame_handled [OF libraries.SendFollowersHeartbeat_frame [OF lib s2]] by (rule handled_trans)
    then show ?thesis using rest CommitGroupLog_handled handled_trans by blast
  qed
qed

lemma exec_leader_handled:
  assumes lib: "libraries L" and x: "exec_leader L C net m cmd response s = Some (r, s')"
  shows "handled s s'"
  using x
proof (cases rule: exec_leader_cases)
  case (accepted s1)
  show ?thesis using caches_handled [OF accepted(1)] exec_accepted_handled [OF lib accepted(3)] by (rule handled_trans)
qed (rule caches_handled)

lemma ExecCommand_handled:
  assumes lib: "libraries L" and x: "ExecCommand L C net fwd ord s cmd = Some (r, s')"
  shows "handled s s'"
proof -
  have "(\<exists>h. exec_target L ord (GetOnboardGroup s (cmdGroup cmd)) (cmdGroup cmd) s = Some (h, s')) \<or>
      (\<exists>m r. exec_leader L C net m cmd (exec_response L cmd s) s = Some (r, s'))"
    using x by (auto simp: ExecCommand_def Let_def bind_eq_Some_conv split: option.splits if_splits)
  then show ?thesis using exec_leader_handled [OF lib] exec_target_caches caches_handled by metis
qed

lemma members_loop_caches: "members_loop L ps ms s = (ms', s') \<Longrightarrow> caches_only s s'"
proof (induction ps arbitrary: ms s)
  case (Cons p ps)
  obtain pid peer where p: "p = (pid, peer)" by fastforce
  obtain h s1 where h: "GetHostNTXN L s (peerId peer) = (h, s1)" by fastforce
  have "caches_only s s1" using h by (rule GetHostNTXN_caches)
  moreover have "caches_only s1 s'" using Cons h p by (cases h) auto
  ultimately show ?case by (rule caches_only_trans)
qed simp

lemma query_caches:
  "GroupHosts L s g = Some (r1, s') \<Longrightarrow> caches_only s s'" "GroupMembers L s g = (r2, s') \<Longrightarrow> caches_only s s'"
  "GetGroupContent L s g = (r3, s') \<Longrightarrow> caches_only s s'" "rpc_GetGroupLeader L pick s g = Some (r4, s') \<Longrightarrow> caches_only s s'"
     apply (auto simp: GroupHosts_def GetGroupHostsNTXN_def bind_eq_Some_conv dest: GetGroupHosts_caches)[1]
    apply (auto simp: GroupMembers_def RPCGroupMembers_def Let_def split: option.splits prod.splits dest: members_loop_caches)[1]
   apply (auto simp: GetGroupContent_def GetGroupNTXN_def dest: GetGroup_caches)[1]
  apply (auto simp: rpc_GetGroupLeader_def GroupLeader_def Let_def bind_eq_Some_conv split: option.splits prod.splits
      dest: GetGroupHosts_caches GetHostNTXN_caches)[1]
  done

lemma join_group_handled:
  assumes j: "join_group L ord now g leaders s = Some s'"
  shows "handled s s'"
proof -
  let ?peer = "\<lparr>peerId = srvId s, peerGroup = g, peerNextIndex = 0, peerMatchIndex = 0\<rparr>"
  obtain found s1 where s1: "GetGroupNTXN L s g = (found, s1)" by fastforce
  have c: "caches_only s s1" using s1 by (simp add: GetGroupNTXN_def caches)
  obtain u s2 where u: "updateDB L s1 (\<lambda>txn. SavePeer L txn ?peer) = (u, s2)" by fastforce
  obtain db where "s2 = s1\<lparr>srvDB := db\<rparr>" using updateDB_only_DB [OF u] by blast
  then have id: "srvId s2 = srvId s" "srvDB s1 = srvDB s" by (simp_all add: caches_only_sel [OF c])
  have h2: "handled s s2" using caches_handled [OF c] updateDB_handled [OF u] by (rule handled_trans)
  have new: "handled s2 (SetOnboardGroup (snd (NewRTGroup s2 now l (AList.update (srvId s) ?peer ps) grp ro))
      (fst (NewRTGroup s2 now l (AList.update (srvId s) ?peer ps) grp ro)))"
    if ps: "GetGroupPeersFromKV L (srvDB s) g = Some ps" for l ps grp ro
  proof (rule new_group_handled [OF surjective_pairing])
    fix r :: RTGroup
    assume r: "rtGroupPeers r = AList.update (srvId s) ?peer ps"
    have "peers_wf (r\<lparr>rtGroupPeers := AList.update (srvId s) ?peer ps\<rparr>)"
      using peers_wf_update [OF stored_peers_wf [OF ps, of r], of ?peer "srvId s" r] by simp
    then show "peers_wf r" by (simp add: r [symmetric])
  qed
  obtain ps where ps: "GetGroupPeersFromKV L (srvDB s) g = Some ps"
    using j s1 id(2) by (auto simp: join_group_def Let_def bind_eq_Some_conv)
  show ?thesis
  proof (cases u)
    case (Some err)
    then have "s' = s2" using j s1 u ps id(2) caches_only_sel(2) [OF c] by (simp add: join_group_def)
    with h2 show ?thesis by simp
  next
    case None
    then obtain grp where "found = Some grp" using j s1 u ps id(2) caches_only_sel(2) [OF c]
      by (cases found) (simp_all add: join_group_def Let_def)
    with None j s1 u ps id caches_only_sel(2) [OF c] have "s' =
        (let l = if PickMajority ord leaders = srvId s then LEADER_const else PickMajority ord leaders;
             (m, s3) = NewRTGroup s2 now l (AList.update (srvId s) ?peer ps) grp FOLLOWER in SetOnboardGroup s3 m)"
      by (simp add: join_group_def Let_def split: prod.splits split del: if_split)
    then have "handled s2 s'" using new [OF ps] by (simp add: Let_def case_prod_unfold)
    with h2 show ?thesis by (rule handled_trans)
  qed
qed

section \<open>Elections\<close>

lemma ResetTerm_hosting: "hosting s (ResetTerm L m t s)"
proof -
  let ?r = "(rt s m)\<lparr>rtGroup := (rtGroup (rt s m))\<lparr>grpTerm := t\<rparr>, rtVotes := [], rtLastVotedTerm := 0, rtLastVotedTo := 0,
      rtSendVotesForPeers := rtSendVotesForPeers (rt s m) ++ map_of (map (\<lambda>(peerId, p). (peerId, True)) (rtGroupPeers (rt s m)))\<rparr>"
  have "hosting s (set_rt m ?r s)" by (rule set_rt_hosting) (simp_all add: gid_def peers_wf_def)
  also have "hosting (set_rt m ?r s) (snd (SaveGroupNTXN L (set_rt m ?r s) (rtGroup ?r)))"
    unfolding SaveGroupNTXN_def by (rule updateDB_hosting [OF surjective_pairing])
  finally show ?thesis by (simp add: ResetTerm_def Let_def)
qed

lemma start_election_hosting: "hosting s (start_election L m s)"
proof -
  let ?s1 = "set_rt m ((rt s m)\<lparr>rtRole := CANDIDATE\<rparr>) s"
  let ?s2 = "ResetTerm L m (grpTerm (rtGroup (rt ?s1 m)) + 1) ?s1"
  have "hosting s ?s1" by (rule set_rt_hosting) (simp_all add: gid_def peers_wf_def)
  also have "hosting ?s1 ?s2" by (rule ResetTerm_hosting)
  also have "hosting ?s2 (snd (SaveGroupNTXN L ?s2 (rtGroup (rt ?s2 m))))" using save_handled by (rule handled_hosting)
  finally show ?thesis by (simp add: start_election_def Let_def)
qed

lemma BecomeLeader_hosting:
  assumes lib: "libraries L" and b: "BecomeLeader L C hnet m s = Some s'"
  shows "hosting s s'"
proof -
  let ?s1 = "set_rt m ((rt s m)\<lparr>rtRole := LEADER, rtLeader := srvId s\<rparr>) s"
  let ?s2 = "snd (updateDB L ?s1 (\<lambda>txn. SaveGroup L txn (rtGroup (rt ?s1 m))))"
  have h: "SendFollowersHeartbeat L C hnet m ?s2 = Some s'" using b by (simp add: BecomeLeader_def Let_def)
  have "hosting s ?s1" by (rule set_rt_hosting) (simp_all add: gid_def peers_wf_def)
  also have "hosting ?s1 ?s2" by (rule updateDB_hosting [OF surjective_pairing])
  also have "hosting ?s2 s'" using libraries.SendFollowersHeartbeat_frame [OF lib h] by (rule hb_frame_hosting)
  finally show ?thesis .
qed

lemma BecomeCandidate_hosting:
  assumes lib: "libraries L" and b: "BecomeCandidate L C vnet hnet env m s = Some s'" and env: "\<And>t. hosting t (env t)"
  shows "hosting s s'"
proof -
  let ?s1 = "start_election L m s"
  let ?last = "LastLogEntry L (srvDB ?s1) (gid ?s1 m)"
  obtain asked s2 received s3 where ask: "ask_peers L (rtGroupPeers (rt ?s1 m)) ?s1 = Some (asked, s2)"
    and got: "granted_votes L ?last (vnet (vote_request L m ?last ?s1) asked) (env s2) = Some (received, s3)"
    using b by (auto simp: BecomeCandidate_def Let_def bind_eq_Some_conv)
  have h3: "hosting s s3"
    using start_election_hosting caches_hosting [OF ask_peers_caches [OF ask]] env caches_hosting [OF granted_votes_spec(1) [OF got]]
      hosting_trans by metis
  have "\<exists>s4. hosting s3 s4 \<and> s' = RefreshTimer C m 25 s4"
  proof (cases "collect_votes (ExpectedHonestPeers (rt s2 m)) received []")
    case None
    then show ?thesis using b ask got by (auto simp: BecomeCandidate_def Let_def)
  next
    case (Some votes)
    let ?s4 = "set_rt m ((rt s3 m)\<lparr>rtVotes := votes\<rparr>) s3"
    have h4: "hosting s3 ?s4" by (rule set_rt_hosting) (simp_all add: gid_def peers_wf_def)
    show ?thesis
    proof (cases "rtRole (rt ?s4 m) = CANDIDATE")
      case True
      then obtain s5 where s5: "BecomeLeader L C hnet m ?s4 = Some s5" "s' = RefreshTimer C m 25 (RefreshTimer C m 1 s5)"
        using b ask got Some by (auto simp: BecomeCandidate_def Let_def bind_eq_Some_conv)
      have "hosting s3 s5" using h4 BecomeLeader_hosting [OF lib s5(1)] by (rule hosting_trans)
      then have "hosting s3 (RefreshTimer C m 1 s5)" using RefreshTimer_hosting by (rule hosting_trans)
      with s5(2) show ?thesis by blast
    next
      case False
      then have "s' = RefreshTimer C m 25 ?s4" using b ask got Some by (simp add: BecomeCandidate_def Let_def)
      with h4 show ?thesis by blast
    qed
  qed
  then show ?thesis using h3 RefreshTimer_hosting hosting_trans by metis
qed

end
