(* ===== verification/System.thy ===== *)
theory System
  imports Hosting
begin

text \<open>
  A server as a state machine: a step relation whose steps are the messages a server handles, the rounds of the time wheels
  of its groups and the last step of joining a group, in any order.  The invariant of its states is that the groups it hosts are where
  the table says and that every log is well formed with an intact hash chain; along any run every log only grows at its end.
\<close>

section \<open>The step relation\<close>

text \<open>
  Handling one message, forgetting expired entries of the caches or counting votes of an election that has timed out; and one step of a server: a
  message, a vote or a round of the time wheel.  Requests are arbitrary, and so are the clock and what the network answers.  The steps that append to a log assume that its indices do not exceed 64 bits.  A vote is cast in the
  state of the last poll, which the server has reached by other steps in the meantime; while a candidate waits for its votes, other messages
  are handled.  Rounds of observers are left out: their logs may be filled from the middle.
\<close>

inductive message_step :: "'db lib \<Rightarrow> 'db BFTRaftServer \<Rightarrow> 'db BFTRaftServer \<Rightarrow> bool" for L where
  append: "rpc_AppendEntries L C s req = Some (r, s') \<Longrightarrow>
    unat (LastEntryIndex L (srvDB s) (aeGroup req)) + length (aeEntries req) + 1 < 2 ^ 64 \<Longrightarrow> message_step L s s'"
| vote: "rpc_RequestVote L polls s req = Some (v, s') \<Longrightarrow> (\<And>k. (message_step L)\<^sup>*\<^sup>* s (polls k)) \<Longrightarrow> message_step L s s'"
| exec: "ExecCommand L C net fwd ord s cmd = Some (r, s') \<Longrightarrow> unat (LastEntryIndex L (srvDB s) (cmdGroup cmd)) + 1 < 2 ^ 64 \<Longrightarrow>
    message_step L s s'"
| hosts: "GroupHosts L s g = Some (r, s') \<Longrightarrow> message_step L s s'"
| members: "GroupMembers L s g = (r, s') \<Longrightarrow> message_step L s s'"
| content: "GetGroupContent L s g = (r, s') \<Longrightarrow> message_step L s s'"
| leader: "rpc_GetGroupLeader L pick s g = Some (r, s') \<Longrightarrow> message_step L s s'"
| invited: "message_step L s (SendGroupInvitation s iv)"
| expired: "s' = s\<lparr>srvHosts := srvHosts s |` A, srvNodePublicKeys := srvNodePublicKeys s |` B, srvGroups := srvGroups s |` D\<rparr> \<Longrightarrow>
    message_step L s s'"
| joined: "join_group L ord now g leaders s = Some s' \<Longrightarrow> message_step L s s'"
| counted: "late_votes L lastEntry expectedVotes earlier answers m s = Some s' \<Longrightarrow> message_step L s s'"

inductive server_step :: "'db lib \<Rightarrow> 'db BFTRaftServer \<Rightarrow> 'db BFTRaftServer \<Rightarrow> bool" for L where
  message: "message_step L s s' \<Longrightarrow> server_step L s s'"
| vote: "rpc_RequestVote L polls s req = Some (v, s') \<Longrightarrow> (\<And>k. (server_step L)\<^sup>*\<^sup>* s (polls k)) \<Longrightarrow> server_step L s s'"
| wheel: "TimeWheel_round L C N env m s = Some s' \<Longrightarrow> (\<And>t. (message_step L)\<^sup>*\<^sup>* t (env t)) \<Longrightarrow>
    m < length (srvRTGroups s) \<Longrightarrow> rtRole (rt s m) \<noteq> OBSERVER \<Longrightarrow> server_step L s s'"

lemma caches_only_expired: "caches_only s (s\<lparr>srvHosts := H, srvNodePublicKeys := K, srvGroups := G\<rparr>)"
  unfolding caches_only_def by blast

definition intact :: "'db lib \<Rightarrow> 'db BFTRaftServer \<Rightarrow> bool" where
  "intact L s \<longleftrightarrow> onboard_ok s \<and> (\<forall>g. log_ok L (srvDB s) g \<and> chained (genesisHash g) (group_log L (srvDB s) g))"

definition grows :: "'db lib \<Rightarrow> 'db BFTRaftServer \<Rightarrow> 'db BFTRaftServer \<Rightarrow> bool" where
  "grows L s s' \<longleftrightarrow> intact L s' \<and> (\<forall>g. prefix (group_log L (srvDB s) g) (group_log L (srvDB s') g))"

lemma grows_refl: "intact L s \<Longrightarrow> grows L s s"
  by (simp add: grows_def)

lemma grows_trans: "grows L s t \<Longrightarrow> grows L t u \<Longrightarrow> grows L s u"
  unfolding grows_def by (blast intro: prefix_order.order_trans)

lemma star_grows:
  assumes "P\<^sup>*\<^sup>* s s'" "intact L s" and "\<And>t u. P t u \<Longrightarrow> intact L t \<Longrightarrow> grows L t u"
  shows "grows L s s'"
  using assms(1)
proof (induction rule: rtranclp_induct)
  case base
  show ?case using assms(2) by (rule grows_refl)
next
  case (step t u)
  then show ?case using assms(3) [of t u] by (meson grows_def grows_trans)
qed

lemma wheel_cases:
  assumes "TimeWheel_round L C N env m s = Some s'" "rtRole (rt s m) \<noteq> OBSERVER"
  obtains "s' = s" | "BecomeCandidate L C (netVote N) (netAppend N) env m s = Some s'"
    | "SendFollowersHeartbeat L C (netAppend N) m s = Some s'"
  using assms by (cases "rtRole (rt s m)"; cases "rtTimeout (rt s m) > clkNow C"; cases "rtLeader (rt s m) = srvId s")
    (simp_all add: TimeWheel_round_def)

lemma rpc_RequestVote_handled:
  assumes v: "rpc_RequestVote L polls s req = Some (v, s')" and polls: "\<And>k. handled s (polls k)"
  shows "handled s s'"
proof (cases "GetOnboardGroup s (rvGroup req)")
  case None
  with v show ?thesis by (simp add: rpc_RequestVote_def)
next
  case (Some m)
  then obtain vote where "RequestVote L polls s m req = Some (vote, s')"
    using v by (auto simp: rpc_RequestVote_def bind_eq_Some_conv)
  then show ?thesis
  proof (cases rule: RequestVote_cases)
    case (granted k)
    have "handled (polls k) s'" unfolding granted(7) by (rule set_rt_handled) (simp_all add: gid_def peers_wf_def)
    with polls show ?thesis by (rule handled_trans)
  qed (simp_all add: polls)
qed

lemma rpc_RequestVote_hosting:
  assumes v: "rpc_RequestVote L polls s req = Some (v, s')" and polls: "\<And>k. hosting s (polls k)"
  shows "hosting s s'"
proof (cases "GetOnboardGroup s (rvGroup req)")
  case None
  with v show ?thesis by (simp add: rpc_RequestVote_def)
next
  case (Some m)
  then obtain vote where "RequestVote L polls s m req = Some (vote, s')"
    using v by (auto simp: rpc_RequestVote_def bind_eq_Some_conv)
  then show ?thesis
  proof (cases rule: RequestVote_cases)
    case (granted k)
    have "hosting (polls k) s'" unfolding granted(7) by (rule set_rt_hosting) (simp_all add: gid_def peers_wf_def)
    with polls show ?thesis by (rule hosting_trans)
  qed (simp_all add: polls)
qed

lemma late_votes_handled:
  assumes "late_votes L e q earlier answers m s = Some s'"
  shows "handled s s'"
  using assms
proof (cases rule: late_votes_cases)
  case (enough s1 votes)
  have "handled s1 s'" unfolding enough(2) by (rule set_rt_handled) (simp_all add: gid_def peers_wf_def)
  with caches_handled [OF enough(1)] show ?thesis by (rule handled_trans)
qed (rule caches_handled)

lemma late_votes_DB: "late_votes L e q earlier answers m s = Some s' \<Longrightarrow> srvDB s' = srvDB s"
  by (cases rule: late_votes_cases) (auto simp: caches_only_sel)

context libraries
begin

lemma grows_logs_eq: "intact L s \<Longrightarrow> hosting s s' \<Longrightarrow> logs_eq L (srvDB s) (srvDB s') \<Longrightarrow> grows L s s'"
  by (simp add: grows_def intact_def logs_eq_logs hosting_onboard)

lemma grows_extends:
  assumes "intact L s" "hosting s s'" "log_extends L g (srvDB s) (srvDB s') new"
    and "chained (last_hash (genesisHash g) (group_log L (srvDB s) g)) new"
  shows "grows L s s'"
proof -
  have "log_ok L (srvDB s') g' \<and> chained (genesisHash g') (group_log L (srvDB s') g') \<and>
      prefix (group_log L (srvDB s) g') (group_log L (srvDB s') g')" for g'
    using assms by (cases "g' = g") (auto simp: intact_def log_extends_def chained_append)
  then show ?thesis using assms(1,2) by (auto simp: grows_def intact_def hosting_onboard)
qed

lemma grows_caches: "intact L s \<Longrightarrow> caches_only s s' \<Longrightarrow> grows L s s'"
  by (intro grows_logs_eq) (simp_all add: handled_hosting caches_handled caches_only_sel)

lemma append_grows:
  assumes "intact L s" "rpc_AppendEntries L C s req = Some (r, s')"
    and small: "unat (LastEntryIndex L (srvDB s) (aeGroup req)) + length (aeEntries req) + 1 < 2 ^ 64"
  shows "grows L s s'"
proof (cases "GetOnboardGroup s (aeGroup req)")
  case None
  with assms show ?thesis by (simp add: rpc_AppendEntries_def grows_refl)
next
  case (Some m)
  have m: "m < length (srvRTGroups s)" "gid s m = aeGroup req" using assms(1) Some by (simp_all add: intact_def onboard_ok_def)
  have a: "AppendEntries L C s m req = Some (r, s')" using assms(2) Some by (simp add: rpc_AppendEntries_def)
  obtain new where "log_extends L (gid s m) (srvDB s) (srvDB s') new"
      "chained (last_hash (genesisHash (gid s m)) (group_log L (srvDB s) (gid s m))) new"
    using AppendEntries_log [OF a m(1)] assms(1) small m(2) by (auto simp: intact_def)
  then show ?thesis using grows_extends [OF assms(1) handled_hosting [OF AppendEntries_handled [OF a]]] by blast
qed

lemma exec_grows:
  assumes "intact L s" and x: "ExecCommand L C net fwd ord s cmd = Some (r, s')"
    and small: "unat (LastEntryIndex L (srvDB s) (cmdGroup cmd)) + 1 < 2 ^ 64"
  shows "grows L s s'"
proof -
  have h: "hosting s s'" using libraries_axioms x by (intro handled_hosting ExecCommand_handled)
  show ?thesis
    using ExecCommand_log [OF x _ _ small] assms(1) grows_logs_eq [OF assms(1) h] grows_extends [OF assms(1) h]
    unfolding intact_def by blast
qed

lemma vote_grows:
  assumes "intact L s" "rpc_RequestVote L polls s req = Some (v, s')" "\<And>k. grows L s (polls k)"
  shows "grows L s s'"
proof (cases "GetOnboardGroup s (rvGroup req)")
  case None
  with assms show ?thesis by (simp add: rpc_RequestVote_def grows_refl)
next
  case (Some m)
  then obtain vote where "RequestVote L polls s m req = Some (vote, s')"
    using assms(2) by (auto simp: rpc_RequestVote_def bind_eq_Some_conv)
  then show ?thesis
  proof (cases rule: RequestVote_cases)
    case (granted k)
    have "hosting (polls k) s'" unfolding granted(7) by (rule set_rt_hosting) (simp_all add: gid_def peers_wf_def)
    moreover have "logs_eq L (srvDB (polls k)) (srvDB s')" by (simp add: granted(7))
    ultimately have "grows L (polls k) s'" using assms(3) [of k] by (intro grows_logs_eq) (simp_all add: grows_def)
    with assms(3) show ?thesis by (rule grows_trans)
  next
    case rejected
    with assms(1) show ?thesis by (simp add: grows_refl)
  next
    case timeout
    with assms(3) show ?thesis by simp
  qed
qed

lemma candidate_grows:
  assumes ok: "intact L s" and b: "BecomeCandidate L C vnet hnet env m s = Some s'" and m: "m < length (srvRTGroups s)"
    and h: "\<And>t. hosting t (env t)" and env: "\<And>t. intact L t \<Longrightarrow> grows L t (env t)"
  shows "grows L s s'"
proof -
  have "\<forall>t. m < length (srvRTGroups t) \<longrightarrow> m < length (srvRTGroups (env t))" using h unfolding hosting_def by (meson order.strict_trans2)
  with b m obtain s2 where c: "caches_only (start_election L m s) s2" and e: "logs_eq L (srvDB (env s2)) (srvDB s')"
    by (rule BecomeCandidate_cases)
  have "hosting s s2" using start_election_hosting handled_hosting [OF caches_handled [OF c]] by (rule hosting_trans)
  moreover have "logs_eq L (srvDB s) (srvDB s2)" using start_election(5) [OF m] by (simp add: caches_only_sel [OF c])
  ultimately have g: "grows L s (env s2)" using ok env [of s2] grows_trans grows_logs_eq unfolding grows_def by meson
  have "\<And>g. group_log L (srvDB s') g = group_log L (srvDB (env s2)) g" "\<And>g. log_ok L (srvDB s') g = log_ok L (srvDB (env s2)) g"
    using logs_eq_logs [OF e] by simp_all
  moreover have "onboard_ok s'" using BecomeCandidate_hosting [OF libraries_axioms b h] ok by (simp add: hosting_onboard intact_def)
  ultimately show ?thesis using g by (simp add: grows_def intact_def)
qed

lemma wheel_grows:
  assumes ok: "intact L s" and w: "TimeWheel_round L C N env m s = Some s'" and m: "m < length (srvRTGroups s)"
    and role: "rtRole (rt s m) \<noteq> OBSERVER" and h: "\<And>t. hosting t (env t)" and env: "\<And>t. intact L t \<Longrightarrow> grows L t (env t)"
  shows "grows L s s'"
proof -
  from w role consider "s' = s" | "BecomeCandidate L C (netVote N) (netAppend N) env m s = Some s'"
    | "SendFollowersHeartbeat L C (netAppend N) m s = Some s'" by (rule wheel_cases)
  then show ?thesis
  proof cases
    case 1
    then show ?thesis using ok by (simp add: grows_refl)
  next
    case 2
    show ?thesis using ok 2 m h env by (rule candidate_grows)
  next
    case 3
    note f = SendFollowersHeartbeat_frame [OF 3]
    then have "logs_eq L (srvDB s) (srvDB s')" by (simp add: hb_frame_def)
    then show ?thesis using ok hb_frame_hosting [OF f] by (intro grows_logs_eq)
  qed
qed

lemma join_grows:
  assumes ok: "intact L s" and j: "join_group L ord now g leaders s = Some s'"
  shows "grows L s s'"
proof -
  let ?peer = "\<lparr>peerId = srvId s, peerGroup = g, peerNextIndex = 0, peerMatchIndex = 0\<rparr>"
  obtain found s1 where s1: "GetGroupNTXN L s g = (found, s1)" by fastforce
  have c: "caches_only s s1" using s1 by (simp add: GetGroupNTXN_def caches)
  obtain u s2 where u: "updateDB L s1 (\<lambda>txn. SavePeer L txn ?peer) = (u, s2)" by fastforce
  have "logs_eq L (srvDB s1) (srvDB s2)" using u SavePeer_logs by (rule updateDB_logs)
  moreover have "srvDB s' = srvDB s2"
    using j s1 u caches_only_sel(2) [OF c]
    by (auto simp: join_group_def Let_def bind_eq_Some_conv NewRTGroup_def SetOnboardGroup_def split: option.splits)
  ultimately show ?thesis using ok handled_hosting [OF join_group_handled [OF j]] by (intro grows_logs_eq) (simp_all add: caches_only_sel [OF c])
qed

lemma message_grows: "message_step L s s' \<Longrightarrow> intact L s \<Longrightarrow> grows L s s'"
proof (induction rule: message_step.induct)
  case (append C s req r s')
  then show ?case by (simp add: append_grows)
next
  case (vote polls s req v s')
  have "grows L s (polls k)" for k
    using vote.IH [of k] vote.prems by (rule star_grows) simp
  with vote.prems vote.hyps(1) show ?case by (rule vote_grows)
next
  case (exec C net fwd ord s cmd r s')
  then show ?case by (simp add: exec_grows)
next
  case (invited s iv)
  have "hosting s (SendGroupInvitation s iv)" by (rule hosting_cong) (simp_all add: SendGroupInvitation_def split: option.split)
  then show ?case using invited by (intro grows_logs_eq) (simp_all add: SendGroupInvitation_def split: option.split)
next
  case (expired s' s A B D)
  then show ?case using grows_caches [OF _ caches_only_expired] by blast
next
  case (joined ord now g leaders s s')
  then show ?case by (simp add: join_grows)
next
  case (counted lastEntry expectedVotes earlier answers m s s')
  then show ?case by (intro grows_logs_eq handled_hosting) (auto simp: late_votes_DB intro: late_votes_handled)
qed (simp_all add: grows_caches [OF _ query_caches(1)] grows_caches [OF _ query_caches(2)] grows_caches [OF _ query_caches(3)]
      grows_caches [OF _ query_caches(4)])

lemma message_handled: "message_step L s s' \<Longrightarrow> handled s s'"
proof (induction rule: message_step.induct)
  case (append C s req r s')
  then show ?case by (cases "GetOnboardGroup s (aeGroup req)") (auto simp: rpc_AppendEntries_def dest: AppendEntries_handled)
next
  case (vote polls s req v s')
  have "handled s (polls k)" for k
    using vote.IH [of k] by (induction rule: rtranclp_induct) (auto intro: handled_trans)
  with vote.hyps(1) show ?case by (rule rpc_RequestVote_handled)
next
  case (exec C net fwd ord s cmd r s')
  then show ?case using ExecCommand_handled [OF libraries_axioms] by blast
next
  case (invited s iv)
  show ?case by (rule handled_cong) (simp_all add: SendGroupInvitation_def split: option.split)
next
  case (expired s' s A B D)
  then show ?case using caches_handled [OF caches_only_expired] by blast
next
  case (joined ord now g leaders s s')
  then show ?case by (rule join_group_handled)
next
  case (counted lastEntry expectedVotes earlier answers m s s')
  then show ?case by (rule late_votes_handled)
qed (simp_all add: caches_handled [OF query_caches(1)] caches_handled [OF query_caches(2)] caches_handled [OF query_caches(3)]
      caches_handled [OF query_caches(4)])

lemma messages_handled: "(message_step L)\<^sup>*\<^sup>* s s' \<Longrightarrow> handled s s'"
  by (induction rule: rtranclp_induct) (auto intro: handled_trans message_handled)

lemma messages_no_promotion: "(message_step L)\<^sup>*\<^sup>* s s' \<Longrightarrow> no_promotion m s s'"
  by (drule messages_handled) (simp add: handled_def)

lemma messages_grow: "(message_step L)\<^sup>*\<^sup>* s s' \<Longrightarrow> intact L s \<Longrightarrow> grows L s s'"
  by (rule star_grows [where P = "message_step L"]) (simp_all add: message_grows)

lemma step_grows: "server_step L s s' \<Longrightarrow> intact L s \<Longrightarrow> grows L s s'"
proof (induction rule: server_step.induct)
  case (message s s')
  then show ?case by (rule message_grows)
next
  case (vote polls s req v s')
  have "grows L s (polls k)" for k
    using vote.IH [of k] vote.prems by (rule star_grows) simp
  with vote.prems vote.hyps(1) show ?case by (rule vote_grows)
next
  case (wheel C N env m s s')
  show ?case
    using wheel.prems wheel.hyps(1,3,4) handled_hosting [OF messages_handled [OF wheel.hyps(2)]] messages_grow [OF wheel.hyps(2)]
    by (rule wheel_grows)
qed

lemma run_grows: "(server_step L)\<^sup>*\<^sup>* s s' \<Longrightarrow> intact L s \<Longrightarrow> grows L s s'"
  by (rule star_grows [where P = "server_step L"]) (simp_all add: step_grows)

text \<open>Every step keeps the groups hosted and well typed, the elections of the time wheel included.\<close>

lemma wheel_hosting:
  assumes w: "TimeWheel_round L C N env m s = Some s'" and role: "rtRole (rt s m) \<noteq> OBSERVER" and env: "\<And>t. hosting t (env t)"
  shows "hosting s s'"
proof -
  from w role consider "s' = s" | "BecomeCandidate L C (netVote N) (netAppend N) env m s = Some s'"
    | "SendFollowersHeartbeat L C (netAppend N) m s = Some s'" by (rule wheel_cases)
  then show ?thesis
    using BecomeCandidate_hosting [OF libraries_axioms _ env] SendFollowersHeartbeat_frame hb_frame_hosting by cases blast+
qed

lemma step_hosting: "server_step L s s' \<Longrightarrow> hosting s s'"
proof (induction rule: server_step.induct)
  case (message s s')
  then show ?case by (intro handled_hosting message_handled)
next
  case (vote polls s req v s')
  have "hosting s (polls k)" for k
    using vote.IH [of k] by (induction rule: rtranclp_induct) (auto intro: hosting_trans)
  with vote.hyps(1) show ?case by (rule rpc_RequestVote_hosting)
next
  case (wheel C N env m s s')
  show ?case using wheel.hyps(1,4) handled_hosting [OF messages_handled [OF wheel.hyps(2)]] by (rule wheel_hosting)
qed

lemma run_hosting: "(server_step L)\<^sup>*\<^sup>* s s' \<Longrightarrow> hosting s s'"
  by (induction rule: rtranclp_induct) (auto intro: hosting_trans step_hosting)

end

end
