(* ===== verification/Vote_Properties.thy ===== *)
theory Vote_Properties
  imports Log_Properties System
begin

text \<open>
  The properties of votes, elections and leadership, with a run of each on the example cluster.
\<close>

section \<open>An election on the example cluster\<close>

definition ex_host :: Host where
  "ex_host = \<lparr>hostId = 0, hostLastSeen = 0, hostOnline = True, hostServerAddr = ''h:1'', hostPublicKey = enc_pkix ex_pk\<rparr>"

text \<open>Node 1 as a follower of node 2 that knows all hosts; nodes 2 and 3 vote for it, and no heartbeat is answered.\<close>

definition ex_runner :: "memdb BFTRaftServer" where
  "ex_runner = (ex_server 1 [ex_rt 2 FOLLOWER] ex_db1)\<lparr>srvHosts := (\<lambda>k. Some ex_host)\<rparr>"

definition ex_vnet :: vote_net where
  "ex_vnet req asked = map (\<lambda>n. (n, ex_vote 1 n)) (filter (\<lambda>n. n \<noteq> 1) (remdups (map fst asked)))"

definition ex_hnet :: ae_net where
  "ex_hnet sent = map (\<lambda>_. None) sent"

lemma ex_runner_sel [simp]:
  "srvId ex_runner = 1" "srvDB ex_runner = ex_db1" "rt ex_runner 0 = ex_rt 2 FOLLOWER" "gid ex_runner 0 = 7"
  "srvRTGroups ex_runner = [ex_rt 2 FOLLOWER]" "srvHosts ex_runner k = Some ex_host" "srvNodePublicKeys ex_runner k = Some ex_pk"
  by (simp_all add: ex_runner_def ex_server_def rt_def gid_def)

lemma SaveGroupNTXN_caches [simp]:
  "srvHosts (snd (SaveGroupNTXN L s g)) = srvHosts s" "srvNodePublicKeys (snd (SaveGroupNTXN L s g)) = srvNodePublicKeys s"
proof -
  have "snd (SaveGroupNTXN L s g) = s\<lparr>srvDB := srvDB (snd (SaveGroupNTXN L s g))\<rparr>"
    unfolding SaveGroupNTXN_def by (rule updateDB_only_DB [OF surjective_pairing])
  then obtain db where "snd (SaveGroupNTXN L s g) = s\<lparr>srvDB := db\<rparr>" by blast
  then show "srvHosts (snd (SaveGroupNTXN L s g)) = srvHosts s"
    "srvNodePublicKeys (snd (SaveGroupNTXN L s g)) = srvNodePublicKeys s" by simp_all
qed

lemma start_election_hosts:
  "srvHosts (start_election L m s) = srvHosts s" "srvNodePublicKeys (start_election L m s) = srvNodePublicKeys s"
  by (simp_all add: start_election_def ResetTerm_def Let_def)

lemma send_loop_known:
  assumes "\<And>k. srvHosts s k = Some h" "dialOK L (hostServerAddr h)"
  shows "\<exists>sent'. send_loop L m ps sent s = (sent', True, s)"
proof (induction ps arbitrary: sent)
  case (Cons p ps)
  then show ?case using assms
    by (cases p) (auto simp: GetHostNTXN_def GetHost_def GetClusterRPC_def split: prod.split)
qed simp

lemma receive_loop_failed: "receive_loop L m (map (\<lambda>_. None) xs) s = Some s"
  by (induction xs) auto

lemma ex_heartbeat:
  assumes "\<And>k. srvHosts s k = Some ex_host"
  shows "SendFollowersHeartbeat mem_lib C ex_hnet m s = Some (RefreshTimer C m 1 s)"
proof -
  have "\<And>k. srvHosts (RefreshTimer C m 1 s) k = Some ex_host" using assms by (simp add: RefreshTimer_def)
  from send_loop_known [of "RefreshTimer C m 1 s", OF this, of mem_lib m "rtGroupPeers (rt (RefreshTimer C m 1 s) m)" "[]"]
  obtain sent where "send_loop mem_lib m (rtGroupPeers (rt (RefreshTimer C m 1 s) m)) [] (RefreshTimer C m 1 s) = (sent, True, RefreshTimer C m 1 s)"
    by (auto simp: ex_host_def)
  then show ?thesis by (simp add: SendFollowersHeartbeat_def Let_def ex_hnet_def receive_loop_failed take_map [symmetric])
qed

lemma ex_elected:
  "\<exists>s'. BecomeCandidate mem_lib ex_clock ex_vnet ex_hnet (\<lambda>t. t) 0 ex_runner = Some s' \<and> rtRole (rt s' 0) = LEADER"
proof -
  let ?s = "start_election mem_lib 0 ex_runner"
  have st: "rt ?s 0 = candidate (ex_rt 2 FOLLOWER)" "length (srvRTGroups ?s) = 1" "srvId ?s = 1" "gid ?s 0 = 7"
      "logs_eq mem_lib ex_db1 (srvDB ?s)"
    using mem.start_election [of 0 ex_runner] by simp_all
  have last: "LastLogEntry mem_lib (srvDB ?s) 7 = Some ex_e1"
    using mem.LastLogEntry_log [of "srvDB ?s" 7] mem.logs_eq_logs [OF st(5), of 7] ex_log1 by simp
  have hosts: "srvHosts ?s k = Some ex_host" "srvNodePublicKeys ?s k = Some ex_pk" for k
    by (simp_all add: start_election_hosts)
  have ask: "ask_peers mem_lib (rtGroupPeers (ex_rt 2 FOLLOWER)) ?s = Some ([(1, ''h:1''), (2, ''h:1''), (3, ''h:1'')], ?s)"
    by (simp add: GetHostNTXN_def GetHost_def hosts GetClusterRPC_def ex_host_def ex_peer_def)
  have votes: "granted_votes mem_lib (Some ex_e1) (ex_vnet req [(1, ''h:1''), (2, ''h:1''), (3, ''h:1'')]) ?s =
      Some ([ex_vote 1 2, ex_vote 1 3], ?s)" for req
    by (simp add: ex_vnet_def GetHostPublicKey_def hosts) (simp add: ex_vote_def ex_sign_def ex_e1_def)
  have role: "rtRole (candidate r) = CANDIDATE" "rtGroupPeers (candidate r) = rtGroupPeers r" for r by (simp_all add: candidate_def)
  let ?s1 = "set_rt 0 ((candidate (ex_rt 2 FOLLOWER))\<lparr>rtVotes := [ex_vote 1 2, ex_vote 1 3]\<rparr>) ?s"
  let ?s2 = "set_rt 0 ((rt ?s1 0)\<lparr>rtRole := LEADER, rtLeader := 1\<rparr>) ?s1"
  let ?s3 = "snd (updateDB mem_lib ?s2 (\<lambda>txn. SaveGroup mem_lib txn (rtGroup (rt ?s2 0))))"
  have s3: "?s3 = ?s2\<lparr>srvDB := srvDB ?s3\<rparr>"
    by (rule updateDB_only_DB [OF surjective_pairing])
  have lead: "BecomeLeader mem_lib ex_clock ex_hnet 0 ?s1 = Some (RefreshTimer ex_clock 0 1 ?s3)"
    unfolding BecomeLeader_def Let_def using hosts s3
    by (subst ex_heartbeat) (simp_all add: st SaveGroupNTXN_caches(1) [unfolded SaveGroupNTXN_def])
  have r3: "rtRole (rt (RefreshTimer ex_clock 0 25 (RefreshTimer ex_clock 0 1 (RefreshTimer ex_clock 0 1 ?s3))) 0) = LEADER"
    using st SaveGroupNTXN_sel(1,3) [of mem_lib ?s2 "rtGroup (rt ?s2 0)", unfolded SaveGroupNTXN_def] by (simp add: RefreshTimer_def)
  show ?thesis
    using lead r3 ask votes
    by (simp add: BecomeCandidate_def Let_def st last role ExpectedHonestPeers_def ExpectedPlayers_eq)
qed

section \<open>Properties\<close>

text \<open>
  C12.  If two servers with the same peers each accept a leader by \<^verbatim>\<open>BecomeFollower\<close>, some peer voted for both leaders: its granted
  votes, verified with its key, are among the quorum votes of both requests.  The votes carry no check of the term, so the voter need not
  be faulty when the terms differ.
\<close>

theorem leaders_share_a_voter:
  assumes "BecomeFollower L C m req s = Some (True, s')" "BecomeFollower L' C' m' req' t = Some (True, t')"
    and "peers_wf (rt s m)" "peers_wf (rt t m')" "peer_ids (rt t m') = peer_ids (rt s m)"
  shows "\<exists>p v v'. v \<in> set (aeQuorumVotes req) \<and> v' \<in> set (aeQuorumVotes req') \<and>
     valid_vote L s m (aeLeaderId req) v p \<and> valid_vote L' t m' (aeLeaderId req') v' p"
  using accepted_leaders_share_voter [OF assms] by (auto simp: voters_def)

theorem leaders_share_a_voter_witness:
  "\<exists>p v v'. v \<in> set (aeQuorumVotes (ex_claim 1 [1, 3])) \<and> v' \<in> set (aeQuorumVotes (ex_claim 2 [2, 3])) \<and>
     valid_vote mem_lib (ex_server 3 [ex_rt 1 FOLLOWER] ex_db1) 0 1 v p \<and>
     valid_vote mem_lib (ex_server 2 [ex_rt 2 FOLLOWER] ex_db1) 0 2 v' p"
proof -
  obtain s' where a: "BecomeFollower mem_lib ex_clock 0 (ex_claim 1 [1, 3]) (ex_server 3 [ex_rt 1 FOLLOWER] ex_db1) = Some (True, s')"
    using ex_follows [of "[1, 3]" 1 3 1 FOLLOWER ex_db1] by blast
  obtain t' where b: "BecomeFollower mem_lib ex_clock 0 (ex_claim 2 [2, 3]) (ex_server 2 [ex_rt 2 FOLLOWER] ex_db1) = Some (True, t')"
    using ex_follows [of "[2, 3]" 2 2 2 FOLLOWER ex_db1] by blast
  show ?thesis using leaders_share_a_voter [OF a b] by (simp add: ex_peers_wf) (simp add: ex_claim_def)
qed

text \<open>
  C17.  \<^verbatim>\<open>BecomeFollower\<close> accepts a leader only when at least \<^verbatim>\<open>ExpectedHonestPeers\<close> peers voted for it, and the group then follows that
  leader in the request's term with its votes forgotten; when it refuses, no group of the server and nothing in the database changes.
\<close>

theorem become_follower_needs_quorum:
  assumes "BecomeFollower L C m req s = Some (b, s')" "m < length (srvRTGroups s)"
  shows "if b then ExpectedHonestPeers (rt s m) \<le> int (card (voters L s m req)) \<and> rt s' m = follow L C m req (rt s m)
         else srvDB s' = srvDB s \<and> srvRTGroups s' = srvRTGroups s"
  using assms(1)
proof (cases rule: BecomeFollower_cases)
  case refused
  then show ?thesis by (simp add: caches_only_sel)
qed (use assms(2) in simp)

theorem become_follower_needs_quorum_witness:
  "2 \<le> int (card (voters mem_lib (ex_server 3 [ex_rt 1 FOLLOWER] ex_db1) 0 (ex_claim 1 [1, 3])))"
proof -
  obtain s' where "BecomeFollower mem_lib ex_clock 0 (ex_claim 1 [1, 3]) (ex_server 3 [ex_rt 1 FOLLOWER] ex_db1) = Some (True, s')"
    using ex_follows [of "[1, 3]" 1 3 1 FOLLOWER ex_db1] by blast
  from become_follower_needs_quorum [OF this] show ?thesis by (simp add: ex_expected)
qed


lemma ex_RequestVote:
  "\<exists>vote s'. RequestVote mem_lib polls (ex_server i [ex_rt l ro] ex_db1) 0 req = Some (vote, s')"
  using RequestVote_returns [of mem_lib "ex_server i [ex_rt l ro] ex_db1" 0 ex_e1 polls req] by (simp add: ex_index)

lemma ex_grants:
  "\<exists>vote s'. RequestVote mem_lib (\<lambda>k. ex_server i [ex_rt l CANDIDATE] ex_db1) (ex_server i [ex_rt l CANDIDATE] ex_db1) 0 (ex_vote_req c) =
     Some (vote, s') \<and> voteGranted vote"
proof -
  let ?s = "ex_server i [ex_rt l CANDIDATE] ex_db1"
  obtain vote s' where v: "RequestVote mem_lib (\<lambda>k. ?s) ?s 0 (ex_vote_req c) = Some (vote, s')"
    using ex_RequestVote by blast
  have "leIndex ex_e1 = 1" by (simp add: ex_e1_def)
  then have "may_grant mem_lib ?s 0 (ex_vote_req c)"
    by (simp add: may_grant_def ex_index ex_vote_req_def MAX_TERM_BUMP_def)
  then have "voteGranted vote" using RequestVote_granted_iff [OF v] by (auto simp: Suc_le_eq intro!: exI [of _ 1])
  with v show ?thesis by blast
qed










definition ex_network :: network where
  "ex_network = \<lparr>netVote = ex_vnet, netAppend = ex_hnet, netPull = (\<lambda>cs req. []), netCount = (\<lambda>x. x), netVals = (\<lambda>x. x)\<rparr>"


end
