(* ===== verification/Network_Properties.thy ===== *)
theory Network_Properties
  imports Log_Properties
begin

text \<open>
  The properties of the operations that involve several nodes - observers, joining, registration, start-up - and the runs of the
  properties of the component theories on the example cluster.
\<close>

section \<open>The result of a query is one of its answers\<close>

lemma collect_results_dom:
  "(h, v) \<in> set (snd (collect_results frs (hs, vs))) \<Longrightarrow> (h, v) \<in> set vs \<or> (\<exists>fr \<in> set frs. Result fr = Some v)"
proof (induction frs arbitrary: hs vs)
  case (Cons fr frs)
  have "x \<in> set (AList.update a b xs) \<Longrightarrow> x \<in> set xs \<or> x = (a, b)" for x a b and xs :: "('x \<times> 'y) list"
    by (induction xs) (auto split: if_splits)
  with Cons show ?case by (fastforce simp: Let_def split: option.splits)
qed simp

lemma MajorityResponse_answer:
  assumes "iteration_order vord" "MajorityResponse ord vord clients frs = Some (Some v)"
  shows "\<exists>fr \<in> set frs. Result fr = Some v"
proof -
  obtain hs vs where c: "collect_results (take (length clients) frs) ([], []) = (hs, vs)" by fastforce
  have "(h, v) \<in> set vs" if "vord vs = (h, v) # xs" for h xs
    using assms(1) that by (metis iteration_order_def list.set_intros(1) set_mset_mset)
  then obtain h where "(h, v) \<in> set vs"
    using assms(2) c by (fastforce simp: MajorityResponse_def Let_def split: if_splits option.splits list.splits dest: map_of_SomeD)
  then show ?thesis using collect_results_dom [of h v "take (length clients) frs" "[]" "[]"] c by (auto dest: in_set_takeD)
qed

lemma dial_peers_caches: "dial_peers L ps s = Some (clients, s') \<Longrightarrow> caches_only s s'"
proof (induction ps arbitrary: s clients)
  case (Cons p ps)
  obtain pid peer where p: "p = (pid, peer)" by fastforce
  obtain h s1 where h: "GetHostNTXN L s (peerId peer) = (h, s1)" by fastforce
  have "caches_only s s1" using h by (rule GetHostNTXN_caches)
  moreover have "caches_only s1 s'" using Cons h p by (cases h) (auto simp: bind_eq_Some_conv)
  ultimately show ?case by (rule caches_only_trans)
qed auto

text \<open>What \<^verbatim>\<open>PullAndCommitGroupLogs\<close> does: it applies one of the answers.\<close>

lemma pull_answer:
  assumes "PullAndCommitGroupLogs L ord vord net now m s = Some s'" "iteration_order vord"
  obtains clients es s1 where "caches_only s s1"
    "Some es \<in> set (net clients \<lparr>pullGroup = gid s m, pullIndex = LastEntryIndex L (srvDB s) (gid s m) + 1\<rparr>)"
    "pull_apply L now m es s1 = Some s'"
proof -
  obtain clients s1 where d: "dial_peers L (rtGroupPeers (rt s m)) s = Some (clients, s1)"
    using assms(1) by (auto simp: PullAndCommitGroupLogs_def bind_eq_Some_conv)
  note c = dial_peers_caches [OF d]
  note f = caches_only_sel [OF c]
  let ?req = "\<lparr>pullGroup = gid s m, pullIndex = LastEntryIndex L (srvDB s) (gid s m) + 1\<rparr>"
  obtain es where es: "MajorityResponse ord vord clients (map pull_result (net clients ?req)) = Some (Some es)"
    "pull_apply L now m es s1 = Some s'"
    using assms(1) d by (auto simp: PullAndCommitGroupLogs_def bind_eq_Some_conv Let_def f)
  then obtain a where "a \<in> set (net clients ?req)" "Result (pull_result a) = Some es"
    using MajorityResponse_answer [OF assms(2) es(1)] by auto
  moreover from this(2) have "a = Some es" by (simp add: pull_result_def split: option.splits)
  ultimately have "Some es \<in> set (net clients ?req)" by simp
  with c es(2) that show ?thesis by blast
qed

section \<open>Logs only grow\<close>

definition log_grows :: "'db lib \<Rightarrow> u64 \<Rightarrow> LogEntry list \<Rightarrow> 'db \<Rightarrow> 'db \<Rightarrow> bool" where
  "log_grows L g es db db' \<longleftrightarrow> log_ok L db' g \<and> set (group_log L db g) \<subseteq> set (group_log L db' g) \<and>
     set (group_log L db' g) \<subseteq> set (group_log L db g) \<union> set es \<and>
     (\<forall>g'. g' \<noteq> g \<longrightarrow> group_log L db' g' = group_log L db g')"

lemma log_grows_trans: "log_grows L g xs a b \<Longrightarrow> log_grows L g ys b c \<Longrightarrow> log_grows L g (xs @ ys) a c"
  unfolding log_grows_def by auto

context libraries
begin

lemma log_grows_logs_eq: "log_ok L db g \<Longrightarrow> logs_eq L db db' \<Longrightarrow> log_grows L g [] db db'"
  by (simp add: log_grows_def logs_eq_logs)

lemma insert_entry:
  assumes ok: "log_ok L db g" and c: "leCommand e = Some c" "cmdGroup c = g" and m: "marshalLogEntry L e = Some data"
    and new: "kv L db (LogEntryKey g (leIndex e)) = None" and kv: "kv L db' = (kv L db)(LogEntryKey g (leIndex e) \<mapsto> data)"
  shows "log_grows L g [e] db db'"
proof -
  let ?p = "prefix (ComposeKeyPrefix g LOG_ENTRIES)" and ?k = "LogEntryKey g (leIndex e)"
  have keys: "set (log_keys L db' g) = insert ?k (set (log_keys L db g))" by (auto simp: set_log_keys kv)
  have "stored_entry L db' k = stored_entry L db k" if "k \<in> set (log_keys L db g)" for k
    using that new by (auto simp: stored_entry_def kv set_log_keys)
  moreover have "stored_entry L db' ?k = e" using log_entry [OF m] by (simp add: stored_entry_def kv)
  ultimately have "set (group_log L db' g) = insert e (set (group_log L db g))" by (simp add: group_log_def keys)
  moreover have "log_ok L db' g" using ok c m unfolding log_ok_def kv by (auto split: if_splits)
  moreover have "group_log L db' g' = group_log L db g'" if "g' \<noteq> g" for g'
    using that by (intro log_frame(1)) (auto simp: kv)
  ultimately show ?thesis by (auto simp: log_grows_def)
qed

lemma append_local_grows:
  assumes "append_local L m e s = Some s'" "log_ok L (srvDB s) (gid s m)"
  shows "log_grows L (gid s m) [e] (srvDB s) (srvDB s')"
proof -
  let ?g = "gid s m"
  obtain r where r: "AppendEntryToLocal L ?g (srvDB s) e = Some r" using assms(1) by (auto simp: append_local_def bind_eq_Some_conv)
  have same: ?thesis if "logs_eq L (srvDB s) (srvDB s')"
    using log_grows_logs_eq [OF assms(2) that] by (auto simp: log_grows_def)
  let ?f = "\<lambda>txn. case r of Inr txn' \<Rightarrow> (Inr txn' :: unit + _) | Inl err \<Rightarrow> Inr txn"
  have "s' = snd (updateDB L s ?f)" using assms(1) r by (simp add: append_local_def)
  then have "updateDB L s ?f = (fst (updateDB L s ?f), s')" by simp
  then show ?thesis
  proof (cases rule: updateDB_cases)
    case failed
    then show ?thesis by (intro same) simp
  next
    case (committed db)
    show ?thesis
    proof (cases r)
      case (Inl err)
      then show ?thesis using committed by (intro same) (simp add: logs_eq_def)
    next
      case (Inr db1)
      from r [unfolded Inr] show ?thesis
      proof (cases rule: AppendEntryToLocal_cases)
        case dropped
        then show ?thesis using committed Inr by (intro same) (simp add: logs_eq_def)
      next
        case (stored c data)
        then show ?thesis using committed Inr by (intro insert_entry [OF assms(2)]) auto
      qed
    qed
  qed
qed

lemma pull_apply_grows:
  assumes "pull_apply L now m es s = Some s'" "m < length (srvRTGroups s)" "log_ok L (srvDB s) (gid s m)"
  shows "log_grows L (gid s m) es (srvDB s) (srvDB s')"
  using assms
proof (induction es arbitrary: s)
  case Nil
  then show ?case by (simp add: log_grows_def)
next
  case (Cons e es)
  let ?g = "gid s m"
  obtain r where r: "AppendEntryToLocal L ?g (srvDB s) e = Some r"
    using Cons.prems(1) by (auto simp: bind_eq_Some_conv)
  obtain u s1 where u: "updateDB L s (\<lambda>txn. r) = (u, s1)" by fastforce
  show ?case
  proof (cases "u = None")
    case False
    then have "s' = s" using Cons.prems(1) r u pull_append_local(2) [OF r u] by auto
    then show ?thesis using Cons.prems(3) by (auto simp: log_grows_def)
  next
    case True
    then have app: "append_local L m e s = Some s1" using pull_append_local(1) [OF r u] by simp
    obtain db1 where db1: "s1 = s\<lparr>srvDB := db1\<rparr>" using append_local_only_DB [OF app] by blast
    obtain res s2 where c: "CommitGroupLog L now e s1 = Some (res, s2)" and rest: "pull_apply L now m es s2 = Some s'"
      using Cons.prems(1) r u True by (auto simp: bind_eq_Some_conv)
    note f2 = CommitGroupLog_frame [OF c]
    have m2: "gid s2 m = ?g" "m < length (srvRTGroups s2)"
      using db1 f2 Cons.prems(2) sm_frame_gid [OF f2, of m] by (auto simp: sm_frame_def gid_def rt_def)
    have g1: "log_grows L ?g [e] (srvDB s) (srvDB s1)" using append_local_grows [OF app Cons.prems(3)] .
    then have "log_grows L ?g ([e] @ []) (srvDB s) (srvDB s2)"
      using f2 by (intro log_grows_trans [OF g1] log_grows_logs_eq) (simp_all add: log_grows_def sm_frame_def)
    then have g2: "log_grows L ?g [e] (srvDB s) (srvDB s2)" by simp
    moreover have "log_grows L ?g es (srvDB s2) (srvDB s')"
      using Cons.IH [OF rest m2(2)] g2 m2(1) by (simp add: log_grows_def)
    ultimately show ?thesis using log_grows_trans by fastforce
  qed
qed

end

text \<open>An observer whose only peer with an address answers a pull.\<close>

definition ex_observer :: "memdb BFTRaftServer" where
  "ex_observer = (ex_server 4 [(ex_rt 1 OBSERVER)\<lparr>rtGroupPeers := [(1, ex_peer 1)]\<rparr>] ex_db1)\<lparr>srvHosts := (\<lambda>k. Some
     \<lparr>hostId = 1, hostLastSeen = 0, hostOnline = True, hostServerAddr = ''h:1'', hostPublicKey = []\<rparr>)\<rparr>"

lemma ex_observer_sel [simp]:
  "srvDB ex_observer = ex_db1" "gid ex_observer 0 = 7" "length (srvRTGroups ex_observer) = 1" "rtGroupPeers (rt ex_observer 0) = [(1, ex_peer 1)]"
  "srvHosts ex_observer k = Some \<lparr>hostId = 1, hostLastSeen = 0, hostOnline = True, hostServerAddr = ''h:1'', hostPublicKey = []\<rparr>"
  by (simp_all add: ex_observer_def ex_server_def gid_def rt_def)

lemma ex_observer_pulls:
  "pull_apply mem_lib 0 0 es ex_observer = Some s' \<Longrightarrow>
   PullAndCommitGroupLogs mem_lib (\<lambda>x. x) (\<lambda>x. x) (\<lambda>cs req. [Some es]) 0 0 ex_observer = Some s'"
  by (simp add: PullAndCommitGroupLogs_def GetHostNTXN_def GetHost_def GetClusterRPC_def MajorityResponse_def pull_result_def
      Let_def PickMajority_def ExpectedPlayers_def)

text \<open>
  C22.  Whatever its peers answer, an observer's log only grows: every entry it had is still there, every new one is in the answer that was chosen,
  the log stays well formed, and the logs of other groups do not change.
\<close>

theorem observer_log:
  assumes "libraries L" "PullAndCommitGroupLogs L ord vord net now m s = Some s'" "iteration_order vord"
    and "m < length (srvRTGroups s)" "log_ok L (srvDB s) (gid s m)"
  shows "\<exists>clients es. Some es \<in> set (net clients \<lparr>pullGroup = gid s m, pullIndex = LastEntryIndex L (srvDB s) (gid s m) + 1\<rparr>) \<and>
     log_grows L (gid s m) es (srvDB s) (srvDB s')"
  using assms(2,3)
proof (cases rule: pull_answer)
  case (1 clients es s1)
  note f = caches_only_sel [OF 1(1)]
  have "log_grows L (gid s m) es (srvDB s) (srvDB s')"
    using libraries.pull_apply_grows [OF assms(1) 1(3)] assms(4,5) by (simp add: f)
  with 1(2) show ?thesis by blast
qed

theorem observer_log_witness:
  "\<exists>s'. PullAndCommitGroupLogs mem_lib (\<lambda>x. x) (\<lambda>x. x) (\<lambda>cs req. [Some []]) 0 0 ex_observer = Some s' \<and>
     set (group_log mem_lib (srvDB s') 7) = {ex_e1}"
proof -
  obtain s' where s': "PullAndCommitGroupLogs mem_lib (\<lambda>x. x) (\<lambda>x. x) (\<lambda>cs req. [Some []]) 0 0 ex_observer = Some s'"
    using ex_observer_pulls [of "[]"] by auto
  show ?thesis
    using observer_log [OF mem.libraries_axioms s'] s' by (auto simp: iteration_order_def ex_log1 log_grows_def)
qed

section \<open>An observer never catches up\<close>

context libraries
begin

lemma pull_suffix:
  assumes ok: "log_ok L (srvDB sp) g" "log_ok L db g" and log: "group_log L (srvDB sp) g = group_log L db g @ rest"
    and small: "unat (LastEntryIndex L db g) + 1 < 2 ^ 64" and rest: "contiguous (LastEntryIndex L db g + 1) rest"
  shows "PullGroupLogs L sp \<lparr>pullGroup = g, pullIndex = LastEntryIndex L db g + 1\<rparr> = Some (map Some (tl rest))"
proof -
  let ?n = "LastEntryIndex L db g + 1"
  have below: "leIndex e < ?n" if "e \<in> set (group_log L db g)" for e
    using log_below_next [OF ok(2) small] that by (simp add: log_below_def)
  have sorted: "sorted_wrt (<) (map leIndex rest)" using sorted_group_log [OF ok(1)] log by (simp add: sorted_wrt_append)
  have old: "filter (\<lambda>e. ?n < leIndex e) (group_log L db g) = []" "\<not> (\<exists>e \<in> set (group_log L db g). leIndex e = ?n)"
    using below by (force simp: filter_empty_conv)+
  show ?thesis
  proof (cases rest)
    case Nil
    then show ?thesis using old(2) by (simp add: PullGroupLogs_log ok(1) log Let_def)
  next
    case (Cons e es)
    then have "filter (\<lambda>e. ?n < leIndex e) rest = es" "leIndex e = ?n" using rest sorted by (auto simp: filter_id_conv)
    then show ?thesis using old(1) Cons by (auto simp: PullGroupLogs_log ok(1) log Let_def)
  qed
qed

lemma mismatch_stops:
  assumes ok: "log_ok L (srvDB s) (gid s m)" and c: "leCommand e = Some c" "cmdGroup c = gid s m"
    and new: "\<forall>e' \<in> set (group_log L (srvDB s) (gid s m)). leIndex e' < leIndex e"
    and hash: "\<not> chained (last_hash (genesisHash (gid s m)) (group_log L (srvDB s) (gid s m))) [e]"
  shows "pull_apply L now m (e # es) s = Some s"
proof -
  have "kv L (srvDB s) (LogEntryKey (gid s m) (leIndex e)) = None" using new by (intro fresh_index_not_stored [OF ok]) force
  then have "AppendEntryToLocal L (gid s m) (srvDB s) e = Some (Inl LogHashMismatch)"
    using c hash by (auto simp: AppendEntryToLocal_def get Let_def LastEntryHash_log [OF ok])
  then show ?thesis by (simp add: updateDB_def)
qed

lemma observer_stuck:
  assumes p: "PullAndCommitGroupLogs L ord vord net now m s = Some s'" and ord: "iteration_order vord"
    and g: "gid s m = g" and ok: "log_ok L (srvDB s) g" and small: "unat (LastEntryIndex L (srvDB s) g) + 1 < 2 ^ 64"
    and rest: "contiguous (LastEntryIndex L (srvDB s) g + 1) rest"
    and net: "\<And>clients es. Some es \<in> set (net clients \<lparr>pullGroup = g, pullIndex = LastEntryIndex L (srvDB s) g + 1\<rparr>) \<Longrightarrow>
      \<exists>sp. log_ok L (srvDB sp) g \<and> group_log L (srvDB sp) g = group_log L (srvDB s) g @ rest \<and>
        PullGroupLogs L sp \<lparr>pullGroup = g, pullIndex = LastEntryIndex L (srvDB s) g + 1\<rparr> = Some (map Some es)"
  shows "srvDB s' = srvDB s \<or> (\<exists>skipped e more. rest = skipped # e # more \<and>
      chained (last_hash (genesisHash g) (group_log L (srvDB s) g)) [e])"
  using p ord
proof (cases rule: pull_answer)
  case (1 clients es s1)
  note f = caches_only_sel [OF 1(1)]
  obtain sp where sp: "log_ok L (srvDB sp) g" "group_log L (srvDB sp) g = group_log L (srvDB s) g @ rest"
      "PullGroupLogs L sp \<lparr>pullGroup = g, pullIndex = LastEntryIndex L (srvDB s) g + 1\<rparr> = Some (map Some es)"
    using net 1(2) g by blast
  then have es: "es = tl rest" using pull_suffix [OF sp(1) ok sp(2) small rest] by (simp add: inj_map_eq_map)
  show ?thesis
  proof (cases es)
    case Nil
    then show ?thesis using 1(3) f by simp
  next
    case (Cons e more)
    then obtain skipped where r: "rest = skipped # e # more" using es by (cases rest) auto
    have sorted: "sorted_wrt (<) (map leIndex (group_log L (srvDB s) g @ rest))" using sorted_group_log [OF sp(1)] sp(2) by simp
    then have new: "\<forall>e' \<in> set (group_log L (srvDB s) g). leIndex e' < leIndex e" using r by (auto simp: sorted_wrt_append)
    have "e \<in> set (group_log L (srvDB sp) g)" using sp(2) r by simp
    then obtain c where c: "leCommand e = Some c" "cmdGroup c = g" using log_keys_entry(2) [OF sp(1)] by (auto simp: group_log_def)
    show ?thesis
    proof (cases "chained (last_hash (genesisHash g) (group_log L (srvDB s) g)) [e]")
      case True
      with r show ?thesis by blast
    next
      case False
      then have "pull_apply L now m (e # more) s1 = Some s1"
        using mismatch_stops [of s1 m e c now more] ok c new by (simp add: f g)
      then show ?thesis using 1(3) Cons f by simp
    qed
  qed
qed

end

text \<open>
  C40.  An observer that asks correct peers - their logs continue its own with \<open>rest\<close> - never gets anything: the request names the
  index after its last entry and the answer starts one later, so that the hash chain rejects it.  The database does not change, unless
  the entry after the missing one happens to carry the hash that skips it.
\<close>

theorem observer_never_catches_up:
  assumes "libraries L" "PullAndCommitGroupLogs L ord vord net now m s = Some s'" "iteration_order vord" "gid s m = g"
    and "log_ok L (srvDB s) g" "unat (LastEntryIndex L (srvDB s) g) + 1 < 2 ^ 64" "contiguous (LastEntryIndex L (srvDB s) g + 1) rest"
    and "\<forall>clients es. Some es \<in> set (net clients \<lparr>pullGroup = g, pullIndex = LastEntryIndex L (srvDB s) g + 1\<rparr>) \<longrightarrow>
      (\<exists>sp. log_ok L (srvDB sp) g \<and> group_log L (srvDB sp) g = group_log L (srvDB s) g @ rest \<and>
        PullGroupLogs L sp \<lparr>pullGroup = g, pullIndex = LastEntryIndex L (srvDB s) g + 1\<rparr> = Some (map Some es))"
  shows "srvDB s' = srvDB s \<or> (\<exists>skipped e more. rest = skipped # e # more \<and>
      chained (last_hash (genesisHash g) (group_log L (srvDB s) g)) [e])"
  using libraries.observer_stuck [OF assms(1-7)] assms(8) by blast

theorem observer_never_catches_up_witness:
  "\<exists>s'. PullAndCommitGroupLogs mem_lib (\<lambda>x. x) (\<lambda>x. x) (\<lambda>cs req. [Some []]) 0 0 ex_observer = Some s' \<and>
     group_log mem_lib (srvDB ex_leader) 7 = [ex_e1, ex_e2] \<and> srvDB s' = ex_db1"
proof -
  obtain s' where s': "PullAndCommitGroupLogs mem_lib (\<lambda>x. x) (\<lambda>x. x) (\<lambda>cs req. [Some []]) 0 0 ex_observer = Some s'"
    using ex_observer_pulls [of "[]"] by auto
  have l: "log_ok mem_lib (srvDB ex_leader) 7" "group_log mem_lib (srvDB ex_leader) 7 = [ex_e1, ex_e2]"
    by (simp_all add: ex_leader_def ex_log2)
  have c: "contiguous 2 [ex_e2]" by (simp add: ex_e2_def)
  have p: "PullGroupLogs mem_lib ex_leader \<lparr>pullGroup = 7, pullIndex = 2\<rparr> = Some []"
    using mem.pull_suffix [OF l(1) ex_log1(1), of "[ex_e2]"] c by (simp add: l(2) ex_log1 ex_index)
  have "srvDB s' = ex_db1 \<or> (\<exists>skipped e more. [ex_e2] = skipped # e # more \<and> chained (last_hash (genesisHash 7) [ex_e1]) [e])"
    using observer_never_catches_up [OF mem.libraries_axioms s', of 7 "[ex_e2]"] c p l
    by (auto simp: iteration_order_def ex_log1 ex_index)
  with s' l show ?thesis by simp
qed

section \<open>Membership\<close>

text \<open>Node 5, which hosts no group and knows group 7 and all hosts.\<close>

definition ex_grp :: RaftGroup where
  "ex_grp = \<lparr>grpReplications = 3, grpId = 7, grpTerm = 1\<rparr>"

definition ex_joiner :: "memdb BFTRaftServer" where
  "ex_joiner = (ex_server 5 [] [])\<lparr>srvGroups := (\<lambda>k. Some ex_grp), srvGroupsOnboard := Map.empty, srvHosts := (\<lambda>k. Some
     \<lparr>hostId = 1, hostLastSeen = 0, hostOnline = True, hostServerAddr = ''h:1'', hostPublicKey = []\<rparr>)\<rparr>"

lemma ex_joiner_sel [simp]:
  "srvId ex_joiner = 5" "srvDB ex_joiner = []" "srvGroups ex_joiner k = Some ex_grp" "srvGroupsOnboard ex_joiner = Map.empty"
  "srvRTGroups ex_joiner = []"
  "srvHosts ex_joiner k = Some \<lparr>hostId = 1, hostLastSeen = 0, hostOnline = True, hostServerAddr = ''h:1'', hostPublicKey = []\<rparr>"
  "grpId ex_grp = 7" "grpReplications ex_grp = 3"
  by (simp_all add: ex_joiner_def ex_server_def ex_grp_def)

lemma mem_no_peers [simp]: "GetGroupPeersFromKV mem_lib [] g = Some []"
  by (simp add: GetGroupPeersFromKV_def mem_seek_def mem_keys_def)

text \<open>
  C33.  A node other than this server is admitted to a group only while the group has fewer peers than replications, and it is then stored as a
  peer of the group.
\<close>

theorem node_join_cap:
  assumes "libraries L" "SMNodeJoin L arg e s = Some ([1], s')" "unmarshalNodeJoin L arg = (req, True)"
    and "leCommand e = Some cmd" "cmdClientId cmd \<noteq> srvId s"
  shows "(\<exists>peers grp. GetGroupPeersFromKV L (srvDB s) (njGroup req) = Some peers \<and>
      fst (GetGroupNTXN L s (njGroup req)) = Some grp \<and> length peers < unat (grpReplications grp)) \<and>
    kv L (srvDB s') (PeerKey (njGroup req) (cmdClientId cmd)) \<noteq> None"
  using libraries.SMNodeJoin_cap [OF assms] by blast

theorem node_join_cap_witness:
  "\<exists>s'. SMNodeJoin mem_lib (enc_join \<lparr>njGroup = 7\<rparr>) ex_e1 ex_joiner = Some ([1], s') \<and> kv mem_lib (srvDB s') (PeerKey 7 9) \<noteq> None"
proof -
  have c: "leCommand ex_e1 = Some ex_cmd" "cmdClientId ex_cmd = 9" by (simp_all add: ex_e1_def ex_cmd_def)
  then obtain s' where s': "SMNodeJoin mem_lib (enc_join \<lparr>njGroup = 7\<rparr>) ex_e1 ex_joiner = Some ([1], s')"
    by (simp add: SMNodeJoin_def NodeJoin_txn_def GetHost_def GetGroup_def updateDB_def SavePeer_def GetOnboardGroup_def Let_def)
  then show ?thesis using node_join_cap [OF mem.libraries_axioms s' _ c(1)] c(2) by simp
qed

theorem SMNewGroup_refuses_witness:
  "\<exists>s'. SMNewGroup mem_lib 0 (enc_group ex_grp) ex_e1 ex_joiner = Some ([0], s') \<and> srvDB s' = []"
  using SMNewGroup_refuses [of ex_e1 ex_cmd mem_lib "enc_group ex_grp" ex_grp ex_joiner 0]
  by (auto simp: ex_e1_def GetGroupNTXN_def GetGroup_def)

theorem join_group_leader_witness:
  "\<exists>s'. join_group mem_lib rev 0 7 [8, 6, 8] ex_joiner = Some s' \<and> rtLeader (rt s' 0) = 8 \<and> 5 \<in> peer_ids (rt s' 0)"
proof -
  obtain s' where s': "join_group mem_lib rev 0 7 [8, 6, 8] ex_joiner = Some s'" "GetOnboardGroup s' 7 = Some 0"
    by (simp add: join_group_def GetGroupNTXN_def GetGroup_def updateDB_def SavePeer_def NewRTGroup_def Let_def
        SetOnboardGroup_def GetOnboardGroup_def gid_def rt_def)
  from join_group_leader [OF s'(1) _ _ s'(2), of 8 ex_grp]
  have "rtLeader (rt s' 0) = 8 \<and> 5 \<in> peer_ids (rt s' 0)"
    by (simp add: iteration_order_def GetOnboardGroup_def GetGroupNTXN_def GetGroup_def)
  with s'(1) show ?thesis by blast
qed

section \<open>Keys and the configuration\<close>



text \<open>
  A server keeps its identity: the key \<^verbatim>\<open>InitDatabase\<close> generates and stores is the one that is read and parsed at every start, whatever
  else the database holds, and the id of the server is the hash of the public key that goes with it, under which others can look up its key.
\<close>

theorem config_round_trip:
  assumes "libraries L" "no_io_errors L" "GenerateKey L (Some k) = Some (priv, pub)" "marshalServerConfig L \<lparr>confPrivateKey = priv\<rparr> = Some b"
  shows "\<exists>config. GetConfig L (InitDatabase L (Some k) db) = Some config \<and> ParsePrivateKey L (confPrivateKey config) = Some k \<and>
     HashPublicKey L (PublicKeyFromPrivate k) = HashPublicKeyBytes pub \<and> ParsePublicKey L pub = Some (PublicKeyFromPrivate k)"
  using libraries.GetConfig_InitDatabase [OF assms] rsa.parse_marshal rsa.parse_marshal_private assms(1,3)
  by (auto simp: libraries_def GenerateKey_def HashPublicKey_def ParsePrivateKey_def ParsePublicKey_def split: option.splits)

theorem config_round_trip_witness:
  "\<exists>config. GetConfig mem_lib (InitDatabase mem_lib (Some ex_key) ex_db2) = Some config \<and>
     ParsePrivateKey mem_lib (confPrivateKey config) = Some ex_key \<and>
     HashPublicKey mem_lib (PublicKeyFromPrivate ex_key) = HashPublicKeyBytes (enc_pkix ex_pk) \<and>
     ParsePublicKey mem_lib (enc_pkix ex_pk) = Some (PublicKeyFromPrivate ex_key)"
  by (rule config_round_trip [OF mem.libraries_axioms mem_io]) (simp_all add: GenerateKey_def PublicKeyFromPrivate_def ex_key_def)

section \<open>Runs of the properties of the component theories\<close>

theorem refresh_timer_bounds_witness:
  "\<exists>t. rt (RefreshTimer ex_clock 0 (of_nat 10) ex_follower) 0 = (ex_rt 1 FOLLOWER)\<lparr>rtTimeout := t\<rparr> \<and> 5000 \<le> t \<and> t \<le> 15000"
  using refresh_timer_bounds [OF ex_clock_ok, of 10 0 ex_follower] by (simp add: ex_follower_def) (simp add: ex_clock_def)

theorem receive_tracks_witness:
  "\<exists>s' peer'. receive_loop mem_lib 0 [Some \<lparr>arGroup = 7, arTerm = 1, arIndex = 2, arPeer = 3, arSuccessed = True, arConvinced = True,
      arHash = [], arSignature = []\<rparr>] ex_leader = Some s' \<and> map_of (rtGroupPeers (rt s' 0)) 3 = Some peer' \<and>
     peerMatchIndex peer' = 2 \<and> peerNextIndex peer' = 3"
  using receive_tracks [of mem_lib ex_leader "\<lparr>arGroup = 7, arTerm = 1, arIndex = 2, arPeer = 3, arSuccessed = True, arConvinced = True,
      arHash = [], arSignature = []\<rparr>" ex_pk ex_leader 0 "ex_peer 3"]
  by (simp add: ex_leader_def) (simp add: ex_peer_def)

theorem GroupLeader_not_hosted_witness:
  "\<exists>res. GroupLeader mem_lib (\<lambda>n. 0) ex_joiner 7 = Some (res, ex_joiner) \<and> glNode res = None"
proof -
  obtain res where r: "GroupLeader mem_lib (\<lambda>n. 0) ex_joiner 7 = Some (res, ex_joiner)"
    by (simp add: GroupLeader_def GetOnboardGroup_def GetGroupHosts_def Let_def)
  show ?thesis using GroupLeader_not_hosted [OF _ r] r by (simp add: GetOnboardGroup_def)
qed

end
