(* ===== verification/Safety.thy ===== *)
theory Safety
  imports System
begin

text \<open>
  Election safety across servers.  A voter is followed through its history, the states it is in one after another.  It is
  careful when no step makes it forget a vote before its term has caught up with it; under this condition two candidates that win an election
  in the same term are the same.  The operations are shown to be careful steps when their terms are not below the last vote, and a run
  shows that a voter of the code need not be careful.
\<close>

section \<open>Careful voters\<close>

definition keeps_vote :: "RTGroup \<Rightarrow> RTGroup \<Rightarrow> bool" where
  "keeps_vote r r' \<longleftrightarrow> grpTerm (rtGroup r) \<le> grpTerm (rtGroup r') \<and>
     (rtLastVotedTerm r' = rtLastVotedTerm r \<and> (rtLastVotedTo r' = rtLastVotedTo r \<or> rtLastVotedTo r = 0) \<or>
      rtLastVotedTerm r < rtLastVotedTerm r' \<or>
      rtLastVotedTerm r' = 0 \<and> rtLastVotedTerm r \<le> grpTerm (rtGroup r'))"

definition careful_voter :: "nat \<Rightarrow> (nat \<Rightarrow> 'db BFTRaftServer) \<Rightarrow> bool" where
  "careful_voter i h \<longleftrightarrow> (\<forall>k. i < length (srvRTGroups (h k)) \<and> keeps_vote (rt (h k) i) (rt (h (Suc k)) i))"

text \<open>The vote \<open>v\<close> is the answer to \<open>req\<close> at some point of a history.\<close>

definition cast_by :: "'db lib \<Rightarrow> nat \<Rightarrow> (nat \<Rightarrow> 'db BFTRaftServer) \<Rightarrow> RequestVoteRequest \<Rightarrow> RequestVoteResponse \<Rightarrow> bool" where
  "cast_by L i h req v \<longleftrightarrow> (\<exists>k polls. RequestVote L polls (h k) i req = Some (v, h (Suc k)))"

text \<open>A vote for \<open>c\<close> in term \<open>T\<close> still counts or can no longer be repeated.\<close>

definition voted :: "u64 \<Rightarrow> u64 \<Rightarrow> RTGroup \<Rightarrow> bool" where
  "voted T c r \<longleftrightarrow> rtLastVotedTerm r = T \<and> rtLastVotedTo r = c \<or> T < rtLastVotedTerm r \<or> T \<le> grpTerm (rtGroup r)"

lemma keeps_vote_refl [simp, intro]: "keeps_vote r r"
  by (simp add: keeps_vote_def)

lemma keeps_vote_voted: "keeps_vote r r' \<Longrightarrow> voted T c r \<Longrightarrow> c \<noteq> 0 \<Longrightarrow> voted T c r'"
  unfolding keeps_vote_def voted_def by force

lemma careful_voted:
  assumes "careful_voter i h" "voted T c (rt (h k) i)" "c \<noteq> 0" "k \<le> k'"
  shows "voted T c (rt (h k') i)"
  using assms(4)
proof (induction rule: dec_induct)
  case (step n)
  then show ?case using assms(1,3) keeps_vote_voted unfolding careful_voter_def by blast
qed (rule assms(2))

lemma vote_recorded:
  assumes "RequestVote L polls s i req = Some (v, s')" "voteGranted v" "i < length (srvRTGroups s')"
  shows "rtLastVotedTerm (rt s' i) = rvTerm req" "rtLastVotedTo (rt s' i) = rvCandidateId req"
  using assms by (cases rule: RequestVote_cases; simp)+

lemma second_vote:
  assumes c: "careful_voter i h" and v: "RequestVote L polls (h k) i req = Some (v, h (Suc k))" "voteGranted v"
    and voted: "voted (rvTerm req) cand (rt (h k) i)" and "cand \<noteq> 0"
  shows "rvCandidateId req = cand"
proof -
  have len: "i < length (srvRTGroups (h (Suc k)))" and keeps: "keeps_vote (rt (h k) i) (rt (h (Suc k)) i)"
    using c unfolding careful_voter_def by blast+
  have may: "may_grant L (h k) i req" using RequestVote_granted_iff [OF v(1)] v(2) by blast
  then have "grpTerm (rtGroup (rt (h k) i)) < rvTerm req" by (simp add: may_grant_def)
  moreover have "\<not> rvTerm req < rtLastVotedTerm (rt (h k) i)"
    using keeps vote_recorded [OF v len] calculation by (auto simp: keeps_vote_def word_gt_0 not_less)
  ultimately show ?thesis using voted may assms(5) by (auto simp: voted_def may_grant_def)
qed

lemma one_candidate_per_term:
  assumes c: "careful_voter i h" and "cast_by L i h req v" "voteGranted v" "cast_by L i h req' v'" "voteGranted v'"
    and same: "rvTerm req' = rvTerm req" and ids: "rvCandidateId req \<noteq> 0" "rvCandidateId req' \<noteq> 0"
  shows "rvCandidateId req' = rvCandidateId req"
proof -
  obtain k polls k' polls' where v: "RequestVote L polls (h k) i req = Some (v, h (Suc k))"
    and v': "RequestVote L polls' (h k') i req' = Some (v', h (Suc k'))"
    using assms(2,4) unfolding cast_by_def by blast
  have len: "i < length (srvRTGroups (h j))" for j using c unfolding careful_voter_def by blast
  have rec: "voted (rvTerm req) (rvCandidateId req) (rt (h (Suc k)) i)" "voted (rvTerm req) (rvCandidateId req') (rt (h (Suc k')) i)"
    using vote_recorded [OF v assms(3) len] vote_recorded [OF v' assms(5) len] same by (simp_all add: voted_def)
  consider "k = k'" | "Suc k \<le> k'" | "Suc k' \<le> k" by linarith
  then show ?thesis
  proof cases
    case 1
    then show ?thesis using vote_recorded(2) [OF v assms(3) len] vote_recorded(2) [OF v' assms(5) len] by simp
  next
    case 2
    show ?thesis using second_vote [OF c v' assms(5) _ ids(1)] careful_voted [OF c rec(1) ids(1) 2] same by simp
  next
    case 3
    show ?thesis using second_vote [OF c v assms(3) _ ids(2)] careful_voted [OF c rec(2) ids(2) 3] by simp
  qed
qed

section \<open>Careful steps\<close>

text \<open>A vote in a term that is not below the last vote; nothing else happens to the group during the lazy wait but a change of role.\<close>

lemma RequestVote_keeps:
  assumes "RequestVote L polls s i req = Some (v, s')" "i < length (srvRTGroups s)" "rtLastVotedTerm (rt s i) \<le> rvTerm req"
    and "\<And>k. i < length (srvRTGroups (polls k)) \<and> keeps_vote (rt s i) (rt (polls k) i) \<and>
      rtLastVotedTerm (rt (polls k) i) = rtLastVotedTerm (rt s i) \<and> rtLastVotedTo (rt (polls k) i) = rtLastVotedTo (rt s i)"
  shows "keeps_vote (rt s i) (rt s' i)"
  using assms(1)
proof (cases rule: RequestVote_cases)
  case (granted k)
  have g: "grpTerm (rtGroup (rt s i)) \<le> grpTerm (rtGroup (rt (polls k) i))" using assms(4) [of k] by (simp add: keeps_vote_def)
  show ?thesis using granted(1) g assms(3,4) unfolding granted(7) by (auto simp: keeps_vote_def may_grant_def)
qed (use assms(4) in auto)

text \<open>Accepting a leader, whose term \<^verbatim>\<open>AppendEntries\<close> has compared with the group's, when the vote was for no later term.\<close>

lemma BecomeFollower_keeps:
  assumes "BecomeFollower L C i req s = Some (b, s')" "i < length (srvRTGroups s)"
    and "grpTerm (rtGroup (rt s i)) \<le> aeTerm req" "rtLastVotedTerm (rt s i) \<le> aeTerm req"
  shows "keeps_vote (rt s i) (rt s' i)"
  using assms(1)
proof (cases rule: BecomeFollower_cases)
  case refused
  then show ?thesis by (simp add: caches_only_sel)
next
  case (followed s1)
  then show ?thesis using assms(2-4) by (simp add: keeps_vote_def follow_def)
qed

section \<open>Winning an election\<close>

definition election_request :: "'db lib \<Rightarrow> nat \<Rightarrow> 'db BFTRaftServer \<Rightarrow> RequestVoteRequest" where
  "election_request L m s = (let s1 = start_election L m s in vote_request L m (LastLogEntry L (srvDB s1) (gid s1 m)) s1)"

definition wins_election :: "'db lib \<Rightarrow> vote_net \<Rightarrow> nat \<Rightarrow> 'db BFTRaftServer \<Rightarrow> 'db BFTRaftServer \<Rightarrow> bool" where
  "wins_election L vnet m s s' \<longleftrightarrow> m < length (srvRTGroups s) \<and> rtRole (rt s' m) = LEADER \<and>
     (\<exists>C hnet env. (\<forall>t. (message_step L)\<^sup>*\<^sup>* t (env t)) \<and> BecomeCandidate L C vnet hnet env m s = Some s')"

text \<open>The nodes whose granted votes are among the answers to the request.\<close>

definition supporters :: "'db lib \<Rightarrow> vote_net \<Rightarrow> nat \<Rightarrow> 'db BFTRaftServer \<Rightarrow> u64 set" where
  "supporters L vnet m s = {n. \<exists>asked v. (n, v) \<in> set (vnet (election_request L m s) asked) \<and> voteGranted v}"

context libraries
begin

lemma start_election_keeps:
  assumes "m < length (srvRTGroups s)" "grpTerm (rtGroup (rt s m)) + 1 \<noteq> 0"
    and "rtLastVotedTerm (rt s m) \<le> grpTerm (rtGroup (rt s m)) + 1"
  shows "keeps_vote (rt s m) (rt (start_election L m s) m)"
proof -
  have "grpTerm (rtGroup (rt s m)) \<le> grpTerm (rtGroup (rt s m)) + 1"
    using assms(2) unatSuc [of "grpTerm (rtGroup (rt s m))"] by (simp add: word_le_nat_alt add.commute)
  then show ?thesis using assms(3) by (simp add: start_election(1) [OF assms(1)] keeps_vote_def candidate_def)
qed

lemma election_request_sel:
  assumes "m < length (srvRTGroups s)"
  shows "rvCandidateId (election_request L m s) = srvId s" "rvTerm (election_request L m s) = grpTerm (rtGroup (rt s m)) + 1"
    "rvGroup (election_request L m s) = gid s m"
  using start_election [OF assms] by (simp_all add: election_request_def vote_request_def Let_def candidate_def)

lemma winner_supported:
  assumes w: "wins_election L vnet m s s'" and wf: "peers_wf (rt s m)" and net: "one_answer_each vnet"
  shows "\<exists>P \<subseteq> supporters L vnet m s \<inter> peer_ids (rt s m). ExpectedPlayers (int (card (peer_ids (rt s m)))) \<le> int (card P)"
    and "grpTerm (rtGroup (rt s' m)) = grpTerm (rtGroup (rt s m)) + 1"
proof -
  obtain C hnet env where m: "m < length (srvRTGroups s)" and lead: "rtRole (rt s' m) = LEADER"
    and calm: "\<And>t. (message_step L)\<^sup>*\<^sup>* t (env t)" and b: "BecomeCandidate L C vnet hnet env m s = Some s'"
    using w unfolding wins_election_def by blast
  note quiet = messages_no_promotion [OF calm]
  have "(\<exists>P \<subseteq> supporters L vnet m s \<inter> peer_ids (rt s m). ExpectedPlayers (int (card (peer_ids (rt s m)))) \<le> int (card P)) \<and>
      grpTerm (rtGroup (rt s' m)) = grpTerm (rtGroup (rt s m)) + 1"
    using b m no_promotion_keeps [OF quiet]
  proof (cases rule: BecomeCandidate_cases)
    case (waiting asked s2 votes)
    then show ?thesis using lead no_promotionD(3) [OF quiet [of m s2]] candidate_started(1,2) [OF m waiting(2)] by auto
  next
    case (elected asked s2 votes ps ss)
    let ?answers = "vnet (election_request L m s) asked"
    obtain counted where c: "subseq counted ?answers" "votes = map snd counted" "\<forall>(n, v) \<in> set counted. vote_for L (env s2) n v"
      using elected(9) by (auto simp: election_request_def Let_def)
    let ?P = "set (map fst counted)"
    have "subseq (map fst counted) (map fst ?answers)" using c(1) by (rule subseq_map)
    moreover have "distinct (map fst ?answers)" using net by (simp add: one_answer_each_def)
    ultimately have "distinct (map fst counted)" by (metis in_set_subseqs subseqs_distinctD)
    then have "card ?P = length votes" using c(2) distinct_card by fastforce
    moreover have "?P \<subseteq> supporters L vnet m s"
    proof
      fix n assume "n \<in> ?P"
      then obtain v where v: "(n, v) \<in> set counted" by auto
      then have "(n, v) \<in> set ?answers" using c(1) by (auto dest: list_emb_set)
      moreover have "voteGranted v" using v c(3) by (auto simp: vote_for_def)
      ultimately show "n \<in> supporters L vnet m s" unfolding supporters_def by blast
    qed
    moreover have "?P \<subseteq> peer_ids (rt s m)"
    proof -
      have "set counted \<subseteq> set ?answers" using c(1) by (auto dest: list_emb_set)
      then have "?P \<subseteq> fst ` set ?answers" by auto
      also have "\<dots> \<subseteq> fst ` set asked" using net unfolding one_answer_each_def by blast
      also have "\<dots> \<subseteq> (peerId \<circ> snd) ` set (rtGroupPeers (rt s m))" using elected(1) by (rule ask_peers_ids)
      also have "\<dots> = peer_ids (rt s m)" using wf unfolding peers_wf_def peer_ids_def by (intro image_cong) auto
      finally show ?thesis .
    qed
    moreover have "ExpectedPlayers (int (card (peer_ids (rt s m)))) = int (length votes)"
      using elected(6) by (simp add: ExpectedHonestPeers_def card_peer_ids [OF wf])
    moreover have "grpTerm (rtGroup (rt s' m)) = grpTerm (rtGroup (rt s m)) + 1"
      using elected(4,5) candidate_started [OF m elected(2)] no_promotionD(5) [OF quiet [of m s2]] by simp
    ultimately show ?thesis by (intro conjI exI [of _ ?P]) auto
  qed
  then show "\<exists>P \<subseteq> supporters L vnet m s \<inter> peer_ids (rt s m). ExpectedPlayers (int (card (peer_ids (rt s m)))) \<le> int (card P)"
    "grpTerm (rtGroup (rt s' m)) = grpTerm (rtGroup (rt s m)) + 1" by blast+
qed

lemma winners_share_supporter:
  assumes "wins_election L vnet m s s'" "wins_election L vnet2 m2 s2 s2'" "peers_wf (rt s m)" "peers_wf (rt s2 m2)"
    and same: "peer_ids (rt s2 m2) = peer_ids (rt s m)" and "one_answer_each vnet" "one_answer_each vnet2"
  shows "\<exists>n \<in> peer_ids (rt s m). n \<in> supporters L vnet m s \<and> n \<in> supporters L vnet2 m2 s2"
proof -
  let ?E = "peer_ids (rt s m)"
  obtain P where P: "P \<subseteq> supporters L vnet m s \<inter> ?E" "ExpectedPlayers (int (card ?E)) \<le> int (card P)"
    using winner_supported(1) [OF assms(1,3,6)] by blast
  obtain Q where Q: "Q \<subseteq> supporters L vnet2 m2 s2 \<inter> ?E" "ExpectedPlayers (int (card ?E)) \<le> int (card Q)"
    using winner_supported(1) [OF assms(2,4,7)] unfolding same by blast
  have "\<exists>p. p \<in> P \<and> p \<in> Q" using P Q by (intro ep.quorums_meet [where E = ?E]) auto
  with P(1) Q(1) show ?thesis by blast
qed

end

end
