(* ===== verification/Election_Properties.thy ===== *)
theory Election_Properties
  imports Safety Vote_Properties
begin

text \<open>
  Election safety, with an election on the example cluster, and a run in which a peer votes twice in a term.
\<close>

text \<open>
  C5.  Election safety: at most one leader per term.  Two servers with the same peers each win an election in the same term.  The answers
  that grant them votes were given by \<^verbatim>\<open>RequestVote\<close> at the nodes they come from, once per request, and every node is careful: in its history no
  vote is forgotten before the term of the group has caught up with it.  Then the two servers are the same node.
\<close>

theorem election_safety:
  assumes "libraries L" "wins_election L vnet m s s'" "wins_election L vnet2 m2 s2 s2'"
    and "grpTerm (rtGroup (rt s2' m2)) = grpTerm (rtGroup (rt s' m))" "srvId s \<noteq> 0" "srvId s2 \<noteq> 0"
    and "peers_wf (rt s m)" "peers_wf (rt s2 m2)" "peer_ids (rt s2 m2) = peer_ids (rt s m)"
    and "one_answer_each vnet" "one_answer_each vnet2"
    and honest: "\<And>asked n v. (n, v) \<in> set (vnet (election_request L m s) asked) \<Longrightarrow> voteGranted v \<Longrightarrow>
      cast_by L (idx n) (hist n) (election_request L m s) v"
      "\<And>asked n v. (n, v) \<in> set (vnet2 (election_request L m2 s2) asked) \<Longrightarrow> voteGranted v \<Longrightarrow>
      cast_by L (idx n) (hist n) (election_request L m2 s2) v"
    and careful: "\<And>n. n \<in> peer_ids (rt s m) \<Longrightarrow> careful_voter (idx n) (hist n)"
  shows "srvId s2 = srvId s"
proof -
  obtain n where n: "n \<in> peer_ids (rt s m)" "n \<in> supporters L vnet m s" "n \<in> supporters L vnet2 m2 s2"
    using libraries.winners_share_supporter [OF assms(1-3,7-11)] by blast
  obtain v v2 where v: "cast_by L (idx n) (hist n) (election_request L m s) v" "voteGranted v"
    "cast_by L (idx n) (hist n) (election_request L m2 s2) v2" "voteGranted v2"
    using n(2,3) honest unfolding supporters_def by blast
  have m: "m < length (srvRTGroups s)" "m2 < length (srvRTGroups s2)" using assms(2,3) by (simp_all add: wins_election_def)
  note req = libraries.election_request_sel [OF assms(1) m(1)] libraries.election_request_sel [OF assms(1) m(2)]
  have "rvTerm (election_request L m2 s2) = rvTerm (election_request L m s)"
    using assms(4) libraries.winner_supported(2) [OF assms(1,2,7,10)] libraries.winner_supported(2) [OF assms(1,3,8,11)] by (simp add: req)
  then show ?thesis using one_candidate_per_term [OF careful [OF n(1)] v] assms(5,6) by (simp add: req)
qed

section \<open>An election\<close>

lemma ex_RequestVote_granted:
  assumes "rvTerm req = 2" "rvLogIndex req = 1" "rvCandidateId req = c"
  shows "RequestVote mem_lib (\<lambda>k. ex_server n [ex_rt l CANDIDATE] ex_db1) (ex_server n [ex_rt l CANDIDATE] ex_db1) 0 req =
    Some (ex_vote c n, set_rt 0 ((ex_rt l CANDIDATE)\<lparr>rtLastVotedTo := c, rtLastVotedTerm := 2\<rparr>) (ex_server n [ex_rt l CANDIDATE] ex_db1))"
proof -
  have "leIndex ex_e1 = 1" "\<not> (2 :: u64) \<le> 1" "srvPrivateKey (ex_server n [ex_rt l CANDIDATE] ex_db1) = ex_key"
    by (simp_all add: ex_e1_def ex_server_def word_le_nat_alt)
  then show ?thesis
    using assms by (simp add: RequestVote_def RequestVote_check_def Let_def ex_index lazy_wait.simps [of _ 0 0] grantVote_def MAX_TERM_BUMP_def
        GetTerm_def ex_vote_def ex_sign_def serverSign_def Sign_def ex_key_def RequestVoteResponseSignData_def)
qed

text \<open>The voters of \<open>ex_vnet\<close>: each votes for node 1 and then stays as it is.\<close>

definition ex_hist :: "u64 \<Rightarrow> nat \<Rightarrow> memdb BFTRaftServer" where
  "ex_hist n k = (let s = ex_server n [ex_rt 2 CANDIDATE] ex_db1 in
     if k = 0 then s else set_rt 0 ((ex_rt 2 CANDIDATE)\<lparr>rtLastVotedTo := 1, rtLastVotedTerm := 2\<rparr>) s)"

lemma ex_careful: "careful_voter 0 (ex_hist n)"
  by (simp add: careful_voter_def ex_hist_def Let_def keeps_vote_def del: length_greater_0_conv)

lemma ex_cast:
  assumes "rvTerm req = 2" "rvLogIndex req = 1" "rvCandidateId req = 1"
  shows "cast_by mem_lib 0 (ex_hist n) req (ex_vote 1 n)"
  unfolding cast_by_def using ex_RequestVote_granted [OF assms, of n 2]
  by (intro exI [of _ 0] exI) (auto simp: ex_hist_def Let_def)

lemma ex_election_request:
  "rvTerm (election_request mem_lib 0 ex_runner) = 2" "rvLogIndex (election_request mem_lib 0 ex_runner) = 1"
  "rvCandidateId (election_request mem_lib 0 ex_runner) = 1"
proof -
  have m: "0 < length (srvRTGroups ex_runner)" by simp
  show "rvTerm (election_request mem_lib 0 ex_runner) = 2" "rvCandidateId (election_request mem_lib 0 ex_runner) = 1"
    using mem.election_request_sel [OF m] by simp_all
  have "LastLogEntry mem_lib (srvDB (start_election mem_lib 0 ex_runner)) 7 = Some ex_e1"
    using mem.LastLogEntry_log [of "srvDB (start_election mem_lib 0 ex_runner)" 7] mem.logs_eq_logs [OF mem.start_election(5) [OF m], of 7] ex_log1 by simp
  moreover have "gid (start_election mem_lib 0 ex_runner) 0 = 7" using mem.start_election(4) [OF m] by simp
  ultimately show "rvLogIndex (election_request mem_lib 0 ex_runner) = 1"
    by (simp add: election_request_def vote_request_def Let_def ex_e1_def)
qed

theorem election_safety_witness:
  "\<exists>s'. wins_election mem_lib ex_vnet 0 ex_runner s' \<and> srvId ex_runner = srvId ex_runner"
proof -
  obtain s' where s': "BecomeCandidate mem_lib ex_clock ex_vnet ex_hnet (\<lambda>t. t) 0 ex_runner = Some s'" "rtRole (rt s' 0) = LEADER"
    using ex_elected by blast
  have w: "wins_election mem_lib ex_vnet 0 ex_runner s'"
    unfolding wins_election_def using s' by (intro conjI exI [of _ ex_clock] exI [of _ ex_hnet] exI [of _ "\<lambda>t. t"]) auto
  have one: "one_answer_each ex_vnet" by (force simp: one_answer_each_def ex_vnet_def comp_def)
  have cast: "cast_by mem_lib 0 (ex_hist n) (election_request mem_lib 0 ex_runner) v"
    if "(n, v) \<in> set (ex_vnet (election_request mem_lib 0 ex_runner) asked)" for asked n v
    using that ex_cast [OF ex_election_request] by (auto simp: ex_vnet_def)
  have "srvId ex_runner = srvId ex_runner"
    by (rule election_safety [OF mem.libraries_axioms w w refl _ _ _ _ refl one one, where idx = "\<lambda>n. 0" and hist = ex_hist])
      (auto simp: ex_peers_wf intro: cast ex_careful)
  with w show ?thesis by blast
qed

section \<open>A peer that votes twice\<close>

lemma candidate_grants:
  assumes "srvDB s = ex_db1" "gid s 0 = 7" "rtRole (rt s 0) = CANDIDATE" "grpTerm (rtGroup (rt s 0)) = 1" "0 < length (srvRTGroups s)"
    and "1 < t" "t - 1 \<le> MAX_TERM_BUMP" "t \<noteq> rtLastVotedTerm (rt s 0)"
  shows "\<exists>v. RequestVote mem_lib (\<lambda>k. s) s 0 ((ex_vote_req c)\<lparr>rvTerm := t\<rparr>) =
      Some (v, set_rt 0 ((rt s 0)\<lparr>rtLastVotedTo := c, rtLastVotedTerm := t\<rparr>) s) \<and> voteGranted v \<and> voteCandidateId v = c"
proof -
  let ?req = "(ex_vote_req c)\<lparr>rvTerm := t\<rparr>"
  have e: "LastLogEntry mem_lib (srvDB s) (gid s 0) = Some ex_e1" "leIndex ex_e1 = 1" "rvLogIndex ?req = 1" "rvCandidateId ?req = c"
    using assms(1,2) by (simp_all add: ex_index ex_e1_def ex_vote_req_def)
  obtain v s' where v: "RequestVote mem_lib (\<lambda>k. s) s 0 ?req = Some (v, s')" using RequestVote_returns [OF e(1)] by blast
  have "may_grant mem_lib s 0 ?req" using assms e by (simp add: may_grant_def)
  then have "voteGranted v" using RequestVote_granted_iff [OF v] assms(3) by (auto simp: Suc_le_eq intro!: exI [of _ 1])
  with v show ?thesis by (cases rule: RequestVote_cases) (use v e in auto)
qed

text \<open>
  A request for a term below the last vote is granted and makes the peer forget that vote: here it votes for node 2 in term 3, for
  node 3 in term 2, and then for node 3 in term 3 too.
\<close>

theorem double_vote:
  "\<exists>s1 s2 s3 v v' v''. let s0 = ex_server 1 [ex_rt 1 CANDIDATE] ex_db1; request = \<lambda>c t. (ex_vote_req c)\<lparr>rvTerm := t\<rparr> in
     RequestVote mem_lib (\<lambda>k. s0) s0 0 (request 2 3) = Some (v, s1) \<and> voteGranted v \<and> voteCandidateId v = 2 \<and>
     RequestVote mem_lib (\<lambda>k. s1) s1 0 (request 3 2) = Some (v', s2) \<and>
     RequestVote mem_lib (\<lambda>k. s2) s2 0 (request 3 3) = Some (v'', s3) \<and> voteGranted v'' \<and> voteCandidateId v'' = 3"
proof -
  let ?s0 = "ex_server 1 [ex_rt 1 CANDIDATE] ex_db1"
  let ?next = "\<lambda>s c t. set_rt 0 ((rt s 0)\<lparr>rtLastVotedTo := c, rtLastVotedTerm := t\<rparr>) s"
  let ?s1 = "?next ?s0 2 3" and ?s2 = "?next (?next ?s0 2 3) 3 2"
  have b: "(1 :: u64) < 3" "(1 :: u64) < 2" "(3 :: u64) - 1 \<le> MAX_TERM_BUMP" "(2 :: u64) - 1 \<le> MAX_TERM_BUMP" "(3 :: u64) \<noteq> 2" "(2 :: u64) \<noteq> 3"
    by (simp_all add: MAX_TERM_BUMP_def word_less_nat_alt word_le_nat_alt)
  have len: "0 < length (srvRTGroups ?s0)" by simp
  have "\<exists>v. RequestVote mem_lib (\<lambda>k. ?s0) ?s0 0 ((ex_vote_req 2)\<lparr>rvTerm := 3\<rparr>) = Some (v, ?s1) \<and> voteGranted v \<and> voteCandidateId v = 2"
    by (rule candidate_grants) (use b in simp_all)
  moreover have "\<exists>v. RequestVote mem_lib (\<lambda>k. ?s1) ?s1 0 ((ex_vote_req 3)\<lparr>rvTerm := 2\<rparr>) = Some (v, ?s2) \<and> voteGranted v \<and> voteCandidateId v = 3"
    by (rule candidate_grants) (use b len in \<open>simp_all add: gid_def del: length_greater_0_conv\<close>)
  moreover have "\<exists>v s3. RequestVote mem_lib (\<lambda>k. ?s2) ?s2 0 ((ex_vote_req 3)\<lparr>rvTerm := 3\<rparr>) = Some (v, s3) \<and> voteGranted v \<and> voteCandidateId v = 3"
    using candidate_grants [of ?s2 3 3] b len by (simp add: gid_def del: length_greater_0_conv) blast
  ultimately show ?thesis unfolding Let_def by blast
qed

end
