(* ===== verification/Log_Matching.thy ===== *)
theory Log_Matching
  imports System Examples
begin

text \<open>
  The logs of different servers: a hash pins down the whole history of a group.  Whatever two servers were sent, and by whom, if their logs
  hold entries with the same hash, they agree on everything up to there, or SHA-1 collides on two strings they hashed.
\<close>

section \<open>The strings that are hashed\<close>

definition hashed :: "u64 \<Rightarrow> LogEntry list \<Rightarrow> bytes list" where
  "hashed g es = bytes_of_string (''GROUP:'' @ show_u64 g) # preimages (genesisHash g) es"

definition collision :: "bytes list \<Rightarrow> bytes list \<Rightarrow> bool" where
  "collision xs ys \<longleftrightarrow> (\<exists>x \<in> set xs. \<exists>y \<in> set ys. x \<noteq> y \<and> SHA1Hash x = SHA1Hash y)"

lemma collision_mono: "collision xs ys \<Longrightarrow> set xs \<subseteq> set xs' \<Longrightarrow> set ys \<subseteq> set ys' \<Longrightarrow> collision xs' ys'"
  unfolding collision_def by blast

lemma preimages_append: "preimages h (xs @ ys) = preimages h xs @ preimages (last_hash h xs) ys"
  by (induction xs arbitrary: h) (auto simp: last_hash_def)

lemma hashed_prefix: "set (hashed g xs) \<subseteq> set (hashed g (xs @ ys))"
  by (auto simp: hashed_def preimages_append)

lemma length_show_nat: "n < 10 ^ Suc k \<Longrightarrow> length (show_nat n) \<le> Suc k"
proof (induction k arbitrary: n)
  case 0
  then show ?case by (simp add: show_nat.simps [of n])
next
  case (Suc k)
  then have "n div 10 < 10 ^ Suc k" by (simp add: less_mult_imp_div_less)
  with Suc.IH show ?case by (subst show_nat.simps) simp
qed

text \<open>The name of a group is shorter than what is hashed for an entry.\<close>

lemma length_genesis: "length (bytes_of_string (''GROUP:'' @ show_u64 g)) \<le> 26"
proof -
  have "unat g < 2 ^ 64" using unsigned_less [of g, where ?'a = nat] by simp
  then have "unat g < 10 ^ Suc 19" by simp
  then show ?thesis using length_show_nat [of "unat g" 19] by (simp add: bytes_of_string_def show_u64_def)
qed

lemma length_genesisHash: "length (genesisHash g) = 20"
  by (simp add: genesisHash_def length_SHA1Hash)

lemma length_last_hash:
  assumes "chained (genesisHash g) es"
  shows "length (last_hash (genesisHash g) es) = 20"
proof (cases es rule: rev_cases)
  case Nil
  then show ?thesis by (simp add: last_hash_def length_genesisHash)
next
  case (snoc ys e)
  then have "chained (last_hash (genesisHash g) ys) [e]" using assms by (simp add: chained_append)
  from chained_length [OF this] snoc show ?thesis by (simp add: last_hash_def)
qed

section \<open>Matching\<close>

lemma preimage_genesis:
  assumes "chained h (e # es)" "length h = 20"
  shows "preimage h e \<noteq> bytes_of_string (''GROUP:'' @ show_u64 g)"
proof -
  have "36 \<le> length (preimage h e)" using assms by (auto simp: preimage_def split: option.splits)
  with length_genesis [of g] show ?thesis by auto
qed

lemma preimage_hash: "chained h (e # es) \<Longrightarrow> SHA1Hash (preimage h e) = leHash e"
  by (auto simp: preimage_def LogHash_def split: option.splits)

lemma chains_match:
  assumes "chained (genesisHash g) es" "chained (genesisHash g) es'" "last_hash (genesisHash g) es = last_hash (genesisHash g) es'"
    and "\<not> collision (hashed g es) (hashed g es')"
  shows "list_all2 same_operation es es'"
  using assms
proof (induction es arbitrary: es' rule: rev_induct)
  case Nil
  show ?case
  proof (cases es' rule: rev_cases)
    case (snoc ys e)
    let ?h = "last_hash (genesisHash g) ys"
    have c: "chained ?h [e]" "chained (genesisHash g) ys" using Nil.prems(2) snoc by (simp_all add: chained_append)
    have "SHA1Hash (preimage ?h e) = SHA1Hash (bytes_of_string (''GROUP:'' @ show_u64 g))"
      using Nil.prems(3) snoc preimage_hash [OF c(1)] by (simp add: last_hash_def genesisHash_def)
    then have "collision (hashed g []) (hashed g es')"
      using preimage_genesis [OF c(1) length_last_hash [OF c(2)], of g] unfolding collision_def
      by (intro bexI [of _ "bytes_of_string (''GROUP:'' @ show_u64 g)"] bexI [of _ "preimage ?h e"]) (auto simp: hashed_def snoc preimages_append)
    with Nil.prems(4) show ?thesis by simp
  qed simp
next
  case (snoc e xs)
  let ?h = "last_hash (genesisHash g) xs"
  have c: "chained ?h [e]" "chained (genesisHash g) xs" using snoc.prems(1) by (simp_all add: chained_append)
  have e: "SHA1Hash (preimage ?h e) = leHash e" "preimage ?h e \<in> set (hashed g (xs @ [e]))" "length ?h = 20"
    using preimage_hash [OF c(1)] length_last_hash [OF c(2)] by (simp_all add: hashed_def preimages_append)
  show ?case
  proof (cases es' rule: rev_cases)
    case Nil
    then have "SHA1Hash (preimage ?h e) = SHA1Hash (bytes_of_string (''GROUP:'' @ show_u64 g))"
      using snoc.prems(3) e(1) by (simp add: last_hash_def genesisHash_def)
    then have "collision (hashed g (xs @ [e])) (hashed g es')"
      using preimage_genesis [OF c(1) e(3), of g] e(2) unfolding collision_def by (intro bexI) (auto simp: hashed_def)
    with snoc.prems(4) show ?thesis by simp
  next
    case es': (snoc ys e')
    let ?h' = "last_hash (genesisHash g) ys"
    have c': "chained ?h' [e']" "chained (genesisHash g) ys" using snoc.prems(2) es' by (simp_all add: chained_append)
    have e': "SHA1Hash (preimage ?h' e') = leHash e'" "preimage ?h' e' \<in> set (hashed g es')" "length ?h' = 20"
      using preimage_hash [OF c'(1)] length_last_hash [OF c'(2)] by (simp_all add: hashed_def preimages_append es')
    have hash: "leHash e = leHash e'" using snoc.prems(3) es' by (simp add: last_hash_def)
    then have eq: "preimage ?h e = preimage ?h' e'" using snoc.prems(4) e(1,2) e'(1,2) unfolding collision_def by metis
    obtain k k' where "leCommand e = Some k" "leCommand e' = Some k'" using c(1) c'(1) by (auto split: option.splits)
    then have step: "?h = ?h'" "same_operation e e'"
      using eq e(3) e'(3) hash by (auto simp: preimage_def append_same_length_inject same_operation_def)
    have "\<not> collision (hashed g xs) (hashed g ys)"
      using snoc.prems(4) collision_mono hashed_prefix unfolding es' by metis
    then have "list_all2 same_operation xs ys" using snoc.IH c(2) c'(2) step(1) by blast
    with step(2) show ?thesis by (simp add: es' list_all2_appendI)
  qed
qed

section \<open>Logs along runs\<close>

lemma run_chained:
  assumes "libraries L" "(server_step L)\<^sup>*\<^sup>* s0 s" "intact L s0" "group_log L (srvDB s) g = xs @ e # xs'"
  shows "chained (genesisHash g) (xs @ [e])"
proof -
  have "chained (genesisHash g) (group_log L (srvDB s) g)"
    using libraries.run_grows [OF assms(1-3)] unfolding grows_def intact_def by blast
  moreover have "group_log L (srvDB s) g = (xs @ [e]) @ xs'" using assms(4) by simp
  ultimately show ?thesis by (simp only: chained_append)
qed

text \<open>
  C4.  Logs match.  Take any two servers after any runs - messages, commands, votes, elections, heartbeats and joins in any order, from any
  nodes, honest or not.  If the logs they have of a group contain entries with the same hash, these are at the same place, and the two logs have the
  same indices, functions, arguments and hashes up to there; or two strings that were hashed for them collide under SHA-1.
\<close>

theorem log_matching:
  assumes "libraries L" "(server_step L)\<^sup>*\<^sup>* s0 s" "(server_step L)\<^sup>*\<^sup>* t0 t" "intact L s0" "intact L t0"
    and "group_log L (srvDB s) g = xs @ e # xs'" "group_log L (srvDB t) g = ys @ e' # ys'" "leHash e = leHash e'"
  shows "length xs = length ys \<and> list_all2 same_operation (xs @ [e]) (ys @ [e']) \<or>
     collision (hashed g (xs @ [e])) (hashed g (ys @ [e']))"
proof (cases "collision (hashed g (xs @ [e])) (hashed g (ys @ [e']))")
  case False
  have "list_all2 same_operation (xs @ [e]) (ys @ [e'])"
    using chains_match [OF run_chained [OF assms(1,2,4,6)] run_chained [OF assms(1,3,5,7)] _ False] assms(8)
    by (simp add: last_hash_def)
  then show ?thesis using list_all2_lengthD by fastforce
qed simp

lemma ex_intact: "intact mem_lib (ex_server i [ex_rt l ro] ex_db1)" "intact mem_lib (ex_server i [ex_rt l ro] ex_db2)"
proof -
  have other: "log_ok mem_lib db g \<and> group_log mem_lib db g = []" if "g \<noteq> 7" "dom (map_of db) \<subseteq> range (LogEntryKey 7)" for g db
  proof -
    have "\<not> prefix (ComposeKeyPrefix g LOG_ENTRIES) k" if "k \<in> dom (map_of db)" for k
      using that \<open>g \<noteq> 7\<close> \<open>dom (map_of db) \<subseteq> _\<close> by auto
    then have "{k \<in> dom (kv mem_lib db). prefix (ComposeKeyPrefix g LOG_ENTRIES) k} = {}" "log_ok mem_lib db g"
      by (auto simp: kv_mem log_ok_def)
    then show ?thesis by (simp only: group_log_def log_keys_def sorted_list_of_set_empty list.map)
  qed
  have "log_ok mem_lib db g \<and> chained (genesisHash g) (group_log mem_lib db g)"
    if "dom (map_of db) \<subseteq> range (LogEntryKey 7)" "log_ok mem_lib db 7" "chained (genesisHash 7) (group_log mem_lib db 7)" for g db
  proof (cases "g = 7")
    case True
    with that(2,3) show ?thesis by (simp only:)
  next
    case False
    with other [OF False that(1)] show ?thesis by simp
  qed
  moreover have "dom (map_of ex_db1) \<subseteq> range (LogEntryKey 7)" "dom (map_of ex_db2) \<subseteq> range (LogEntryKey 7)"
    by (auto simp: ex_db1_def ex_db2_def)
  moreover have "chained (genesisHash 7) (group_log mem_lib ex_db1 7)" "chained (genesisHash 7) (group_log mem_lib ex_db2 7)"
    using ex_chained(1) by (simp_all add: ex_log1 ex_log2)
  ultimately have "log_ok mem_lib ex_db1 g \<and> chained (genesisHash g) (group_log mem_lib ex_db1 g)"
    "log_ok mem_lib ex_db2 g \<and> chained (genesisHash g) (group_log mem_lib ex_db2 g)" for g
    using ex_log1(1) ex_log2(1) by blast+
  then show "intact mem_lib (ex_server i [ex_rt l ro] ex_db1)" "intact mem_lib (ex_server i [ex_rt l ro] ex_db2)"
    by (simp_all add: intact_def onboard_ok_def)
qed

theorem log_matching_witness:
  "\<exists>t. (server_step mem_lib)\<^sup>*\<^sup>* ex_follower t \<and> group_log mem_lib (srvDB t) 7 = [ex_e1, ex_e2] \<and>
     (list_all2 same_operation [ex_e1, ex_e2] [ex_e1, ex_e2] \<or> collision (hashed 7 [ex_e1, ex_e2]) (hashed 7 [ex_e1, ex_e2]))"
proof -
  obtain resp t where t: "AppendEntries mem_lib ex_clock ex_follower 0 ex_append = Some (Inr resp, t)" "group_log mem_lib (srvDB t) 7 = [ex_e1, ex_e2]"
    using mem.AppendEntries_accepts [of 0 ex_follower ex_append ex_clock]
    by (auto simp: ex_append_facts ex_log1 ex_index ex_committable log_extends_def simp del: contiguous.simps chained.simps)
  have on: "GetOnboardGroup ex_follower (aeGroup ex_append) = Some 0" by (simp add: ex_follower_def ex_append_def)
  have "unat (LastEntryIndex mem_lib (srvDB ex_follower) (aeGroup ex_append)) + length (aeEntries ex_append) + 1 < 2 ^ 64"
    by (simp add: ex_follower_def ex_append_def ex_index)
  then have "message_step mem_lib ex_follower t" using message_step.append [of mem_lib ex_clock ex_follower ex_append] t(1) on
    by (simp add: rpc_AppendEntries_def)
  then have run: "(server_step mem_lib)\<^sup>*\<^sup>* ex_follower t" by (intro r_into_rtranclp server_step.message)
  have "intact mem_lib ex_leader" "intact mem_lib ex_follower" by (simp_all add: ex_leader_def ex_follower_def ex_intact)
  moreover have "group_log mem_lib (srvDB ex_leader) 7 = [ex_e1] @ ex_e2 # []" by (simp add: ex_leader_def ex_log2)
  moreover have "group_log mem_lib (srvDB t) 7 = [ex_e1] @ ex_e2 # []" using t(2) by simp
  ultimately have "length [ex_e1] = length [ex_e1] \<and> list_all2 same_operation ([ex_e1] @ [ex_e2]) ([ex_e1] @ [ex_e2]) \<or>
      collision (hashed 7 ([ex_e1] @ [ex_e2])) (hashed 7 ([ex_e1] @ [ex_e2]))"
    by (intro log_matching [OF mem.libraries_axioms rtranclp.rtrancl_refl run]) simp_all
  with run t(2) show ?thesis by auto
qed

end
