(* ===== verification/Replication.thy ===== *)
theory Replication
  imports System Examples
begin

text \<open>
  Servers that send each other heartbeats: the network function of \<^verbatim>\<open>SendFollowersHeartbeat\<close> is now the \<^verbatim>\<open>AppendEntries\<close> of the servers that are
  addressed.  A world maps addresses to the servers that listen there.  The lemmas show that one heartbeat brings the logs of all followers the
  leader keeps track of up to date, in whatever order the messages arrive.
\<close>

section \<open>A world of servers\<close>

type_synonym 'db world = "string \<Rightarrow> 'db BFTRaftServer option"

text \<open>The answer of the server at an address, and the server after it; \<open>None\<close> for a call that fails and a server that is down.\<close>

definition answer ::
  "'db lib \<Rightarrow> clock \<Rightarrow> AppendEntriesRequest \<Rightarrow> 'db BFTRaftServer option \<Rightarrow> AppendEntriesResponse option \<times> 'db BFTRaftServer option" where
  "answer L C req node = (case node of
     None \<Rightarrow> (None, None)
   | Some s \<Rightarrow> (case rpc_AppendEntries L C s req of
       None \<Rightarrow> (None, None)
     | Some (Inl err, s') \<Rightarrow> (None, Some s')
     | Some (Inr response, s') \<Rightarrow> (Some response, Some s')))"

fun deliver ::
  "'db lib \<Rightarrow> clock \<Rightarrow> (string \<times> AppendEntriesRequest) list \<Rightarrow> 'db world \<Rightarrow> AppendEntriesResponse option list \<times> 'db world" where
  "deliver L C [] w = ([], w)"
| "deliver L C ((addr, req) # msgs) w =
     (let (r, node) = answer L C req (w addr); (rs, w) = deliver L C msgs (w(addr := node)) in (r # rs, w))"

definition heartbeat_messages :: "'db lib \<Rightarrow> clock \<Rightarrow> nat \<Rightarrow> 'db BFTRaftServer \<Rightarrow> (string \<times> AppendEntriesRequest) list" where
  "heartbeat_messages L C m s = (let s = RefreshTimer C m 1 s in fst (send_loop L m (rtGroupPeers (rt s m)) [] s))"

text \<open>The server at \<open>addr\<close> sends a heartbeat for its group \<open>m\<close>; \<open>ord\<close> is the order in which the messages arrive.\<close>

definition heartbeat_round ::
  "'db lib \<Rightarrow> clock \<Rightarrow> (string \<times> AppendEntriesRequest) map_order \<Rightarrow> nat \<Rightarrow> string \<Rightarrow> 'db world \<Rightarrow> 'db world option" where
  "heartbeat_round L C ord m addr w = do {
     s \<leftarrow> w addr;
     let (answers, w) = deliver L C (ord (heartbeat_messages L C m s)) w in do {
       s \<leftarrow> SendFollowersHeartbeat L C (\<lambda>sent. answers) m s;
       Some (w(addr \<mapsto> s))
     }
   }"

section \<open>Messages to different addresses\<close>

lemma deliver_distinct:
  assumes "distinct (map fst msgs)"
  shows "deliver L C msgs w = (map (\<lambda>(addr, req). fst (answer L C req (w addr))) msgs,
     \<lambda>addr. case map_of msgs addr of None \<Rightarrow> w addr | Some req \<Rightarrow> snd (answer L C req (w addr)))"
  using assms
proof (induction msgs arbitrary: w)
  case (Cons msg msgs)
  obtain addr req where msg: "msg = (addr, req)" by fastforce
  let ?w = "w(addr := snd (answer L C req (w addr)))"
  have none: "map_of msgs addr = None" using Cons.prems by (simp add: msg map_of_eq_None_iff)
  have same: "?w a = w a" if "(a, r) \<in> set msgs" for a r using that Cons.prems by (force simp: msg)
  have rs: "map (\<lambda>(addr, req). fst (answer L C req (?w addr))) msgs = map (\<lambda>(addr, req). fst (answer L C req (w addr))) msgs"
    using same by (intro map_cong) auto
  have w: "(\<lambda>a. case map_of msgs a of None \<Rightarrow> ?w a | Some req \<Rightarrow> snd (answer L C req (?w a))) =
      (\<lambda>a. case map_of (msg # msgs) a of None \<Rightarrow> w a | Some req \<Rightarrow> snd (answer L C req (w a)))"
    using none by (intro ext) (auto simp: msg split: option.split)
  have d: "distinct (map fst msgs)" using Cons.prems by simp
  have "deliver L C msgs ?w = (map (\<lambda>(addr, req). fst (answer L C req (w addr))) msgs,
      \<lambda>a. case map_of (msg # msgs) a of None \<Rightarrow> w a | Some req \<Rightarrow> snd (answer L C req (w a)))"
    using Cons.IH [OF d, of ?w] unfolding rs w .
  then show ?case by (simp add: msg case_prod_unfold Let_def)
qed simp

lemma deliver_Cons:
  "deliver L C ((b, req) # msgs) w =
    (fst (answer L C req (w b)) # fst (deliver L C msgs (w(b := snd (answer L C req (w b))))),
     snd (deliver L C msgs (w(b := snd (answer L C req (w b))))))"
  by (simp add: case_prod_unfold Let_def)

lemma deliver_length: "length (fst (deliver L C msgs w)) = length msgs"
  by (induction msgs arbitrary: w) (auto simp: deliver_Cons simp del: deliver.simps(2))

lemma iteration_order_perm:
  assumes "iteration_order ord" "distinct (map fst msgs)"
  shows "distinct (map fst (ord msgs))" "map_of (ord msgs) = map_of msgs" "set (ord msgs) = set msgs" "length (ord msgs) = length msgs"
proof -
  have m: "mset (ord msgs) = mset msgs" using assms(1) by (simp add: iteration_order_def)
  then show s: "set (ord msgs) = set msgs" "length (ord msgs) = length msgs" by (auto dest: mset_eq_setD mset_eq_length)
  have "mset (map fst (ord msgs)) = mset (map fst msgs)" using m by simp
  then show d: "distinct (map fst (ord msgs))" using assms(2) mset_eq_imp_distinct_iff by blast
  show "map_of (ord msgs) = map_of msgs" using s(1) d assms(2) by (intro map_of_inject_set [THEN iffD2]) simp_all
qed

section \<open>The messages of a heartbeat\<close>

definition request_for :: "'db lib \<Rightarrow> nat \<Rightarrow> 'db BFTRaftServer \<Rightarrow> Peer \<Rightarrow> AppendEntriesRequest" where
  "request_for L m s peer = (let (entries, prev) = PeerUncommittedLogEntries L (srvDB s) (gid s m) peer in heartbeat_request L m entries prev s)"

text \<open>The host of every other peer is known and can be dialled; \<open>addr\<close> is where it listens.\<close>

definition hosts_known :: "'db lib \<Rightarrow> (u64 \<Rightarrow> string) \<Rightarrow> 'db BFTRaftServer \<Rightarrow> (u64 \<times> Peer) list \<Rightarrow> bool" where
  "hosts_known L addr s ps \<longleftrightarrow> (\<forall>(pid, peer) \<in> set ps. pid \<noteq> srvId s \<longrightarrow>
     (\<exists>node. fst (GetHostNTXN L s pid) = Some node \<and> hostServerAddr node = addr pid \<and> dialOK L (addr pid)))"

definition peer_messages ::
  "'db lib \<Rightarrow> (u64 \<Rightarrow> string) \<Rightarrow> nat \<Rightarrow> 'db BFTRaftServer \<Rightarrow> (string \<times> AppendEntriesRequest) list" where
  "peer_messages L addr m s =
     map (\<lambda>(pid, peer). (addr pid, request_for L m s peer)) (filter (\<lambda>(pid, peer). pid \<noteq> srvId s) (rtGroupPeers (rt s m)))"

lemma send_loop_all:
  assumes "hosts_known L addr s ps"
  shows "\<exists>s'. caches_only s s' \<and> (\<forall>n. fst (GetHostNTXN L s' n) = fst (GetHostNTXN L s n)) \<and> srvNodePublicKeys s' = srvNodePublicKeys s \<and>
     send_loop L m ps sent s =
       (sent @ map (\<lambda>(pid, peer). (addr pid, request_for L m s peer)) (filter (\<lambda>(pid, peer). pid \<noteq> srvId s) ps), True, s')"
  using assms
proof (induction ps arbitrary: sent s)
  case Nil
  show ?case by (intro exI [of _ s]) simp
next
  case (Cons p ps)
  obtain pid peer where p: "p = (pid, peer)" by fastforce
  have known: "hosts_known L addr s ps" using Cons.prems by (simp add: hosts_known_def)
  show ?case
  proof (cases "pid = srvId s")
    case True
    with Cons.IH [OF known, of sent] show ?thesis by (auto simp: p)
  next
    case False
    obtain h s1 where h: "GetHostNTXN L s pid = (h, s1)" by fastforce
    with Cons.prems False obtain node where node: "h = Some node" "hostServerAddr node = addr pid" "dialOK L (addr pid)"
      by (auto simp: hosts_known_def p)
    have c: "caches_only s s1" using h by (rule GetHostNTXN_caches)
    note f = caches_only_sel [OF c]
    have st: "fst (GetHostNTXN L s1 n) = fst (GetHostNTXN L s n)" for n
      using GetHost_stable [of L s pid h s1 n] h f(1) by (simp add: GetHostNTXN_def)
    have keys: "srvNodePublicKeys s1 = srvNodePublicKeys s"
      using h by (auto simp: GetHostNTXN_def GetHost_def Let_def split: option.splits sum.splits)
    have req: "request_for L m s1 q = request_for L m s q" for q by (simp add: request_for_def f heartbeat_request_caches [OF c])
    have "hosts_known L addr s1 ps" using known by (simp add: hosts_known_def st f)
    from Cons.IH [OF this, of "sent @ [(addr pid, request_for L m s peer)]"] obtain s' where s': "caches_only s1 s'"
      "\<forall>n. fst (GetHostNTXN L s' n) = fst (GetHostNTXN L s1 n)" "srvNodePublicKeys s' = srvNodePublicKeys s1"
      "send_loop L m ps (sent @ [(addr pid, request_for L m s peer)]) s1 = (sent @ (addr pid, request_for L m s peer) #
         map (\<lambda>(pid, peer). (addr pid, request_for L m s peer)) (filter (\<lambda>(pid, peer). pid \<noteq> srvId s) ps), True, s')"
      by (auto simp: req f)
    obtain es prev where pu: "PeerUncommittedLogEntries L (srvDB s) (gid s m) peer = (es, prev)" by fastforce
    have "heartbeat_request L m es prev s1 = request_for L m s peer" by (simp add: request_for_def pu heartbeat_request_caches [OF c])
    then have "send_loop L m (p # ps) sent s = send_loop L m ps (sent @ [(addr pid, request_for L m s peer)]) s1"
      using False h node pu by (simp add: p GetClusterRPC_def)
    with s' c caches_only_trans st keys False show ?thesis by (intro exI [of _ s']) (auto simp: p)
  qed
qed

section \<open>The answers\<close>

lemma apply_entries_peer: "apply_entries L now m es response s = Some (r, s') \<Longrightarrow> arPeer r = arPeer response"
proof (induction es arbitrary: response s)
  case (Cons e es)
  obtain cmd s1 res s2 where 1: "append_local L m e s = Some s1" "leCommand e = Some cmd" "CommitGroupLog L now e s1 = Some (res, s2)"
    using Cons.prems by (auto simp: bind_eq_Some_conv WaitLogApproved_def)
  obtain h s3 where h: "GetHostNTXN L s2 (cmdClientId cmd) = (h, s3)" by fastforce
  show ?case
  proof (cases h)
    case None
    with Cons.prems 1 h have "apply_entries L now m es response s3 = Some (r, s')" by (simp add: bind_eq_Some_conv WaitLogApproved_def)
    then show ?thesis by (rule Cons.IH)
  next
    case (Some client)
    let ?s = "respond_client L m e cmd res client s3"
    have "apply_entries L now m es (response\<lparr>arTerm := leTerm e, arIndex := leIndex e, arHash := leHash e,
        arSignature := serverSign L ?s (leHash e)\<rparr>) ?s = Some (r, s')"
      using Cons.prems 1 h Some by (simp add: bind_eq_Some_conv WaitLogApproved_def Let_def)
    from Cons.IH [OF this] show ?thesis by simp
  qed
qed simp

lemma append_new_peer: "append_new L now m req response s = Some (Inr r, s') \<Longrightarrow> arPeer r = arPeer response"
  by (auto simp: append_new_def Let_def bind_eq_Some_conv split: if_splits dest: apply_entries_peer)

text \<open>An answer names the server that gives it, which is the key under which the leader keeps the peer.\<close>

lemma AppendEntries_peer: "AppendEntries L C s m req = Some (Inr r, s') \<Longrightarrow> arPeer r = srvId s"
  by (auto simp: AppendEntries_def Let_def bind_eq_Some_conv split: option.splits if_splits dest: append_new_peer)

lemma answer_peer:
  assumes "fst (answer L C req node) = Some r"
  shows "\<exists>s. node = Some s \<and> arPeer r = srvId s"
  using assms by (auto simp: answer_def rpc_AppendEntries_def split: option.splits sum.splits dest: AppendEntries_peer)

context libraries
begin

text \<open>Neither the book-keeping of the peers nor what it saves touches the hosts, so that their keys stay readable.\<close>

lemma keys_ok_same:
  assumes "srvNodePublicKeys s' = srvNodePublicKeys s" "srvHosts s' = srvHosts s" "\<And>n. kv L (srvDB s') (HostKey n) = kv L (srvDB s) (HostKey n)"
  shows "keys_ok L s' = keys_ok L s"
proof -
  have "fst (GetHostNTXN L s' n) = fst (GetHostNTXN L s n)" for n
    using assms(2,3) by (auto simp: GetHostNTXN_def GetHost_def get Let_def split: option.splits)
  with assms(1) show ?thesis by (simp add: keys_ok_def GetHostPublicKey_None)
qed

lemma update_peer_keys: "keys_ok L (update_peer L m pid peer i s) = keys_ok L s"
proof -
  let ?q = "peer\<lparr>peerMatchIndex := i, peerNextIndex := i + 1\<rparr>"
  let ?s = "set_rt m ((rt s m)\<lparr>rtGroupPeers := AList.update (peerId peer) ?q (AList.update pid ?q (rtGroupPeers (rt s m)))\<rparr>) s"
  obtain r s' where u: "updateDB L ?s (\<lambda>txn. SavePeer L txn ?q) = (r, s')" by fastforce
  have hosts: "kv L (srvDB s') (HostKey n) = kv L (srvDB s) (HostKey n)" for n
    using u by (cases rule: updateDB_cases) (auto simp: SavePeer_def split: option.splits sum.splits dest!: set)
  obtain db where "s' = ?s\<lparr>srvDB := db\<rparr>" using updateDB_only_DB [OF u] by blast
  then have "srvNodePublicKeys s' = srvNodePublicKeys s" "srvHosts s' = srvHosts s" by simp_all
  then show ?thesis using keys_ok_same [OF _ _ hosts] u by (simp add: update_peer_def Let_def)
qed

lemma update_peer_rt:
  assumes "m < length (srvRTGroups s)"
  shows "length (srvRTGroups (update_peer L m pid peer i s)) = length (srvRTGroups s)"
    and "dom (map_of (rtGroupPeers (rt s m))) \<subseteq> dom (map_of (rtGroupPeers (rt (update_peer L m pid peer i s) m)))"
proof -
  let ?q = "peer\<lparr>peerMatchIndex := i, peerNextIndex := i + 1\<rparr>"
  let ?ps = "AList.update (peerId peer) ?q (AList.update pid ?q (rtGroupPeers (rt s m)))"
  let ?s = "set_rt m ((rt s m)\<lparr>rtGroupPeers := ?ps\<rparr>) s"
  obtain db where "snd (updateDB L ?s (\<lambda>txn. SavePeer L txn ?q)) = ?s\<lparr>srvDB := db\<rparr>"
    using updateDB_only_DB [OF surjective_pairing] by metis
  then have u: "update_peer L m pid peer i s = ?s\<lparr>srvDB := db\<rparr>" by (simp add: update_peer_def Let_def)
  show "length (srvRTGroups (update_peer L m pid peer i s)) = length (srvRTGroups s)" by (simp add: u)
  have "rt (update_peer L m pid peer i s) m = (rt s m)\<lparr>rtGroupPeers := ?ps\<rparr>" using assms by (simp add: u rt_def set_rt_def)
  then show "dom (map_of (rtGroupPeers (rt s m))) \<subseteq> dom (map_of (rtGroupPeers (rt (update_peer L m pid peer i s) m)))"
    by (auto simp: update_conv')
qed

lemma receive_returns:
  assumes "keys_ok L s" "m < length (srvRTGroups s)" "\<And>r. Some r \<in> set rs \<Longrightarrow> arPeer r \<in> dom (map_of (rtGroupPeers (rt s m)))"
  shows "\<exists>s'. receive_loop L m rs s = Some s'"
  using assms
proof (induction rs arbitrary: s)
  case (Cons a rs)
  show ?case
  proof (cases a)
    case None
    with Cons show ?thesis by simp
  next
    case (Some r)
    obtain k s1 where k: "GetHostPublicKey L s (arPeer r) = Some (k, s1)" using Cons.prems(1) by (force simp: keys_ok_def)
    note f = caches_only_sel [OF GetHostPublicKey_caches [OF k]]
    have keys1: "keys_ok L s1" using Cons.prems(1) k by (rule keys_ok_GetHostPublicKey)
    show ?thesis
    proof (cases "k = None")
      case True
      have "\<exists>s'. receive_loop L m rs s1 = Some s'" using Cons.IH [of s1] Cons.prems keys1 by (simp add: f)
      with True k Some show ?thesis by simp
    next
      case False
      obtain peer where peer: "map_of (rtGroupPeers (rt s1 m)) (arPeer r) = Some peer" using Cons.prems(3) [of r] Some f by auto
      define s2 where "s2 = (if arIndex r \<noteq> peerMatchIndex peer then update_peer L m (arPeer r) peer (arIndex r) s1 else s1)"
      have s2: "length (srvRTGroups s2) = length (srvRTGroups s)" "keys_ok L s2"
        "dom (map_of (rtGroupPeers (rt s m))) \<subseteq> dom (map_of (rtGroupPeers (rt s2 m)))"
        using update_peer_rt [of m s1] Cons.prems(2) keys1 by (simp_all add: s2_def f update_peer_keys)
      define s3 where "s3 = set_rt m ((rt s2 m)\<lparr>rtSendVotesForPeers := (rtSendVotesForPeers (rt s2 m))(arPeer r \<mapsto> \<not> arConvinced r)\<rparr>) s2"
      have s3: "keys_ok L s3" "length (srvRTGroups s3) = length (srvRTGroups s)" "rtGroupPeers (rt s3 m) = rtGroupPeers (rt s2 m)"
        using s2(1,2) Cons.prems(2) keys_ok_same [of s3 s2] by (simp_all add: s3_def)
      have "\<exists>s'. receive_loop L m rs s3 = Some s'"
      proof (rule Cons.IH)
        show "arPeer q \<in> dom (map_of (rtGroupPeers (rt s3 m)))" if "Some q \<in> set rs" for q
          using that Cons.prems(3) [of q] s2(3) s3(3) by auto
      qed (use s3(1,2) Cons.prems(2) in simp_all)
      moreover obtain pk where "k = Some pk" using False by blast
      ultimately show ?thesis using k peer Some by (simp add: s2_def s3_def Let_def)
    qed
  qed
qed simp

end

section \<open>Followers that catch up\<close>

text \<open>A follower accepts the leader \<open>l\<close>, its log is a prefix of the leader's, and the leader's record of it is right.\<close>

definition follower_ready :: "'db lib \<Rightarrow> u64 \<Rightarrow> u64 \<Rightarrow> LogEntry list \<Rightarrow> Peer \<Rightarrow> 'db BFTRaftServer \<Rightarrow> bool" where
  "follower_ready L g l es peer s \<longleftrightarrow> (\<exists>m. GetOnboardGroup s g = Some m \<and> m < length (srvRTGroups s) \<and> gid s m = g \<and>
     rtLeader (rt s m) = l \<and> map_of (rtGroupPeers (rt s m)) l \<noteq> None) \<and> log_ok L (srvDB s) g \<and> keys_ok L s \<and> pubkey L s l \<noteq> None \<and>
     peer_tracks L (srvDB s) g peer \<and> (\<exists>rest. es = group_log L (srvDB s) g @ rest \<and> (\<forall>e \<in> set rest. committable (srvFuncReg s) g e))"

text \<open>A leader whose log is intact.\<close>

definition leader_ready :: "'db lib \<Rightarrow> u64 \<Rightarrow> nat \<Rightarrow> 'db BFTRaftServer \<Rightarrow> bool" where
  "leader_ready L g m s \<longleftrightarrow> gid s m = g \<and> log_ok L (srvDB s) g \<and> chained (genesisHash g) (group_log L (srvDB s) g) \<and>
     contiguous 1 (group_log L (srvDB s) g) \<and> length (group_log L (srvDB s) g) + 1 < 2 ^ 64"

context libraries
begin

lemma AppendEntries_empty:
  assumes "map_of (rtGroupPeers (rt s m)) (aeLeaderId req) \<noteq> None" "aeLeaderId req = rtLeader (rt s m)"
    and "pubkey L s (rtLeader (rt s m)) \<noteq> None" "keys_ok L s" "aeEntries req = []"
  shows "\<exists>r s'. AppendEntries L C s m req = Some (Inr r, s') \<and> srvDB s' = srvDB s"
proof -
  have c: "check_leader L C s m req = Some (None, s)" using assms(1,2) by (simp add: check_leader_def)
  obtain k s1 where k: "GetHostPublicKey L s (rtLeader (rt s m)) = Some (Some k, s1)"
    using assms(3,4) by (force simp: keys_ok_def pubkey_def split: option.splits)
  show ?thesis using c k assms(5) caches_only_sel(1) [OF GetHostPublicKey_caches [OF k]] by (auto simp: AppendEntries_def Let_def)
qed

lemma answer_catches_up:
  assumes io: "no_io_errors L" and lead: "leader_ready L g m sl"
    and foll: "follower_ready L g (srvId sl) (group_log L (srvDB sl) g) peer sf"
  shows "\<exists>r sf'. answer L C (request_for L m sl peer) (Some sf) = (Some r, Some sf') \<and> group_log L (srvDB sf') g = group_log L (srvDB sl) g"
proof -
  obtain mf rest where mf: "GetOnboardGroup sf g = Some mf" "mf < length (srvRTGroups sf)" "gid sf mf = g"
      "rtLeader (rt sf mf) = srvId sl" "map_of (rtGroupPeers (rt sf mf)) (srvId sl) \<noteq> None"
    and ok: "log_ok L (srvDB sf) g" "keys_ok L sf" "pubkey L sf (srvId sl) \<noteq> None" "peer_tracks L (srvDB sf) g peer"
    and rest: "group_log L (srvDB sl) g = group_log L (srvDB sf) g @ rest" "\<And>e. e \<in> set rest \<Longrightarrow> committable (srvFuncReg sf) g e"
    using foll unfolding follower_ready_def by blast
  have l: "gid sl m = g" "log_ok L (srvDB sl) g" "chained (genesisHash g) (group_log L (srvDB sl) g)"
    "contiguous 1 (group_log L (srvDB sl) g)" "length (group_log L (srvDB sl) g) + 1 < 2 ^ 64"
    using lead by (simp_all add: leader_ready_def)
  obtain es prev where pu: "PeerUncommittedLogEntries L (srvDB sl) g peer = (es, prev)" by fastforce
  have req: "request_for L m sl peer = heartbeat_request L m es prev sl" by (simp add: request_for_def l(1) pu)
  have group: "aeGroup (heartbeat_request L m es prev sl) = g" "aeLeaderId (heartbeat_request L m es prev sl) = srvId sl"
    "aeEntries (heartbeat_request L m es prev sl) = es"
    using l(1) by (simp_all add: heartbeat_request_def Let_def gid_def)
  have "\<exists>r sf'. AppendEntries L C sf mf (heartbeat_request L m es prev sl) = Some (Inr r, sf') \<and>
      group_log L (srvDB sf') g = group_log L (srvDB sl) g"
  proof (cases "rest = []")
    case False
    then show ?thesis
      using heartbeat_replicates [OF io l(2) ok(1) l(1,3-5) mf(2,3) ok(2) mf(5,4) ok(3) rest(1) _ rest(2) ok(4) pu refl] by blast
  next
    case True
    let ?f = "group_log L (srvDB sf) g"
    have c: "contiguous 1 ?f" "length ?f + 1 < 2 ^ 64" using l(4,5) rest(1) True by simp_all
    have "LastEntryIndex L (srvDB sf) g = of_nat (length ?f)"
      using contiguous_last [OF c(1)] by (auto simp: LastEntryIndex_log [OF ok(1)])
    then have "unat (LastEntryIndex L (srvDB sf) g) + 1 < 2 ^ 64" using c(2) by (simp add: unat_of_nat)
    then have "es = []" using uncommitted_is_suffix [OF l(2) ok(1) rest(1) ok(4)] pu True by simp
    then show ?thesis using AppendEntries_empty [of sf mf "heartbeat_request L m es prev sl" C] mf(4,5) ok(2,3) group rest(1) True by auto
  qed
  then obtain r sf' where "AppendEntries L C sf mf (heartbeat_request L m es prev sl) = Some (Inr r, sf')"
    "group_log L (srvDB sf') g = group_log L (srvDB sl) g" by blast
  then show ?thesis by (simp add: answer_def rpc_AppendEntries_def req group mf(1))
qed

text \<open>Refreshing the timer changes nothing the messages depend on.\<close>

lemma refreshed_sel:
  assumes "m < length (srvRTGroups s)"
  shows "srvDB (RefreshTimer C m t s) = srvDB s" "srvId (RefreshTimer C m t s) = srvId s" "gid (RefreshTimer C m t s) m = gid s m"
    "rtGroupPeers (rt (RefreshTimer C m t s) m) = rtGroupPeers (rt s m)" "length (srvRTGroups (RefreshTimer C m t s)) = length (srvRTGroups s)"
    "fst (GetHostNTXN L (RefreshTimer C m t s) n) = fst (GetHostNTXN L s n)" "keys_ok L (RefreshTimer C m t s) = keys_ok L s"
proof -
  show host: "fst (GetHostNTXN L (RefreshTimer C m t s) n) = fst (GetHostNTXN L s n)" for n
    by (auto simp: RefreshTimer_def GetHostNTXN_def GetHost_def Let_def split: option.splits sum.splits)
  show "keys_ok L (RefreshTimer C m t s) = keys_ok L s" by (rule keys_ok_same) (simp_all add: RefreshTimer_def)
qed (use assms in \<open>simp_all add: RefreshTimer_def gid_def\<close>)

lemma heartbeat_messages_known:
  assumes m: "m < length (srvRTGroups sl)" and wf: "peers_wf (rt sl m)" and known: "hosts_known L addr sl (rtGroupPeers (rt sl m))"
    and inj: "inj_on addr (peer_ids (rt sl m))"
  obtains s1 where "caches_only (RefreshTimer C m 1 sl) s1" "keys_ok L s1 = keys_ok L sl"
    "send_loop L m (rtGroupPeers (rt sl m)) [] (RefreshTimer C m 1 sl) = (peer_messages L addr m (RefreshTimer C m 1 sl), True, s1)"
    "heartbeat_messages L C m sl = peer_messages L addr m (RefreshTimer C m 1 sl)"
    "distinct (map fst (peer_messages L addr m (RefreshTimer C m 1 sl)))"
proof -
  let ?s = "RefreshTimer C m 1 sl" and ?ps = "filter (\<lambda>(pid, peer). pid \<noteq> srvId sl) (rtGroupPeers (rt sl m))"
  note f = refreshed_sel [OF m]
  have "hosts_known L addr ?s (rtGroupPeers (rt sl m))" using known by (simp add: hosts_known_def f)
  from send_loop_all [OF this, of m "[]"] obtain s1 where s1: "caches_only ?s s1" "\<forall>n. fst (GetHostNTXN L s1 n) = fst (GetHostNTXN L ?s n)"
    "srvNodePublicKeys s1 = srvNodePublicKeys ?s" "send_loop L m (rtGroupPeers (rt sl m)) [] ?s = (peer_messages L addr m ?s, True, s1)"
    by (auto simp: f peer_messages_def)
  have keys: "keys_ok L s1 = keys_ok L sl" using f(7) [where t = 1 and C = C] s1(2,3) by (simp add: keys_ok_def GetHostPublicKey_None)
  have ids: "distinct (map fst ?ps)" "set (map fst ?ps) \<subseteq> peer_ids (rt sl m)"
    using wf by (auto simp: peers_wf_def peer_ids_def distinct_map_filter)
  have "map fst (peer_messages L addr m ?s) = map addr (map fst ?ps)" by (simp add: comp_def case_prod_unfold peer_messages_def f)
  then have "distinct (map fst (peer_messages L addr m ?s))" using ids inj inj_on_subset by (simp only: distinct_map) blast
  with that s1(1,4) keys show ?thesis by (simp add: heartbeat_messages_def Let_def f)
qed

text \<open>What a delivery leaves at the followers, and whose answers it brings.\<close>

lemma delivered:
  assumes io: "no_io_errors L" and lead: "leader_ready L g m s" and d: "distinct (map fst (peer_messages L addr m s))" and ord: "iteration_order ord"
    and foll: "\<forall>(pid, peer) \<in> set (rtGroupPeers (rt s m)). pid \<noteq> srvId s \<longrightarrow>
      (\<exists>sf. w (addr pid) = Some sf \<and> srvId sf = pid \<and> follower_ready L g (srvId s) (group_log L (srvDB s) g) peer sf)"
    and del: "deliver L C (ord (peer_messages L addr m s)) w = (answers, w1)"
  shows "pid \<in> peer_ids (rt s m) - {srvId s} \<Longrightarrow> \<exists>sf. w1 (addr pid) = Some sf \<and> group_log L (srvDB sf) g = group_log L (srvDB s) g"
    and "Some r \<in> set answers \<Longrightarrow> arPeer r \<in> peer_ids (rt s m)"
proof -
  let ?req = "request_for L m s" and ?msgs = "peer_messages L addr m s"
  note o = iteration_order_perm [OF ord d]
  have w1: "answers = map (\<lambda>(addr, req). fst (answer L C req (w addr))) (ord ?msgs)"
    "w1 = (\<lambda>a. case map_of ?msgs a of None \<Rightarrow> w a | Some req \<Rightarrow> snd (answer L C req (w a)))"
    using del unfolding deliver_distinct [OF o(1)] o(2) by simp_all
  show "\<exists>sf. w1 (addr pid) = Some sf \<and> group_log L (srvDB sf) g = group_log L (srvDB s) g" if p: "pid \<in> peer_ids (rt s m) - {srvId s}"
  proof -
    obtain peer where peer: "(pid, peer) \<in> set (rtGroupPeers (rt s m))" "pid \<noteq> srvId s" using p by (auto simp: peer_ids_def)
    then have "(addr pid, ?req peer) \<in> set ?msgs" by (force simp: peer_messages_def)
    with d have "map_of ?msgs (addr pid) = Some (?req peer)" by (rule map_of_is_SomeI)
    moreover obtain sf where "w (addr pid) = Some sf" "follower_ready L g (srvId s) (group_log L (srvDB s) g) peer sf" using foll peer by blast
    ultimately show ?thesis using answer_catches_up [OF io lead, of peer sf C] by (auto simp: w1(2))
  qed
  show "arPeer r \<in> peer_ids (rt s m)" if r: "Some r \<in> set answers"
  proof -
    obtain pid peer where p: "(pid, peer) \<in> set (rtGroupPeers (rt s m))" "pid \<noteq> srvId s" "fst (answer L C (?req peer) (w (addr pid))) = Some r"
      using r o(3) by (force simp: w1(1) peer_messages_def)
    have "arPeer r = pid" using foll p(1,2) answer_peer [OF p(3)] by fastforce
    with p(1) show ?thesis by (force simp: peer_ids_def)
  qed
qed

lemma heartbeat_round_replicates:
  assumes io: "no_io_errors L" and ord: "iteration_order ord"
    and w: "w la = Some sl" "m < length (srvRTGroups sl)" and lead: "leader_ready L g m sl" "keys_ok L sl" "peers_wf (rt sl m)"
    and known: "hosts_known L addr sl (rtGroupPeers (rt sl m))"
    and inj: "inj_on addr (peer_ids (rt sl m))" "\<And>pid. pid \<in> peer_ids (rt sl m) \<Longrightarrow> pid \<noteq> srvId sl \<Longrightarrow> addr pid \<noteq> la"
    and foll: "\<And>pid peer. (pid, peer) \<in> set (rtGroupPeers (rt sl m)) \<Longrightarrow> pid \<noteq> srvId sl \<Longrightarrow>
      \<exists>sf. w (addr pid) = Some sf \<and> srvId sf = pid \<and> follower_ready L g (srvId sl) (group_log L (srvDB sl) g) peer sf"
  shows "\<exists>w'. heartbeat_round L C ord m la w = Some w' \<and>
     (\<forall>pid \<in> peer_ids (rt sl m) - {srvId sl}. \<exists>sf. w' (addr pid) = Some sf \<and> group_log L (srvDB sf) g = group_log L (srvDB sl) g) \<and>
     (\<exists>s. w' la = Some s \<and> group_log L (srvDB s) g = group_log L (srvDB sl) g)"
proof -
  let ?s = "RefreshTimer C m 1 sl"
  let ?msgs = "peer_messages L addr m ?s"
  note f = refreshed_sel [OF w(2)]
  have peers: "peer_ids (rt ?s m) = peer_ids (rt sl m)" by (simp add: peer_ids_def f)
  obtain s1 where s1: "caches_only ?s s1" "keys_ok L s1 = keys_ok L sl" "send_loop L m (rtGroupPeers (rt sl m)) [] ?s = (?msgs, True, s1)"
    "heartbeat_messages L C m sl = ?msgs" "distinct (map fst ?msgs)"
    using heartbeat_messages_known [OF w(2) lead(3) known inj(1)] by blast
  note c = caches_only_sel [OF s1(1)]
  obtain answers w1 where del: "deliver L C (ord ?msgs) w = (answers, w1)" by fastforce
  have ready: "leader_ready L g m ?s" using lead(1) by (simp add: leader_ready_def f)
  have foll': "\<forall>(pid, peer) \<in> set (rtGroupPeers (rt ?s m)). pid \<noteq> srvId ?s \<longrightarrow>
      (\<exists>sf. w (addr pid) = Some sf \<and> srvId sf = pid \<and> follower_ready L g (srvId ?s) (group_log L (srvDB ?s) g) peer sf)"
    using foll by (auto simp: f)
  note out = delivered [OF io ready s1(5) ord foll' del, unfolded peers f]
  have "arPeer r \<in> dom (map_of (rtGroupPeers (rt s1 m)))" if "Some r \<in> set answers" for r
    using out(2) [OF that] unfolding c f dom_map_of_conv_image_fst by (simp add: peer_ids_def)
  moreover have "m < length (srvRTGroups s1)" using w(2) by (simp add: c f)
  ultimately obtain s' where s': "receive_loop L m answers s1 = Some s'" using receive_returns s1(2) lead(2) by blast
  have "length answers = length ?msgs" using deliver_length [of L C "ord ?msgs" w] iteration_order_perm(4) [OF ord s1(5)] by (simp add: del)
  then have send: "SendFollowersHeartbeat L C (\<lambda>sent. answers) m sl = Some s'"
    using s1(3) s' by (simp add: SendFollowersHeartbeat_def Let_def f)
  have logs: "group_log L (srvDB s') g = group_log L (srvDB sl) g"
    using SendFollowersHeartbeat_frame [OF send] logs_eq_logs(1) by (auto simp: hb_frame_def)
  have round: "heartbeat_round L C ord m la w = Some (w1(la \<mapsto> s'))" using w(1) s1(4) del send by (simp add: heartbeat_round_def)
  have "\<exists>sf. (w1(la \<mapsto> s')) (addr pid) = Some sf \<and> group_log L (srvDB sf) g = group_log L (srvDB sl) g"
    if "pid \<in> peer_ids (rt sl m) - {srvId sl}" for pid
    using out(1) [of pid] inj(2) [of pid] that by simp
  with round logs show ?thesis by auto
qed

end

section \<open>Replication to a group\<close>

text \<open>
  C2.  One heartbeat replicates the log to the whole group.  A leader with an intact log sends a heartbeat to the servers of its peers,
  each of which accepts it as leader, has a prefix of its log, however short, and is tracked correctly.  In whatever order the messages
  arrive, the heartbeat returns, every follower then has exactly the leader's log, and the leader's own log is unchanged.
\<close>

theorem heartbeat_reaches_all:
  assumes "libraries L" "no_io_errors L" "iteration_order ord"
    and "w la = Some sl" "m < length (srvRTGroups sl)" "leader_ready L g m sl" "keys_ok L sl" "peers_wf (rt sl m)"
    and "hosts_known L addr sl (rtGroupPeers (rt sl m))"
    and "inj_on addr (peer_ids (rt sl m))" "\<And>pid. pid \<in> peer_ids (rt sl m) \<Longrightarrow> pid \<noteq> srvId sl \<Longrightarrow> addr pid \<noteq> la"
    and "\<And>pid peer. (pid, peer) \<in> set (rtGroupPeers (rt sl m)) \<Longrightarrow> pid \<noteq> srvId sl \<Longrightarrow>
      \<exists>sf. w (addr pid) = Some sf \<and> srvId sf = pid \<and> follower_ready L g (srvId sl) (group_log L (srvDB sl) g) peer sf"
  shows "\<exists>w'. heartbeat_round L C ord m la w = Some w' \<and>
     (\<forall>pid \<in> peer_ids (rt sl m) - {srvId sl}. \<exists>sf. w' (addr pid) = Some sf \<and> group_log L (srvDB sf) g = group_log L (srvDB sl) g) \<and>
     (\<exists>s. w' la = Some s \<and> group_log L (srvDB s) g = group_log L (srvDB sl) g)"
  by (rule libraries.heartbeat_round_replicates [OF assms])

definition ex_addr :: "u64 \<Rightarrow> string" where
  "ex_addr n = (if n = 2 then ''h:2'' else if n = 3 then ''h:3'' else ''h:1'')"

definition ex_sender :: "memdb BFTRaftServer" where
  "ex_sender = ex_leader\<lparr>srvHosts := [cacheKey 2 \<mapsto> \<lparr>hostId = 2, hostLastSeen = 0, hostOnline = True, hostServerAddr = ''h:2'', hostPublicKey = []\<rparr>,
     cacheKey 3 \<mapsto> \<lparr>hostId = 3, hostLastSeen = 0, hostOnline = True, hostServerAddr = ''h:3'', hostPublicKey = []\<rparr>]\<rparr>"

definition ex_world :: "memdb world" where
  "ex_world = [''h:1'' \<mapsto> ex_sender, ''h:2'' \<mapsto> ex_server 2 [ex_rt 1 FOLLOWER] ex_db1, ''h:3'' \<mapsto> ex_server 3 [ex_rt 1 FOLLOWER] ex_db1]"

lemma ex_sender_facts:
  "srvDB ex_sender = ex_db2" "srvId ex_sender = 1" "rt ex_sender 0 = ex_rt 1 LEADER" "length (srvRTGroups ex_sender) = 1"
  "gid ex_sender 0 = 7" "keys_ok L ex_sender"
  by (simp_all add: ex_sender_def ex_leader_def rt_def gid_def keys_ok_def GetHostPublicKey_def ex_server_def)

lemma ex_sender_ready: "leader_ready mem_lib 7 0 ex_sender"
  using ex_chained by (simp add: leader_ready_def ex_sender_facts ex_log2 del: contiguous.simps chained.simps)

lemma ex_follower_ready:
  assumes "map_of (rtGroupPeers (ex_rt 1 FOLLOWER)) i \<noteq> None"
  shows "follower_ready mem_lib 7 1 [ex_e1, ex_e2] (ex_peer i) (ex_server i [ex_rt 1 FOLLOWER] ex_db1)"
  unfolding follower_ready_def by (auto simp: ex_log1 ex_committable peer_tracks_def ex_index ex_peer_def)

lemma ex_sender_known: "hosts_known mem_lib ex_addr ex_sender (rtGroupPeers (rt ex_sender 0))"
  by (simp add: hosts_known_def ex_sender_facts) (simp add: ex_sender_def GetHostNTXN_def GetHost_def ex_addr_def)

theorem heartbeat_reaches_all_witness:
  "\<exists>w' sf2 sf3. heartbeat_round mem_lib ex_clock (\<lambda>msgs. msgs) 0 ''h:1'' ex_world = Some w' \<and>
     w' ''h:2'' = Some sf2 \<and> group_log mem_lib (srvDB sf2) 7 = [ex_e1, ex_e2] \<and>
     w' ''h:3'' = Some sf3 \<and> group_log mem_lib (srvDB sf3) 7 = [ex_e1, ex_e2]"
proof -
  have w: "ex_world ''h:1'' = Some ex_sender" "ex_world ''h:2'' = Some (ex_server 2 [ex_rt 1 FOLLOWER] ex_db1)"
    "ex_world ''h:3'' = Some (ex_server 3 [ex_rt 1 FOLLOWER] ex_db1)" by (simp_all add: ex_world_def)
  have ids: "peer_ids (rt ex_sender 0) = {1, 2, 3}" by (simp add: ex_sender_facts peer_ids_def)
  have log: "group_log mem_lib (srvDB ex_sender) 7 = [ex_e1, ex_e2]" by (simp add: ex_sender_facts ex_log2)
  have "\<exists>w'. heartbeat_round mem_lib ex_clock (\<lambda>msgs. msgs) 0 ''h:1'' ex_world = Some w' \<and>
     (\<forall>pid \<in> peer_ids (rt ex_sender 0) - {srvId ex_sender}. \<exists>sf. w' (ex_addr pid) = Some sf \<and>
        group_log mem_lib (srvDB sf) 7 = group_log mem_lib (srvDB ex_sender) 7) \<and>
     (\<exists>s. w' ''h:1'' = Some s \<and> group_log mem_lib (srvDB s) 7 = group_log mem_lib (srvDB ex_sender) 7)"
  proof (rule heartbeat_reaches_all [where ord = "\<lambda>msgs. msgs" and sl = ex_sender and la = "''h:1''" and addr = ex_addr])
    show "\<exists>sf. ex_world (ex_addr pid) = Some sf \<and> srvId sf = pid \<and>
        follower_ready mem_lib 7 (srvId ex_sender) (group_log mem_lib (srvDB ex_sender) 7) peer sf"
      if "(pid, peer) \<in> set (rtGroupPeers (rt ex_sender 0))" "pid \<noteq> srvId ex_sender" for pid peer
      using that ex_follower_ready [of 2] ex_follower_ready [of 3] by (auto simp: ex_sender_facts ex_log2 ex_addr_def w)
    show "ex_addr pid \<noteq> ''h:1''" if "pid \<in> peer_ids (rt ex_sender 0)" "pid \<noteq> srvId ex_sender" for pid
      using that(1) [unfolded ids] that(2) by (auto simp: ex_addr_def ex_sender_facts(2))
  qed (use mem.libraries_axioms ex_sender_ready ex_sender_known w(1) in
      \<open>simp_all add: iteration_order_def ids ex_addr_def ex_sender_facts ex_peers_wf inj_on_def\<close>)
  then show ?thesis by (auto simp only: ids log ex_sender_facts(2)) (auto simp: ex_addr_def)
qed

end
