(* ===== verification/Locks.thy ===== *)
theory Locks
  imports Replication
begin

text \<open>
  The lock of a group, which \<^verbatim>\<open>SendFollowersHeartbeat\<close> holds while it waits for the answers to its calls, without a time limit, and which
  \<^verbatim>\<open>AppendEntries\<close> takes.  A heartbeat is now several steps: it begins, each of its calls is served when the server that is called does not hold
  its own lock, and it ends when all answers are there.  One heartbeat among servers that hold no lock is the \<open>heartbeat_round\<close> of the
  theory \<open>Replication\<close>; two leaders that call each other wait for ever, and only a cycle of servers that wait for each other stops heartbeats.
\<close>

section \<open>Heartbeats in steps\<close>

text \<open>A server that is sending holds its lock; it has calls that are not served yet, and answers.\<close>

datatype 'db node = Idle "'db BFTRaftServer"
  | Sending "'db BFTRaftServer" "(string \<times> AppendEntriesRequest) list" "AppendEntriesResponse option list"

type_synonym 'db nodes = "string \<Rightarrow> 'db node option"

definition begin_heartbeat :: "'db lib \<Rightarrow> clock \<Rightarrow> nat \<Rightarrow> 'db BFTRaftServer \<Rightarrow> 'db node" where
  "begin_heartbeat L C m s =
     (let s = RefreshTimer C m 1 s; (sent, complete, s) = send_loop L m (rtGroupPeers (rt s m)) [] s
      in if complete then Sending s sent [] else Idle s)"

inductive heartbeat_step :: "'db lib \<Rightarrow> clock \<Rightarrow> nat \<Rightarrow> 'db nodes \<Rightarrow> 'db nodes \<Rightarrow> bool" for L C m where
  begun: "w a = Some (Idle s) \<Longrightarrow> heartbeat_step L C m w (w(a \<mapsto> begin_heartbeat L C m s))"
| served: "w a = Some (Sending s (xs @ (b, req) # ys) answers) \<Longrightarrow> w b = map_option Idle t \<Longrightarrow>
    heartbeat_step L C m w
      (w(b := map_option Idle (snd (answer L C req t)), a \<mapsto> Sending s (xs @ ys) (answers @ [fst (answer L C req t)])))"
| ended: "w a = Some (Sending s [] answers) \<Longrightarrow> receive_loop L m answers s = Some s' \<Longrightarrow> heartbeat_step L C m w (w(a \<mapsto> Idle s'))"

section \<open>One heartbeat\<close>

definition all_idle :: "'db world \<Rightarrow> 'db nodes" where
  "all_idle w = (\<lambda>a. map_option Idle (w a))"

lemma served_all:
  assumes "a \<notin> fst ` set msgs"
  shows "(heartbeat_step L C m)\<^sup>*\<^sup>* ((all_idle w)(a \<mapsto> Sending s msgs answers))
    ((all_idle (snd (deliver L C msgs w)))(a \<mapsto> Sending s [] (answers @ fst (deliver L C msgs w))))"
  using assms
proof (induction msgs arbitrary: w answers)
  case (Cons msg msgs)
  obtain b req where msg: "msg = (b, req)" by fastforce
  have b: "b \<noteq> a" using Cons.prems msg by auto
  let ?r = "answer L C req (w b)" and ?w' = "(all_idle w)(a \<mapsto> Sending s (msg # msgs) answers)"
  let ?w = "w(b := snd ?r)"
  have "?w' a = Some (Sending s ([] @ (b, req) # msgs) answers)" "?w' b = map_option Idle (w b)"
    using b by (simp_all add: msg all_idle_def)
  then have "heartbeat_step L C m ?w' (?w'(b := map_option Idle (snd ?r), a \<mapsto> Sending s ([] @ msgs) (answers @ [fst ?r])))"
    by (rule heartbeat_step.served)
  also have "?w'(b := map_option Idle (snd ?r), a \<mapsto> Sending s ([] @ msgs) (answers @ [fst ?r])) =
      (all_idle ?w)(a \<mapsto> Sending s msgs (answers @ [fst ?r]))"
    using b by (auto simp: all_idle_def fun_eq_iff)
  finally have 1: "heartbeat_step L C m ?w' ((all_idle ?w)(a \<mapsto> Sending s msgs (answers @ [fst ?r])))" .
  have 2: "(heartbeat_step L C m)\<^sup>*\<^sup>* ((all_idle ?w)(a \<mapsto> Sending s msgs (answers @ [fst ?r])))
      ((all_idle (snd (deliver L C msgs ?w)))(a \<mapsto> Sending s [] ((answers @ [fst ?r]) @ fst (deliver L C msgs ?w))))"
    using Cons.prems by (intro Cons.IH) simp
  show ?case using converse_rtranclp_into_rtranclp [OF 1 2] by (simp only: msg deliver_Cons prod.sel append_assoc append.simps)
qed simp

text \<open>The big step is a sequence of small ones.\<close>

lemma round_in_steps:
  assumes r: "heartbeat_round L C (\<lambda>msgs. msgs) m a w = Some w'" and s: "w a = Some s" and self: "a \<notin> fst ` set (heartbeat_messages L C m s)"
    and complete: "\<exists>t. begin_heartbeat L C m s = Sending t (heartbeat_messages L C m s) []"
  shows "(heartbeat_step L C m)\<^sup>*\<^sup>* (all_idle w) (all_idle w')"
proof -
  let ?s = "RefreshTimer C m 1 s" and ?msgs = "heartbeat_messages L C m s"
  obtain t where t: "begin_heartbeat L C m s = Sending t ?msgs []" using complete by blast
  then have loop: "send_loop L m (rtGroupPeers (rt ?s m)) [] ?s = (?msgs, True, t)"
    by (auto simp: begin_heartbeat_def Let_def split: prod.splits if_splits)
  let ?d = "deliver L C ?msgs w"
  obtain s' where s': "SendFollowersHeartbeat L C (\<lambda>sent. fst ?d) m s = Some s'" "w' = (snd ?d)(a \<mapsto> s')"
    using r s by (auto simp: heartbeat_round_def case_prod_unfold Let_def bind_eq_Some_conv)
  have rec: "receive_loop L m (fst ?d) t = Some s'"
    using s'(1) loop by (simp add: SendFollowersHeartbeat_def Let_def deliver_length)
  let ?waiting = "(all_idle (snd ?d))(a \<mapsto> Sending t [] ([] @ fst ?d))"
  have 1: "heartbeat_step L C m (all_idle w) ((all_idle w)(a \<mapsto> Sending t ?msgs []))"
    using heartbeat_step.begun [of "all_idle w" a s L C m] s t by (simp add: all_idle_def)
  have 2: "(heartbeat_step L C m)\<^sup>*\<^sup>* ((all_idle w)(a \<mapsto> Sending t ?msgs [])) ?waiting" using self by (rule served_all)
  have "all_idle w' = ?waiting(a \<mapsto> Idle s')" by (auto simp: all_idle_def s'(2))
  then have 3: "heartbeat_step L C m ?waiting (all_idle w')"
    using heartbeat_step.ended [of ?waiting a t "[] @ fst ?d" L m s' C] rec by simp
  from 1 2 have "(heartbeat_step L C m)\<^sup>*\<^sup>* (all_idle w) ?waiting" by (rule converse_rtranclp_into_rtranclp)
  also have "(heartbeat_step L C m)\<^sup>*\<^sup>* ?waiting (all_idle w')" using 3 by (rule r_into_rtranclp [of "heartbeat_step L C m"])
  finally (rtranclp_trans) show ?thesis .
qed

section \<open>Two heartbeats\<close>

text \<open>Server \<open>a\<close> holds its lock and waits for server \<open>b\<close>.\<close>

definition waits_for :: "'db nodes \<Rightarrow> string \<Rightarrow> string \<Rightarrow> bool" where
  "waits_for w a b \<longleftrightarrow> (\<exists>s pending answers. w a = Some (Sending s pending answers) \<and> b \<in> fst ` set pending)"

lemma deadlock_step:
  assumes "heartbeat_step L C m w w'" "waits_for w a b" "waits_for w b a"
  shows "waits_for w' a b \<and> waits_for w' b a"
  using assms
proof (cases rule: heartbeat_step.cases)
  case (served c s xs d req ys answers t)
  have d: "d \<noteq> a" "d \<noteq> b" using served(3) assms(2,3) by (auto simp: waits_for_def)
  then show ?thesis using served(1,2) assms(2,3) by (auto simp: waits_for_def)
next
  case (begun c s)
  then show ?thesis using assms(2,3) by (auto simp: waits_for_def)
next
  case (ended c s answers s')
  then show ?thesis using assms(2,3) by (auto simp: waits_for_def)
qed

lemma deadlock: "(heartbeat_step L C m)\<^sup>*\<^sup>* w w' \<Longrightarrow> waits_for w a b \<Longrightarrow> waits_for w b a \<Longrightarrow> waits_for w' a b \<and> waits_for w' b a"
  by (induction rule: rtranclp_induct) (auto dest: deadlock_step)

lemma begin_known:
  assumes "libraries L" "m < length (srvRTGroups s)" "hosts_known L addr s (rtGroupPeers (rt s m))"
  shows "\<exists>t msgs. begin_heartbeat L C m s = Sending t msgs [] \<and> fst ` set msgs = addr ` (peer_ids (rt s m) - {srvId s})"
proof -
  let ?s = "RefreshTimer C m 1 s"
  note f = libraries.refreshed_sel [OF assms(1,2)]
  have "hosts_known L addr ?s (rtGroupPeers (rt s m))" using assms(3) by (simp add: hosts_known_def f)
  from send_loop_all [OF this, of m "[]"] obtain t where "send_loop L m (rtGroupPeers (rt s m)) [] ?s =
      (map (\<lambda>(pid, peer). (addr pid, request_for L m ?s peer)) (filter (\<lambda>(pid, peer). pid \<noteq> srvId s) (rtGroupPeers (rt s m))), True, t)"
    by (auto simp: f)
  then show ?thesis by (force simp: begin_heartbeat_def Let_def f peer_ids_def)
qed


definition ex_deposed :: "memdb BFTRaftServer" where
  "ex_deposed = (ex_server 2 [ex_rt 2 LEADER] ex_db1)\<lparr>srvHosts := [
     cacheKey 1 \<mapsto> \<lparr>hostId = 1, hostLastSeen = 0, hostOnline = True, hostServerAddr = ''h:1'', hostPublicKey = []\<rparr>,
     cacheKey 3 \<mapsto> \<lparr>hostId = 3, hostLastSeen = 0, hostOnline = True, hostServerAddr = ''h:3'', hostPublicKey = []\<rparr>]\<rparr>"


section \<open>Progress\<close>

definition unserved :: "'db nodes \<Rightarrow> string \<Rightarrow> nat" where
  "unserved w a = (case w a of Some (Sending s pending answers) \<Rightarrow> length pending | _ \<Rightarrow> 0)"

text \<open>A call to a server that holds no lock, or is down, can be served.\<close>

lemma serve_call:
  assumes "w a = Some (Sending s (xs @ (b, req) # ys) answers)" "w b = map_option Idle t"
  shows "\<exists>w'. heartbeat_step L C m w w' \<and> unserved w' a < unserved w a"
  using heartbeat_step.served [OF assms, of L C m] assms(1) by (intro exI conjI) (auto simp: unserved_def)

lemma finite_waits:
  assumes "finite (dom w)"
  shows "finite {(a, b). waits_for w a b}"
proof (rule finite_subset)
  let ?calls = "\<lambda>a. case w a of Some (Sending s pending answers) \<Rightarrow> fst ` set pending | _ \<Rightarrow> {}"
  show "{(a, b). waits_for w a b} \<subseteq> Sigma (dom w) ?calls" by (force simp: waits_for_def)
  show "finite (Sigma (dom w) ?calls)" using assms by (intro finite_SigmaI) (auto split: option.split node.split)
qed



end
