(* ===== verification/Feedback.thy ===== *)
theory Feedback
  imports Replication
begin

text \<open>
  What a follower sends to clients: for every entry of an accepted \<^verbatim>\<open>AppendEntries\<close> whose client is a known host, the result of the command.
  The entries here run functions of the application; what these return does not depend on the server.
\<close>

section \<open>Steps that leave the service alone\<close>

text \<open>The identity, the key, the functions, the groups and the hosts that can be found stay; messages are only added.\<close>

definition serves :: "'db lib \<Rightarrow> nat \<Rightarrow> 'db BFTRaftServer \<Rightarrow> 'db BFTRaftServer \<Rightarrow> bool" where
  "serves L m s s' \<longleftrightarrow> srvId s' = srvId s \<and> srvPrivateKey s' = srvPrivateKey s \<and> srvFuncReg s' = srvFuncReg s \<and> gid s' m = gid s m \<and>
     (\<forall>n. fst (GetHostNTXN L s' n) = fst (GetHostNTXN L s n)) \<and> set (srvOut s) \<subseteq> set (srvOut s')"

lemma serves_refl [simp, intro]: "serves L m s s"
  by (simp add: serves_def)

lemma serves_trans [trans]: "serves L m s t \<Longrightarrow> serves L m t u \<Longrightarrow> serves L m s u"
  unfolding serves_def by (metis subset_trans)

lemma serves_out: "serves L m s s' \<Longrightarrow> x \<in> set (srvOut s) \<Longrightarrow> x \<in> set (srvOut s')"
  unfolding serves_def by blast

lemma caches_serves: "caches_only s s' \<Longrightarrow> (\<And>n. fst (GetHostNTXN L s' n) = fst (GetHostNTXN L s n)) \<Longrightarrow> serves L m s s'"
  by (simp add: serves_def caches_only_sel)

lemma GetHostNTXN_serves: "GetHostNTXN L s n = (h, s') \<Longrightarrow> serves L m s s'"
  using GetHost_stable [of L s n h s'] by (intro caches_serves GetHostNTXN_caches) (simp_all add: GetHostNTXN_def)

lemma GetHostPublicKey_serves: "GetHostPublicKey L s n = Some (k, s') \<Longrightarrow> serves L m s s'"
  by (intro caches_serves GetHostPublicKey_caches GetHostPublicKey_hosts(1))

lemma VerifyCommandSign_serves:
  assumes "VerifyCommandSign L s c = Some (b, s')"
  shows "serves L m s s'"
proof -
  obtain k s1 where "GetHostPublicKey L s (cmdClientId c) = Some (k, s1)" "s1 = s'"
    using assms by (auto simp: VerifyCommandSign_def bind_eq_Some_conv split: option.splits)
  then show ?thesis using GetHostPublicKey_serves by blast
qed

lemma verify_loop_serves: "verify_loop L es n i h s = Some (b, s') \<Longrightarrow> serves L m s s'"
proof (induction L es n i h s rule: verify_loop.induct)
  case (1 L es n i h s)
  show ?case
  proof (cases "i < n + of_nat (length es) \<and> s' \<noteq> s")
    case True
    obtain c v s1 where c: "leCommand (es ! unat (i - n)) = Some c" "VerifyCommandSign L s c = Some (v, s1)"
      "\<not> (leIndex (es ! unat (i - n)) \<noteq> i \<or> leHash (es ! unat (i - n)) \<noteq> LogHash h i (cmdFuncId c) (cmdArg c))"
      "verify_loop L es n (i + 1) (LogHash h i (cmdFuncId c) (cmdArg c)) s1 = Some (b, s')"
      using "1.prems" True by (subst (asm) verify_loop.simps) (auto simp: Let_def split: option.splits if_splits prod.splits)
    have "serves L m s1 s'" using True c by (intro "1.IH" [OF _ refl c(1) refl c(3) c(2)]) auto
    with VerifyCommandSign_serves [OF c(2)] show ?thesis by (rule serves_trans)
  next
    case False
    then show ?thesis using "1.prems" by (subst (asm) verify_loop.simps) auto
  qed
qed

section \<open>Results\<close>

text \<open>The message that carries the result of an application's function for an entry to its client.\<close>

definition result_message :: "'db lib \<Rightarrow> 'db BFTRaftServer \<Rightarrow> u64 \<Rightarrow> Host \<Rightarrow> CommandRequest \<Rightarrow> bytes \<Rightarrow> out_msg" where
  "result_message L s g client c result = OutCommandResult (hostServerAddr client)
     \<lparr>resGroup = g, resNodeId = srvId s, resRequestId = cmdRequestId c,
      resSignature = serverSign L s (CommandSignData g (srvId s) (cmdRequestId c) result), resResult = result\<rparr>"

definition runs_application :: "(u64 \<rightharpoonup> raft_func) \<Rightarrow> LogEntry \<Rightarrow> bool" where
  "runs_application reg e \<longleftrightarrow> (\<exists>c n. leCommand e = Some c \<and> reg (cmdFuncId c) = Some (FnUser n))"

lemma result_message_serves: "serves L m s s' \<Longrightarrow> result_message L s' g client c result = result_message L s g client c result"
  by (simp add: serves_def result_message_def serverSign_def)

lemma respond_client_serves:
  "serves L m s (respond_client L m e c result client s)"
  "dialOK L (hostServerAddr client) \<Longrightarrow> result_message L s (gid s m) client c result \<in> set (srvOut (respond_client L m e c result client s))"
proof -
  have "fst (GetHostNTXN L (s\<lparr>srvOut := out\<rparr>) n) = fst (GetHostNTXN L s n)" for out n
    by (auto simp: GetHostNTXN_def GetHost_def Let_def split: option.split sum.split)
  then show "serves L m s (respond_client L m e c result client s)" by (auto simp: serves_def respond_client_def gid_def rt_def)
qed (simp add: respond_client_def result_message_def ClientRPCs_Get_def)

context libraries
begin

text \<open>Appending an entry touches neither the hosts nor the keys.\<close>

lemma append_local_hosts:
  assumes "append_local L m e s = Some s'"
  shows "keys_ok L s' = keys_ok L s" "fst (GetHostNTXN L s' n) = fst (GetHostNTXN L s n)"
proof -
  obtain ar where ar: "AppendEntryToLocal L (gid s m) (srvDB s) e = Some ar"
    "s' = snd (updateDB L s (\<lambda>txn. case ar of Inr txn' \<Rightarrow> (Inr txn' :: unit + _) | Inl err \<Rightarrow> Inr txn))"
    using assms by (auto simp: append_local_def bind_eq_Some_conv)
  obtain u where u: "updateDB L s (\<lambda>txn. case ar of Inr txn' \<Rightarrow> (Inr txn' :: unit + _) | Inl err \<Rightarrow> Inr txn) = (u, s')"
    using ar(2) by (metis prod.collapse)
  have hosts: "kv L (srvDB s') (HostKey n) = kv L (srvDB s) (HostKey n)" for n
    using u
  proof (cases rule: updateDB_cases)
    case (committed db)
    show ?thesis
    proof (cases ar)
      case (Inr db')
      with ar(1) have "AppendEntryToLocal L (gid s m) (srvDB s) e = Some (Inr db')" by simp
      moreover have "db = db'" using committed(1) Inr by simp
      ultimately show ?thesis unfolding committed(4) by (cases rule: AppendEntryToLocal_cases) simp_all
    qed (use committed in auto)
  qed simp
  have same: "srvNodePublicKeys s' = srvNodePublicKeys s" "srvHosts s' = srvHosts s"
    by (subst append_local_only_DB [OF assms], simp)+
  show "keys_ok L s' = keys_ok L s" using keys_ok_same same hosts by blast
  show "fst (GetHostNTXN L s' n) = fst (GetHostNTXN L s n)"
    using same hosts by (auto simp: GetHostNTXN_def GetHost_def get Let_def split: option.splits)
qed

lemma append_local_serves:
  assumes "append_local L m e s = Some s'"
  shows "serves L m s s'"
proof -
  obtain db where "s' = s\<lparr>srvDB := db\<rparr>" using append_local_only_DB [OF assms] by blast
  then show ?thesis using append_local_hosts(2) [OF assms] by (simp add: serves_def gid_def rt_def)
qed

text \<open>One entry.\<close>

lemma apply_entry:
  assumes "apply_entries L now m (e # es) resp s = Some (r, s')" "leCommand e = Some c" "srvFuncReg s (cmdFuncId c) = Some (FnUser n)"
  obtains resp' s1 where "serves L m s s1" "apply_entries L now m es resp' s1 = Some (r, s')"
    "\<And>client. fst (GetHostNTXN L s (cmdClientId c)) = Some client \<Longrightarrow> dialOK L (hostServerAddr client) \<Longrightarrow>
       result_message L s (gid s m) client c (userFunc L n (cmdArg c) e) \<in> set (srvOut s1)"
proof -
  obtain s1 res s2 where 1: "append_local L m e s = Some s1" "CommitGroupLog L now e s1 = Some (res, s2)"
    using assms(1,2) by (auto simp: bind_eq_Some_conv WaitLogApproved_def)
  note f1 = append_local_serves [OF 1(1)]
  have 2: "res = userFunc L n (cmdArg c) e" "s2 = s1"
    using 1(2) assms(2,3) f1 by (auto simp: CommitGroupLog_def runRaftFunc_def serves_def)
  obtain h s3 where h: "GetHostNTXN L s1 (cmdClientId c) = (h, s3)" by fastforce
  have f3: "serves L m s s3" using f1 GetHostNTXN_serves [OF h] by (rule serves_trans)
  have hosts: "fst (GetHostNTXN L s (cmdClientId c)) = h" using f1 h unfolding serves_def by (metis fst_conv)
  show ?thesis
  proof (cases h)
    case None
    with assms(1,2) 1 2 h have "apply_entries L now m es resp s3 = Some (r, s')" by (simp add: bind_eq_Some_conv WaitLogApproved_def)
    with that [OF f3] hosts None show ?thesis by simp
  next
    case (Some client)
    let ?s = "respond_client L m e c res client s3"
    have "serves L m s ?s" using f3 respond_client_serves(1) by (rule serves_trans)
    moreover obtain resp' where "apply_entries L now m es resp' ?s = Some (r, s')"
      using assms(1,2) 1 2 h Some by (auto simp: bind_eq_Some_conv WaitLogApproved_def Let_def)
    moreover have "gid s3 m = gid s m" using f3 by (simp add: serves_def)
    ultimately show ?thesis
      using that respond_client_serves(2) [of L client s3 m c res e] hosts Some result_message_serves [OF f3] 2(1) by auto
  qed
qed

lemma apply_entries_results:
  assumes "apply_entries L now m es resp s = Some (r, s')" "\<forall>e \<in> set es. runs_application (srvFuncReg s) e"
  shows "serves L m s s'" and "e \<in> set es \<Longrightarrow> leCommand e = Some c \<Longrightarrow> srvFuncReg s (cmdFuncId c) = Some (FnUser n) \<Longrightarrow>
     fst (GetHostNTXN L s (cmdClientId c)) = Some client \<Longrightarrow> dialOK L (hostServerAddr client) \<Longrightarrow>
     result_message L s (gid s m) client c (userFunc L n (cmdArg c) e) \<in> set (srvOut s')"
proof -
  have "serves L m s s' \<and> (e \<in> set es \<longrightarrow> leCommand e = Some c \<longrightarrow> srvFuncReg s (cmdFuncId c) = Some (FnUser n) \<longrightarrow>
     fst (GetHostNTXN L s (cmdClientId c)) = Some client \<longrightarrow> dialOK L (hostServerAddr client) \<longrightarrow>
     result_message L s (gid s m) client c (userFunc L n (cmdArg c) e) \<in> set (srvOut s'))"
    using assms
  proof (induction es arbitrary: resp s)
    case (Cons e1 es)
    obtain c1 n1 where c1: "leCommand e1 = Some c1" "srvFuncReg s (cmdFuncId c1) = Some (FnUser n1)"
      using Cons.prems(2) by (auto simp: runs_application_def)
    obtain resp1 s1 where s1: "serves L m s s1" "apply_entries L now m es resp1 s1 = Some (r, s')"
      "\<And>client. fst (GetHostNTXN L s (cmdClientId c1)) = Some client \<Longrightarrow> dialOK L (hostServerAddr client) \<Longrightarrow>
         result_message L s (gid s m) client c1 (userFunc L n1 (cmdArg c1) e1) \<in> set (srvOut s1)"
      using apply_entry [OF Cons.prems(1) c1] by metis
    have same: "srvFuncReg s1 = srvFuncReg s" "gid s1 m = gid s m" "\<And>n. fst (GetHostNTXN L s1 n) = fst (GetHostNTXN L s n)"
      using s1(1) by (simp_all add: serves_def)
    note IH = Cons.IH [OF s1(2), unfolded same result_message_serves [OF s1(1)]]
    then have rest: "serves L m s1 s'" using Cons.prems(2) by simp
    show ?case
    proof (intro conjI impI)
      show "serves L m s s'" using s1(1) rest by (rule serves_trans)
    next
      assume e: "e \<in> set (e1 # es)" "leCommand e = Some c" "srvFuncReg s (cmdFuncId c) = Some (FnUser n)"
        "fst (GetHostNTXN L s (cmdClientId c)) = Some client" "dialOK L (hostServerAddr client)"
      show "result_message L s (gid s m) client c (userFunc L n (cmdArg c) e) \<in> set (srvOut s')"
        using e IH Cons.prems(2) c1 s1(3) serves_out [OF rest] by (cases "e = e1") auto
    qed
  qed simp
  then show "serves L m s s'" "e \<in> set es \<Longrightarrow> leCommand e = Some c \<Longrightarrow> srvFuncReg s (cmdFuncId c) = Some (FnUser n) \<Longrightarrow>
     fst (GetHostNTXN L s (cmdClientId c)) = Some client \<Longrightarrow> dialOK L (hostServerAddr client) \<Longrightarrow>
     result_message L s (gid s m) client c (userFunc L n (cmdArg c) e) \<in> set (srvOut s')" by blast+
qed

section \<open>The answer of a follower\<close>

lemma append_new_applied:
  assumes "append_new L now m req response s = Some (Inr r, s')" "arSuccessed r" "\<not> arSuccessed response"
  obtains s1 resp' where "serves L m s s1" "apply_entries L now m (aeEntries req) response s1 = Some (resp', s')"
proof -
  let ?next = "LastEntryIndex L (srvDB s) (gid s m) + 1"
  obtain s1 where v: "verify_loop L (aeEntries req) ?next ?next (LastEntryHash L (srvDB s) (gid s m)) s = Some (True, s1)"
    and a: "\<exists>resp'. apply_entries L now m (aeEntries req) response s1 = Some (resp', s')"
    using assms by (auto simp: append_new_def Let_def bind_eq_Some_conv split: if_splits)
  with that verify_loop_serves [OF v] show ?thesis by blast
qed

lemma AppendEntries_applied:
  assumes "AppendEntries L C s m req = Some (Inr r, s')" "arSuccessed r" "aeLeaderId req = rtLeader (rt s m)" "m < length (srvRTGroups s)"
  obtains s1 resp resp' where "serves L m s s1" "apply_entries L (clkNow C) m (aeEntries req) resp s1 = Some (resp', s')"
proof -
  have c: "check_leader L C s m req = Some (None, s) \<or> (\<exists>err. check_leader L C s m req = Some (Some err, s))"
    using assms(3) by (simp add: check_leader_def)
  have "\<exists>k s1 resp. GetHostPublicKey L s (rtLeader (rt s m)) = Some (Some k, s1) \<and>
      append_new L (clkNow C) m req resp (set_rt m ((rt s1 m)\<lparr>rtTimeout := clkNow C + 10000\<rparr>) s1) = Some (Inr r, s') \<and> \<not> arSuccessed resp"
    using assms(1,2) c by (auto simp: AppendEntries_def Let_def bind_eq_Some_conv split: if_splits) (metis AppendEntriesResponse.select_convs(5))
  then obtain k s1 resp where k: "GetHostPublicKey L s (rtLeader (rt s m)) = Some (Some k, s1)" and resp: "\<not> arSuccessed resp"
    and a: "append_new L (clkNow C) m req resp (set_rt m ((rt s1 m)\<lparr>rtTimeout := clkNow C + 10000\<rparr>) s1) = Some (Inr r, s')" by blast
  let ?s2 = "set_rt m ((rt s1 m)\<lparr>rtTimeout := clkNow C + 10000\<rparr>) s1"
  have "fst (GetHostNTXN L ?s2 n) = fst (GetHostNTXN L s1 n)" for n
    by (auto simp: GetHostNTXN_def GetHost_def Let_def split: option.split sum.split)
  then have "serves L m s1 ?s2"
    using assms(4) caches_only_sel [OF GetHostPublicKey_caches [OF k]] by (simp add: serves_def gid_def)
  with GetHostPublicKey_serves [OF k] have 2: "serves L m s ?s2" by (rule serves_trans)
  obtain s3 resp' where "serves L m ?s2 s3" "apply_entries L (clkNow C) m (aeEntries req) resp s3 = Some (resp', s')"
    using append_new_applied [OF a assms(2) resp] by blast
  with that serves_trans [OF 2] show ?thesis by blast
qed

text \<open>A follower that accepts the leader sends the results of the entries it was missing.\<close>

lemma answer_responds:
  assumes io: "no_io_errors L" and lead: "leader_ready L g m sl"
    and foll: "follower_ready L g (srvId sl) (group_log L (srvDB sl) g) peer sf"
    and rest: "group_log L (srvDB sl) g = group_log L (srvDB sf) g @ rest" "\<forall>e \<in> set rest. runs_application (srvFuncReg sf) e"
    and e: "e \<in> set rest" "leCommand e = Some c" "srvFuncReg sf (cmdFuncId c) = Some (FnUser n)"
      "fst (GetHostNTXN L sf (cmdClientId c)) = Some client" "dialOK L (hostServerAddr client)"
  shows "\<exists>sf'. snd (answer L C (request_for L m sl peer) (Some sf)) = Some sf' \<and>
     result_message L sf g client c (userFunc L n (cmdArg c) e) \<in> set (srvOut sf')"
proof -
  obtain mf where mf: "GetOnboardGroup sf g = Some mf" "mf < length (srvRTGroups sf)" "gid sf mf = g"
      "rtLeader (rt sf mf) = srvId sl" "map_of (rtGroupPeers (rt sf mf)) (srvId sl) \<noteq> None"
    and ok: "log_ok L (srvDB sf) g" "keys_ok L sf" "pubkey L sf (srvId sl) \<noteq> None" "peer_tracks L (srvDB sf) g peer"
    and cs: "\<And>e. e \<in> set rest \<Longrightarrow> committable (srvFuncReg sf) g e"
    using foll rest(1) unfolding follower_ready_def by auto
  have l: "gid sl m = g" "log_ok L (srvDB sl) g" "chained (genesisHash g) (group_log L (srvDB sl) g)"
    "contiguous 1 (group_log L (srvDB sl) g)" "length (group_log L (srvDB sl) g) + 1 < 2 ^ 64"
    using lead by (simp_all add: leader_ready_def)
  obtain es prev where pu: "PeerUncommittedLogEntries L (srvDB sl) g peer = (es, prev)" by fastforce
  have req: "request_for L m sl peer = heartbeat_request L m es prev sl" by (simp add: request_for_def l(1) pu)
  let ?f = "group_log L (srvDB sf) g"
  have "LastEntryIndex L (srvDB sf) g = of_nat (length ?f)" "length ?f + 1 < 2 ^ 64"
    using contiguous_last [of 1 ?f] l(4,5) rest(1) by (auto simp: LastEntryIndex_log [OF ok(1)] contiguous_append)
  then have es: "es = rest" using uncommitted_is_suffix [OF l(2) ok(1) rest(1) ok(4)] pu by (simp add: unat_of_nat)
  have group: "aeGroup (heartbeat_request L m es prev sl) = g" "aeLeaderId (heartbeat_request L m es prev sl) = srvId sl"
    "aeEntries (heartbeat_request L m es prev sl) = rest"
    using l(1) by (simp_all add: heartbeat_request_def Let_def gid_def es)
  obtain r sf' where a: "AppendEntries L C sf mf (heartbeat_request L m es prev sl) = Some (Inr r, sf')" "arSuccessed r"
    using heartbeat_replicates [OF io l(2) ok(1) l(1,3-5) mf(2,3) ok(2) mf(5,4) ok(3) rest(1) _ cs ok(4) pu refl] e(1) by fastforce
  obtain s1 resp resp' where s1: "serves L mf sf s1" "apply_entries L (clkNow C) mf rest resp s1 = Some (resp', sf')"
    using AppendEntries_applied [OF a _ mf(2)] group(2,3) mf(4) by metis
  have same: "srvFuncReg s1 = srvFuncReg sf" "gid s1 mf = g" "\<And>n. fst (GetHostNTXN L s1 n) = fst (GetHostNTXN L sf n)"
    using s1(1) mf(3) by (simp_all add: serves_def)
  have "result_message L sf g client c (userFunc L n (cmdArg c) e) \<in> set (srvOut sf')"
    using apply_entries_results(2) [OF s1(2), unfolded same result_message_serves [OF s1(1)]] rest(2) e by blast
  then show ?thesis using a(1) mf(1) by (simp add: answer_def rpc_AppendEntries_def req group(1))
qed

end

end
