(* ===== verification/Commands.thy ===== *)
theory Commands
  imports Feedback
begin

text \<open>
  A command in a group of servers that answer each other: \<^verbatim>\<open>ExecCommand\<close> at the leader appends the entry, its heartbeat reaches the
  followers, which append and commit it and send the result to the client, and the leader commits it and answers.
\<close>

section \<open>A command at the leader\<close>

text \<open>The messages of the heartbeat that a command makes its leader send.\<close>

definition command_messages :: "'db lib \<Rightarrow> clock \<Rightarrow> nat \<Rightarrow> CommandRequest \<Rightarrow> 'db BFTRaftServer \<Rightarrow> (string \<times> AppendEntriesRequest) list" where
  "command_messages L C m cmd s = (case exec_authorise L cmd s of
     Some (True, s) \<Rightarrow> (case exec_append L m cmd s of Some (None, s) \<Rightarrow> heartbeat_messages L C m s | _ \<Rightarrow> [])
   | _ \<Rightarrow> [])"

text \<open>The server at \<open>addr\<close> executes a command, as leader of its group; \<open>ord\<close> is the order in which the messages of the heartbeat arrive.\<close>

definition command_round ::
  "'db lib \<Rightarrow> clock \<Rightarrow> (string \<times> AppendEntriesRequest) map_order \<Rightarrow> string \<Rightarrow> CommandRequest \<Rightarrow> 'db world \<Rightarrow>
   (CommandResponse option \<times> 'db world) option" where
  "command_round L C ord addr cmd w = do {
     s \<leftarrow> w addr;
     m \<leftarrow> GetOnboardGroup s (cmdGroup cmd);
     let (answers, w) = deliver L C (ord (command_messages L C m cmd s)) w in do {
       (r, s) \<leftarrow> ExecCommand L C (\<lambda>sent. answers) (\<lambda>addr cmd. None) (\<lambda>peers. peers) s cmd;
       Some (r, w(addr \<mapsto> s))
     }
   }"

text \<open>
  A follower that is ready for the new log \<open>es\<close>, lacks the last entry, runs functions of the application only, and knows the client.
\<close>

definition follower_serves ::
  "'db lib \<Rightarrow> CommandRequest \<Rightarrow> nat \<Rightarrow> u64 \<Rightarrow> LogEntry list \<Rightarrow> Peer \<Rightarrow> Host \<Rightarrow> 'db BFTRaftServer \<Rightarrow> bool" where
  "follower_serves L cmd n l es peer client s \<longleftrightarrow> follower_ready L (cmdGroup cmd) l es peer s \<and>
     (\<exists>rest. es = group_log L (srvDB s) (cmdGroup cmd) @ rest \<and> rest \<noteq> [] \<and> (\<forall>e \<in> set rest. runs_application (srvFuncReg s) e)) \<and>
     srvFuncReg s (cmdFuncId cmd) = Some (FnUser n) \<and> fst (GetHostNTXN L s (cmdClientId cmd)) = Some client \<and> dialOK L (hostServerAddr client)"

text \<open>Messages that go elsewhere leave the server at an address as it is.\<close>

lemma deliver_elsewhere:
  assumes "a \<notin> fst ` set msgs"
  shows "deliver L C msgs (w(a := x)) = (fst (deliver L C msgs w), (snd (deliver L C msgs w))(a := x))"
  using assms
proof (induction msgs arbitrary: w)
  case (Cons msg msgs)
  obtain b req where msg: "msg = (b, req)" by fastforce
  have b: "a \<noteq> b" "a \<notin> fst ` set msgs" using Cons.prems msg by auto
  let ?w = "w(b := snd (answer L C req (w b)))"
  have "(w(a := x)) b = w b" "(w(a := x))(b := snd (answer L C req (w b))) = ?w(a := x)" using b(1) by (simp_all add: fun_upd_twist)
  then show ?case using Cons.IH [OF b(2), of ?w] by (simp only: msg deliver_Cons prod.sel)
qed simp

text \<open>A round of a leader that sends nothing to itself.\<close>

lemma heartbeat_round_at:
  assumes "heartbeat_round L C ord m a (w(a \<mapsto> s)) = Some w'" "a \<notin> fst ` set (ord (heartbeat_messages L C m s))"
  obtains s' where "SendFollowersHeartbeat L C (\<lambda>sent. fst (deliver L C (ord (heartbeat_messages L C m s)) w)) m s = Some s'"
    "w' = (snd (deliver L C (ord (heartbeat_messages L C m s)) w))(a \<mapsto> s')"
  using assms(1) that by (auto simp: heartbeat_round_def deliver_elsewhere [OF assms(2)] bind_eq_Some_conv)

context libraries
begin

text \<open>A leader stays one whose log is intact when it appends its entry.\<close>

lemma leader_ready_append:
  assumes lead: "leader_ready L g m s" and e: "log_extends L g (srvDB s) db [new_entry L m cmd s]"
    and small: "length (group_log L (srvDB s) g) + 2 < 2 ^ 64" and s1: "srvDB s1 = db" "gid s1 m = g"
  shows "leader_ready L g m s1"
proof -
  let ?l = "group_log L (srvDB s) g" and ?e = "new_entry L m cmd s"
  have l: "gid s m = g" "log_ok L (srvDB s) g" "chained (genesisHash g) ?l" "contiguous 1 ?l" using lead by (simp_all add: leader_ready_def)
  have "LastEntryIndex L (srvDB s) g = of_nat (length ?l)"
    using contiguous_last [OF l(4)] by (auto simp: LastEntryIndex_log [OF l(2)])
  then have "contiguous 1 (?l @ [?e])" using l(1,4) by (simp add: contiguous_append new_entry_def Let_def)
  moreover have "chained (genesisHash g) (?l @ [?e])"
    using l(1,3) by (simp add: chained_append new_entry_def Let_def LastEntryHash_log [OF l(2)])
  ultimately show ?thesis using log_extendsD [OF e] s1 small by (simp add: leader_ready_def)
qed

text \<open>The state in which the leader sends the heartbeat: the entry is appended, and nothing else that matters has changed.\<close>

lemma command_appended:
  assumes io: "no_io_errors L" and m: "m < length (srvRTGroups s)"
    and lead: "leader_ready L (cmdGroup cmd) m s" "length (group_log L (srvDB s) (cmdGroup cmd)) + 2 < 2 ^ 64" "keys_ok L s"
    and cmd: "registers_host L s cmd \<or> command_signed L s cmd"
  obtains s1 db where "exec_authorise L cmd s = Some (True, s1)" "caches_only s s1" "exec_append L m cmd s1 = Some (None, s1\<lparr>srvDB := db\<rparr>)"
    "log_extends L (cmdGroup cmd) (srvDB s) db [new_entry L m cmd s]" "keys_ok L (s1\<lparr>srvDB := db\<rparr>)"
    "leader_ready L (cmdGroup cmd) m (s1\<lparr>srvDB := db\<rparr>)" "\<And>n. fst (GetHostNTXN L (s1\<lparr>srvDB := db\<rparr>) n) = fst (GetHostNTXN L s n)"
proof -
  let ?g = "cmdGroup cmd"
  have l: "gid s m = ?g" "log_ok L (srvDB s) ?g" "contiguous 1 (group_log L (srvDB s) ?g)" using lead(1) by (simp_all add: leader_ready_def)
  have small: "unat (LastEntryIndex L (srvDB s) ?g) + 1 < 2 ^ 64"
    using contiguous_last [OF l(3)] lead(2) by (auto simp: LastEntryIndex_log [OF l(2)] unat_of_nat)
  obtain s1 where auth: "exec_authorise L cmd s = Some (True, s1)" and c1: "caches_only s s1" and keys1: "keys_ok L s1"
    and hosts1: "\<And>n. fst (GetHostNTXN L s1 n) = fst (GetHostNTXN L s n)"
    using cmd lead(3) by (rule exec_authorise_accepts) blast
  note f1 = caches_only_sel [OF c1] new_entry_caches [OF c1]
  obtain db where app: "exec_append L m cmd s1 = Some (None, s1\<lparr>srvDB := db\<rparr>)" "append_local L m (new_entry L m cmd s) s1 = Some (s1\<lparr>srvDB := db\<rparr>)"
    "log_extends L ?g (srvDB s) db [new_entry L m cmd s]"
    using exec_append_accepts [OF io, of s1 m cmd] l(1,2) small unfolding f1 by metis
  have "gid (s1\<lparr>srvDB := db\<rparr>) m = ?g" using l(1) f1 by (simp add: rt_def gid_def)
  then have "leader_ready L ?g m (s1\<lparr>srvDB := db\<rparr>)" by (intro leader_ready_append [OF lead(1) app(3) lead(2)]) simp_all
  with that [OF auth c1 app(1,3)] append_local_hosts [OF app(2)] keys1 hosts1 show ?thesis by simp
qed

lemma heartbeat_leaves_home:
  assumes "iteration_order ord" "m < length (srvRTGroups s)" "peers_wf (rt s m)" "hosts_known L addr s (rtGroupPeers (rt s m))"
    and "inj_on addr (peer_ids (rt s m))" "\<And>pid. pid \<in> peer_ids (rt s m) \<Longrightarrow> pid \<noteq> srvId s \<Longrightarrow> addr pid \<noteq> a"
  shows "a \<notin> fst ` set (ord (heartbeat_messages L C m s))"
proof -
  let ?msgs = "peer_messages L addr m (RefreshTimer C m 1 s)"
  have h: "heartbeat_messages L C m s = ?msgs" "distinct (map fst ?msgs)"
    using heartbeat_messages_known [OF assms(2-5), of C] by metis+
  have "fst ` set ?msgs = addr ` (peer_ids (rt s m) - {srvId s})"
    by (force simp: peer_messages_def peer_ids_def refreshed_sel [OF assms(2)])
  then show ?thesis using assms(6) iteration_order_perm(3) [OF assms(1) h(2)] unfolding h(1) by auto
qed

lemma command_round_replicates:
  assumes io: "no_io_errors L" and ord: "iteration_order ord" and w: "w la = Some sl"
    and m: "GetOnboardGroup sl (cmdGroup cmd) = Some m" "m < length (srvRTGroups sl)" "rtLeader (rt sl m) = srvId sl"
    and lead: "leader_ready L (cmdGroup cmd) m sl" "length (group_log L (srvDB sl) (cmdGroup cmd)) + 2 < 2 ^ 64" "keys_ok L sl" "peers_wf (rt sl m)"
    and cmd: "registers_host L sl cmd \<or> command_signed L sl cmd" "committable (srvFuncReg sl) (cmdGroup cmd) (new_entry L m cmd sl)"
    and known: "hosts_known L addr sl (rtGroupPeers (rt sl m))"
    and inj: "inj_on addr (peer_ids (rt sl m))" "\<forall>pid \<in> peer_ids (rt sl m) - {srvId sl}. addr pid \<noteq> la"
    and foll: "\<forall>(pid, peer) \<in> set (rtGroupPeers (rt sl m)). pid \<noteq> srvId sl \<longrightarrow> (\<exists>sf. w (addr pid) = Some sf \<and> srvId sf = pid \<and>
        follower_ready L (cmdGroup cmd) (srvId sl) (group_log L (srvDB sl) (cmdGroup cmd) @ [new_entry L m cmd sl]) peer sf)"
  shows "\<exists>r w' s s2. command_round L C ord la cmd w = Some (Some r, w') \<and> crLeaderId r = srvId sl \<and>
     (\<forall>pid \<in> peer_ids (rt sl m) - {srvId sl}. \<exists>sf. w' (addr pid) = Some sf \<and>
        group_log L (srvDB sf) (cmdGroup cmd) = group_log L (srvDB sl) (cmdGroup cmd) @ [new_entry L m cmd sl]) \<and>
     w' la = Some s \<and> group_log L (srvDB s) (cmdGroup cmd) = group_log L (srvDB sl) (cmdGroup cmd) @ [new_entry L m cmd sl] \<and>
     CommitGroupLog L (clkNow C) (new_entry L m cmd sl) s2 = Some (crResult r, s) \<and> srvFuncReg s2 = srvFuncReg sl"
proof -
  let ?g = "cmdGroup cmd" and ?e = "new_entry L m cmd sl"
  obtain s1 db where auth: "exec_authorise L cmd sl = Some (True, s1)" and c1: "caches_only sl s1"
    and app: "exec_append L m cmd s1 = Some (None, s1\<lparr>srvDB := db\<rparr>)" "log_extends L ?g (srvDB sl) db [?e]" "keys_ok L (s1\<lparr>srvDB := db\<rparr>)"
      "leader_ready L ?g m (s1\<lparr>srvDB := db\<rparr>)" "\<And>n. fst (GetHostNTXN L (s1\<lparr>srvDB := db\<rparr>) n) = fst (GetHostNTXN L sl n)"
    using command_appended [OF io m(2) lead(1-3) cmd(1)] by metis
  note f1 = caches_only_sel [OF c1] new_entry_caches [OF c1]
  let ?s = "s1\<lparr>srvDB := db\<rparr>"
  let ?d = "deliver L C (ord (heartbeat_messages L C m ?s)) w"
  have f: "srvId ?s = srvId sl" "rt ?s m = rt sl m" "length (srvRTGroups ?s) = length (srvRTGroups sl)" "gid sl m = ?g"
    using lead(1) f1 by (simp_all add: rt_def leader_ready_def)
  have log: "group_log L db ?g = group_log L (srvDB sl) ?g @ [?e]" using app(2) by (rule log_extendsD(2))
  have known': "hosts_known L addr ?s (rtGroupPeers (rt ?s m))" using known unfolding hosts_known_def f app(5) .
  have foll': "\<exists>sf. (w(la \<mapsto> ?s)) (addr pid) = Some sf \<and> srvId sf = pid \<and> follower_ready L ?g (srvId ?s) (group_log L (srvDB ?s) ?g) peer sf"
    if p: "(pid, peer) \<in> set (rtGroupPeers (rt ?s m))" "pid \<noteq> srvId ?s" for pid peer
  proof -
    have "addr pid \<noteq> la" using p inj(2) unfolding f peer_ids_def by force
    with p foll show ?thesis unfolding f by (auto simp: log)
  qed
  have "\<exists>w'. heartbeat_round L C ord m la (w(la \<mapsto> ?s)) = Some w' \<and>
     (\<forall>pid \<in> peer_ids (rt ?s m) - {srvId ?s}. \<exists>sf. w' (addr pid) = Some sf \<and> group_log L (srvDB sf) ?g = group_log L (srvDB ?s) ?g) \<and>
     (\<exists>s. w' la = Some s \<and> group_log L (srvDB s) ?g = group_log L (srvDB ?s) ?g)"
    by (rule heartbeat_round_replicates [OF io ord _ _ app(4,3) _ known' _ _ foll']) (use f m(2) lead(4) inj in auto)
  then obtain w' where w': "heartbeat_round L C ord m la (w(la \<mapsto> ?s)) = Some w'"
    "\<forall>pid \<in> peer_ids (rt sl m) - {srvId sl}. \<exists>sf. w' (addr pid) = Some sf \<and> group_log L (srvDB sf) ?g = group_log L (srvDB sl) ?g @ [?e]"
    unfolding f by (auto simp: log)
  have "la \<notin> fst ` set (ord (heartbeat_messages L C m ?s))"
    using f inj m(2) lead(4) by (intro heartbeat_leaves_home [OF ord _ _ known']) simp_all
  with w'(1) obtain s2 where s2: "SendFollowersHeartbeat L C (\<lambda>sent. fst ?d) m ?s = Some s2" "w' = (snd ?d)(la \<mapsto> s2)"
    by (rule heartbeat_round_at)
  obtain r s' where r: "exec_accepted L C (\<lambda>sent. fst ?d) m cmd (exec_response L cmd sl) s1 = Some (r, s')" "crLeaderId r = srvId sl"
     "CommitGroupLog L (clkNow C) ?e s2 = Some (crResult r, s')" "srvFuncReg s2 = srvFuncReg sl" "log_extends L (gid sl m) (srvDB sl) (srvDB s') [?e]"
    using exec_accepted_returns [OF app(1) _ _ s2(1), of "exec_response L cmd sl"] app(2) cmd(2) unfolding f1 f by (auto simp: f1)
  obtain r' where "ExecCommand L C (\<lambda>sent. fst ?d) (\<lambda>addr cmd. None) (\<lambda>peers. peers) sl cmd = Some (Some r', s')"
    "crLeaderId r' = crLeaderId r" "crResult r' = crResult r"
    using m(1,3) auth r(1) by (rule ExecCommand_accepted)
  moreover from this have "command_round L C ord la cmd w = Some (Some r', (snd ?d)(la \<mapsto> s'))"
    using w m(1) auth app(1) by (simp add: command_round_def command_messages_def case_prod_unfold Let_def)
  moreover have "\<exists>sf. ((snd ?d)(la \<mapsto> s')) (addr pid) = Some sf \<and> group_log L (srvDB sf) ?g = group_log L (srvDB sl) ?g @ [?e]"
    if "pid \<in> peer_ids (rt sl m) - {srvId sl}" for pid using w'(2) that inj(2) unfolding s2(2) by force
  ultimately show ?thesis using r(2-4) log_extendsD(2) [OF r(5)] unfolding f(4)
    by (intro exI [of _ r'] exI [of _ "(snd ?d)(la \<mapsto> s')"] exI [of _ s'] exI [of _ s2]) simp
qed

text \<open>What the round leaves at a follower: its answer to the request of a leader that has the new entry.\<close>

lemma command_follower:
  assumes io: "no_io_errors L" and ord: "iteration_order ord" and w: "w la = Some sl"
    and m: "GetOnboardGroup sl (cmdGroup cmd) = Some m" "m < length (srvRTGroups sl)"
    and lead: "leader_ready L (cmdGroup cmd) m sl" "length (group_log L (srvDB sl) (cmdGroup cmd)) + 2 < 2 ^ 64" "keys_ok L sl" "peers_wf (rt sl m)"
    and cmd: "registers_host L sl cmd \<or> command_signed L sl cmd"
    and known: "hosts_known L addr sl (rtGroupPeers (rt sl m))" and inj: "inj_on addr (peer_ids (rt sl m))"
    and r: "command_round L C ord la cmd w = Some (r, w')" and p: "(pid, peer) \<in> set (rtGroupPeers (rt sl m))" "pid \<noteq> srvId sl" "addr pid \<noteq> la"
  obtains s where "leader_ready L (cmdGroup cmd) m s" "srvId s = srvId sl"
    "group_log L (srvDB s) (cmdGroup cmd) = group_log L (srvDB sl) (cmdGroup cmd) @ [new_entry L m cmd sl]"
    "w' (addr pid) = snd (answer L C (request_for L m s peer) (w (addr pid)))"
proof -
  obtain s1 db where auth: "exec_authorise L cmd sl = Some (True, s1)" and c1: "caches_only sl s1"
    and app: "exec_append L m cmd s1 = Some (None, s1\<lparr>srvDB := db\<rparr>)" "log_extends L (cmdGroup cmd) (srvDB sl) db [new_entry L m cmd sl]"
      "keys_ok L (s1\<lparr>srvDB := db\<rparr>)" "leader_ready L (cmdGroup cmd) m (s1\<lparr>srvDB := db\<rparr>)"
      "\<And>n. fst (GetHostNTXN L (s1\<lparr>srvDB := db\<rparr>) n) = fst (GetHostNTXN L sl n)"
    using command_appended [OF io m(2) lead(1-3) cmd] by metis
  let ?s = "s1\<lparr>srvDB := db\<rparr>"
  let ?t = "RefreshTimer C m 1 ?s"
  let ?msgs = "peer_messages L addr m ?t"
  have f: "srvId ?s = srvId sl" "rt ?s m = rt sl m" "length (srvRTGroups ?s) = length (srvRTGroups sl)"
    using caches_only_sel [OF c1] by (simp_all add: rt_def)
  then have m': "m < length (srvRTGroups ?s)" using m(2) by simp
  note t = refreshed_sel [OF m', where t = 1 and C = C]
  have known': "hosts_known L addr ?s (rtGroupPeers (rt ?s m))" using known unfolding hosts_known_def f app(5) .
  have h: "heartbeat_messages L C m ?s = ?msgs" "distinct (map fst ?msgs)"
    using heartbeat_messages_known [OF m' _ known', of C] lead(4) inj unfolding f by metis+
  note o = iteration_order_perm [OF ord h(2)]
  obtain s' where "w' = (snd (deliver L C (ord ?msgs) w))(la \<mapsto> s')"
    using r w m(1) auth app(1) by (auto simp: command_round_def command_messages_def h(1) bind_eq_Some_conv Let_def split: prod.splits)
  then have w': "w' (addr pid) = (case map_of ?msgs (addr pid) of None \<Rightarrow> w (addr pid) | Some req \<Rightarrow> snd (answer L C req (w (addr pid))))"
    using p(3) by (simp add: deliver_distinct [OF o(1)] o(2))
  have "(addr pid, request_for L m ?t peer) \<in> set ?msgs" using p(1,2) by (force simp: peer_messages_def t f)
  with h(2) have "map_of ?msgs (addr pid) = Some (request_for L m ?t peer)" by (rule map_of_is_SomeI)
  moreover have "leader_ready L (cmdGroup cmd) m ?t" using app(4) by (simp add: leader_ready_def t)
  ultimately show ?thesis using that [of ?t] w' log_extendsD(2) [OF app(2)] f(1) by (simp add: t)
qed

lemma command_round_serves:
  assumes io: "no_io_errors L" and ord: "iteration_order ord" and w: "w la = Some sl"
    and m: "GetOnboardGroup sl (cmdGroup cmd) = Some m" "m < length (srvRTGroups sl)" "rtLeader (rt sl m) = srvId sl"
    and lead: "leader_ready L (cmdGroup cmd) m sl" "length (group_log L (srvDB sl) (cmdGroup cmd)) + 2 < 2 ^ 64" "keys_ok L sl" "peers_wf (rt sl m)"
    and cmd: "command_signed L sl cmd" "srvFuncReg sl (cmdFuncId cmd) = Some (FnUser n)"
    and known: "hosts_known L addr sl (rtGroupPeers (rt sl m))"
    and inj: "inj_on addr (peer_ids (rt sl m))" "\<And>pid. pid \<in> peer_ids (rt sl m) \<Longrightarrow> pid \<noteq> srvId sl \<Longrightarrow> addr pid \<noteq> la"
    and foll: "\<And>pid peer. (pid, peer) \<in> set (rtGroupPeers (rt sl m)) \<Longrightarrow> pid \<noteq> srvId sl \<Longrightarrow> \<exists>sf. w (addr pid) = Some sf \<and> srvId sf = pid \<and>
      follower_serves L cmd n (srvId sl) (group_log L (srvDB sl) (cmdGroup cmd) @ [new_entry L m cmd sl]) peer client sf"
  shows "\<exists>r w' s. command_round L C ord la cmd w = Some (Some r, w') \<and> crLeaderId r = srvId sl \<and>
     crResult r = userFunc L n (cmdArg cmd) (new_entry L m cmd sl) \<and>
     w' la = Some s \<and> group_log L (srvDB s) (cmdGroup cmd) = group_log L (srvDB sl) (cmdGroup cmd) @ [new_entry L m cmd sl] \<and>
     (\<forall>pid \<in> peer_ids (rt sl m) - {srvId sl}. \<exists>sf sf'. w (addr pid) = Some sf \<and> w' (addr pid) = Some sf' \<and>
        group_log L (srvDB sf') (cmdGroup cmd) = group_log L (srvDB sl) (cmdGroup cmd) @ [new_entry L m cmd sl] \<and>
        result_message L sf (cmdGroup cmd) client cmd (crResult r) \<in> set (srvOut sf'))"
proof -
  let ?g = "cmdGroup cmd" and ?e = "new_entry L m cmd sl"
  let ?log = "group_log L (srvDB sl) ?g @ [?e]"
  have gid: "gid sl m = ?g" using lead(1) by (simp add: leader_ready_def)
  have e: "leCommand ?e = Some cmd" by (simp add: new_entry_def Let_def)
  have com: "committable (srvFuncReg sl) ?g ?e" using cmd(2) e by (simp add: committable_def)
  have auth: "registers_host L sl cmd \<or> command_signed L sl cmd" using cmd(1) by simp
  have ready: "\<forall>(pid, peer) \<in> set (rtGroupPeers (rt sl m)). pid \<noteq> srvId sl \<longrightarrow>
      (\<exists>sf. w (addr pid) = Some sf \<and> srvId sf = pid \<and> follower_ready L ?g (srvId sl) ?log peer sf)"
    using foll unfolding follower_serves_def by blast
  have away: "\<forall>pid \<in> peer_ids (rt sl m) - {srvId sl}. addr pid \<noteq> la" using inj(2) by blast
  obtain r w' s s2 where round: "command_round L C ord la cmd w = Some (Some r, w')" "crLeaderId r = srvId sl"
     "\<forall>pid \<in> peer_ids (rt sl m) - {srvId sl}. \<exists>sf. w' (addr pid) = Some sf \<and> group_log L (srvDB sf) ?g = ?log"
     "w' la = Some s" "group_log L (srvDB s) ?g = ?log" "CommitGroupLog L (clkNow C) ?e s2 = Some (crResult r, s)" "srvFuncReg s2 = srvFuncReg sl"
    using command_round_replicates [OF io ord w m lead auth com known inj(1) away ready, of C] by metis
  have res: "crResult r = userFunc L n (cmdArg cmd) ?e" using round(6,7) e cmd(2) by (simp add: CommitGroupLog_def runRaftFunc_def)
  have "\<exists>sf sf'. w (addr pid) = Some sf \<and> w' (addr pid) = Some sf' \<and> group_log L (srvDB sf') ?g = ?log \<and>
      result_message L sf ?g client cmd (crResult r) \<in> set (srvOut sf')" if pid: "pid \<in> peer_ids (rt sl m) - {srvId sl}" for pid
  proof -
    obtain peer where p: "(pid, peer) \<in> set (rtGroupPeers (rt sl m))" "pid \<noteq> srvId sl" "addr pid \<noteq> la"
      using pid inj(2) by (auto simp: peer_ids_def)
    obtain t where t: "leader_ready L ?g m t" "srvId t = srvId sl" "group_log L (srvDB t) ?g = ?log"
      "w' (addr pid) = snd (answer L C (request_for L m t peer) (w (addr pid)))"
      using command_follower [OF io ord w m(1,2) lead auth known inj(1) round(1) p] by metis
    obtain sf where sf: "w (addr pid) = Some sf" "follower_serves L cmd n (srvId sl) ?log peer client sf" using foll [OF p(1,2)] by blast
    then obtain rest where rest: "?log = group_log L (srvDB sf) ?g @ rest" "rest \<noteq> []" "\<forall>e \<in> set rest. runs_application (srvFuncReg sf) e"
      and c: "srvFuncReg sf (cmdFuncId cmd) = Some (FnUser n)" "fst (GetHostNTXN L sf (cmdClientId cmd)) = Some client" "dialOK L (hostServerAddr client)"
      and foll': "follower_ready L ?g (srvId t) (group_log L (srvDB t) ?g) peer sf"
      unfolding follower_serves_def t(2,3) by blast
    have "?e \<in> set rest" using rest(1,2) by (metis last_appendR last_in_set last_snoc)
    then obtain sf' where "w' (addr pid) = Some sf'" "result_message L sf ?g client cmd (crResult r) \<in> set (srvOut sf')"
      using answer_responds [OF io t(1) foll' _ rest(3) _ e c] rest(1) unfolding t(3,4) sf(1) res by blast
    with round(3) pid sf(1) show ?thesis by force
  qed
  with round(1,2,4,5) res show ?thesis by blast
qed

end

section \<open>A command in a group\<close>

text \<open>
  C1.  A command works.  A signed command for a function of the application reaches the leader of a group whose followers accept it, have
  prefixes of its log, are tracked correctly and know the client.  In whatever order the messages of the heartbeat arrive, \<^verbatim>\<open>ExecCommand\<close> returns the
  result of the function, the logs of the leader and of all followers are the leader's with the new entry at the end, and every follower has sent the
  same result to the client.
\<close>

theorem command_reaches_all:
  assumes "libraries L" "no_io_errors L" "iteration_order ord" "w la = Some sl"
    and "GetOnboardGroup sl (cmdGroup cmd) = Some m" "m < length (srvRTGroups sl)" "rtLeader (rt sl m) = srvId sl"
    and "leader_ready L (cmdGroup cmd) m sl" "length (group_log L (srvDB sl) (cmdGroup cmd)) + 2 < 2 ^ 64" "keys_ok L sl" "peers_wf (rt sl m)"
    and "command_signed L sl cmd" "srvFuncReg sl (cmdFuncId cmd) = Some (FnUser n)"
    and "hosts_known L addr sl (rtGroupPeers (rt sl m))"
    and "inj_on addr (peer_ids (rt sl m))" "\<And>pid. pid \<in> peer_ids (rt sl m) \<Longrightarrow> pid \<noteq> srvId sl \<Longrightarrow> addr pid \<noteq> la"
    and "\<And>pid peer. (pid, peer) \<in> set (rtGroupPeers (rt sl m)) \<Longrightarrow> pid \<noteq> srvId sl \<Longrightarrow> \<exists>sf. w (addr pid) = Some sf \<and> srvId sf = pid \<and>
      follower_serves L cmd n (srvId sl) (group_log L (srvDB sl) (cmdGroup cmd) @ [new_entry L m cmd sl]) peer client sf"
  shows "\<exists>r w' s. command_round L C ord la cmd w = Some (Some r, w') \<and> crLeaderId r = srvId sl \<and>
     crResult r = userFunc L n (cmdArg cmd) (new_entry L m cmd sl) \<and>
     w' la = Some s \<and> group_log L (srvDB s) (cmdGroup cmd) = group_log L (srvDB sl) (cmdGroup cmd) @ [new_entry L m cmd sl] \<and>
     (\<forall>pid \<in> peer_ids (rt sl m) - {srvId sl}. \<exists>sf sf'. w (addr pid) = Some sf \<and> w' (addr pid) = Some sf' \<and>
        group_log L (srvDB sf') (cmdGroup cmd) = group_log L (srvDB sl) (cmdGroup cmd) @ [new_entry L m cmd sl] \<and>
        result_message L sf (cmdGroup cmd) client cmd (crResult r) \<in> set (srvOut sf'))"
  by (rule libraries.command_round_serves [OF assms])

text \<open>The example group, whose followers know the client 9 and lack the leader's last entry.\<close>

definition ex_client_host :: Host where
  "ex_client_host = \<lparr>hostId = 9, hostLastSeen = 0, hostOnline = True, hostServerAddr = ''c:9'', hostPublicKey = []\<rparr>"

definition ex_member :: "u64 \<Rightarrow> memdb BFTRaftServer" where
  "ex_member i = (ex_server i [ex_rt 1 FOLLOWER] ex_db1)\<lparr>srvHosts := [cacheKey 9 \<mapsto> ex_client_host]\<rparr>"

definition ex_members :: "memdb world" where
  "ex_members = [''h:1'' \<mapsto> ex_sender, ''h:2'' \<mapsto> ex_member 2, ''h:3'' \<mapsto> ex_member 3]"

lemma ex_member_serves:
  assumes "i = 2 \<or> i = 3"
  shows "follower_serves mem_lib ex_signed 0 1 ([ex_e1, ex_e2] @ [new_entry mem_lib 0 ex_signed ex_sender]) (ex_peer i) ex_client_host (ex_member i)"
proof -
  let ?e = "new_entry mem_lib 0 ex_signed ex_sender"
  have m: "srvDB (ex_member i) = ex_db1" "srvFuncReg (ex_member i) = [10 \<mapsto> FnUser 0]" "rt (ex_member i) 0 = ex_rt 1 FOLLOWER"
    "gid (ex_member i) 0 = 7" "length (srvRTGroups (ex_member i)) = 1" "GetOnboardGroup (ex_member i) 7 = Some 0"
    "keys_ok mem_lib (ex_member i)" "pubkey mem_lib (ex_member i) n = Some ex_pk" "fst (GetHostNTXN mem_lib (ex_member i) 9) = Some ex_client_host" for n
    by (simp_all add: ex_member_def ex_server_def rt_def gid_def GetOnboardGroup_def keys_ok_def GetHostPublicKey_def pubkey_def GetHostNTXN_def GetHost_def)
  have e: "leCommand ?e = Some ex_signed" "cmdGroup ex_signed = 7" "cmdFuncId ex_signed = 10" "cmdClientId ex_signed = 9"
    by (simp_all add: new_entry_def Let_def ex_signed_def ex_cmd_def)
  have app: "runs_application [10 \<mapsto> FnUser 0] ex_e2" "runs_application [10 \<mapsto> FnUser 0] ?e" "committable [10 \<mapsto> FnUser 0] 7 ?e"
    using e by (simp_all add: runs_application_def committable_def ex_e2_def ex_cmd_def)
  have "follower_ready mem_lib 7 1 ([ex_e1, ex_e2] @ [?e]) (ex_peer i) (ex_member i)"
    unfolding follower_ready_def using assms by (auto simp: m ex_log1 ex_committable app peer_tracks_def ex_index ex_peer_def)
  then show ?thesis by (simp add: follower_serves_def e m ex_log1 app ex_client_host_def)
qed

theorem command_reaches_all_witness:
  "\<exists>r w' sf. command_round mem_lib ex_clock (\<lambda>msgs. msgs) ''h:1'' ex_signed ex_members = Some (Some r, w') \<and> crLeaderId r = 1 \<and>
     w' ''h:2'' = Some sf \<and> group_log mem_lib (srvDB sf) 7 = [ex_e1, ex_e2, new_entry mem_lib 0 ex_signed ex_sender] \<and>
     result_message mem_lib (ex_member 2) 7 ex_client_host ex_signed (crResult r) \<in> set (srvOut sf)"
proof -
  have w: "ex_members ''h:1'' = Some ex_sender" "ex_members ''h:2'' = Some (ex_member 2)" "ex_members ''h:3'' = Some (ex_member 3)"
    by (simp_all add: ex_members_def)
  have ids: "peer_ids (rt ex_sender 0) = {1, 2, 3}" by (simp add: ex_sender_facts peer_ids_def)
  have s: "GetOnboardGroup ex_sender (cmdGroup ex_signed) = Some 0" "command_signed mem_lib ex_sender ex_signed" "cmdGroup ex_signed = 7"
    "srvFuncReg ex_sender (cmdFuncId ex_signed) = Some (FnUser 0)"
    by (simp_all add: ex_sender_def ex_leader_def GetOnboardGroup_def ex_server_def ex_signed_def ex_cmd_def command_signed_def pubkey_def
        GetHostPublicKey_def VerifySign_def ExecCommandSignData_def)
  have log: "group_log mem_lib (srvDB ex_sender) 7 = [ex_e1, ex_e2]" by (simp add: ex_sender_facts ex_log2)
  have "\<exists>r w' s. command_round mem_lib ex_clock (\<lambda>msgs. msgs) ''h:1'' ex_signed ex_members = Some (Some r, w') \<and> crLeaderId r = srvId ex_sender \<and>
     crResult r = userFunc mem_lib 0 (cmdArg ex_signed) (new_entry mem_lib 0 ex_signed ex_sender) \<and> w' ''h:1'' = Some s \<and>
     group_log mem_lib (srvDB s) (cmdGroup ex_signed) = group_log mem_lib (srvDB ex_sender) (cmdGroup ex_signed) @ [new_entry mem_lib 0 ex_signed ex_sender] \<and>
     (\<forall>pid \<in> peer_ids (rt ex_sender 0) - {srvId ex_sender}. \<exists>sf sf'. ex_members (ex_addr pid) = Some sf \<and> w' (ex_addr pid) = Some sf' \<and>
        group_log mem_lib (srvDB sf') (cmdGroup ex_signed) =
          group_log mem_lib (srvDB ex_sender) (cmdGroup ex_signed) @ [new_entry mem_lib 0 ex_signed ex_sender] \<and>
        result_message mem_lib sf (cmdGroup ex_signed) ex_client_host ex_signed (crResult r) \<in> set (srvOut sf'))"
  proof (rule command_reaches_all [where addr = ex_addr])
    show "\<exists>sf. ex_members (ex_addr pid) = Some sf \<and> srvId sf = pid \<and> follower_serves mem_lib ex_signed 0 (srvId ex_sender)
        (group_log mem_lib (srvDB ex_sender) (cmdGroup ex_signed) @ [new_entry mem_lib 0 ex_signed ex_sender]) peer ex_client_host sf"
      if "(pid, peer) \<in> set (rtGroupPeers (rt ex_sender 0))" "pid \<noteq> srvId ex_sender" for pid peer
      using that ex_member_serves [of 2] ex_member_serves [of 3] unfolding s(3) log
      by (auto simp: ex_sender_facts ex_addr_def w) (simp_all add: ex_member_def)
    show "ex_addr pid \<noteq> ''h:1''" if "pid \<in> peer_ids (rt ex_sender 0)" "pid \<noteq> srvId ex_sender" for pid
      using that(1) [unfolded ids] that(2) by (auto simp: ex_addr_def ex_sender_facts(2))
  qed (use mem.libraries_axioms ex_sender_ready ex_sender_known w(1) s in
      \<open>simp_all add: iteration_order_def ids ex_addr_def ex_sender_facts ex_peers_wf inj_on_def ex_log2\<close>)
  then show ?thesis unfolding ids s(3) log ex_sender_facts(2) by (auto simp: ex_addr_def w)
qed

end
