(* ===== verification/Startup.thy ===== *)
theory Startup
  imports System Examples
begin

text \<open>
  The program that starts one server, \<^verbatim>\<open>test/testserver.go\<close> with the configuration file of \<^verbatim>\<open>server/config.go\<close>: it reads the file, makes a
  new database with a new key, creates the server, starts it, and joins the alpha group when the file names nodes to bootstrap from.
  The lemmas show that a server is well typed when it is created, and that one without nodes to bootstrap from starts a network.
\<close>

section \<open>The configuration file\<close>

record FileConfig =
  fcDb :: string
  fcAddress :: string
  fcBootstraps :: "string list"

text \<open>
  The process: \<open>readFile\<close> is \<^verbatim>\<open>ioutil.ReadFile\<close>, \<open>jsonFileConfig\<close> is \<^verbatim>\<open>json.Unmarshal\<close> into a fresh value (\<open>None\<close> for an error),
  \<open>mkdirAll\<close>, \<open>openOK\<close> and \<open>closeOK\<close> say that \<^verbatim>\<open>os.MkdirAll\<close>, \<^verbatim>\<open>badger.Open\<close> and \<^verbatim>\<open>DB.Close\<close> succeed, \<open>emptyDB\<close> is the database badger
  creates in an empty directory, and \<open>randomKey\<close> is the key that is generated.
\<close>

record 'db machine =
  readFile :: "string \<Rightarrow> bytes option"
  jsonFileConfig :: "bytes \<Rightarrow> FileConfig option"
  mkdirAll :: "string \<Rightarrow> bool"
  openOK :: "string \<Rightarrow> bool"
  closeOK :: "string \<Rightarrow> bool"
  emptyDB :: 'db
  randomKey :: "rsa_PrivateKey option"

definition ReadConfigFile :: "'db machine \<Rightarrow> string \<Rightarrow> FileConfig option" where
  "ReadConfigFile M path = do { data \<leftarrow> readFile M path; jsonFileConfig M data }"

section \<open>The program\<close>

text \<open>When no key can be generated \<^verbatim>\<open>InitDatabase\<close> only prints a message, and does not open the database.\<close>

definition initDB :: "'db lib \<Rightarrow> 'db machine \<Rightarrow> string \<Rightarrow> 'db \<Rightarrow> 'db option" where
  "initDB L M dbPath disk =
     (if \<not> mkdirAll M dbPath then None
      else if GenerateKey L (randomKey M) = None then Some disk
      else if openOK M dbPath \<and> closeOK M dbPath then Some (InitDatabase L (randomKey M) disk) else None)"

definition getServer ::
  "'db lib \<Rightarrow> cluster \<Rightarrow> 'db machine \<Rightarrow> int \<Rightarrow> string \<Rightarrow> string \<Rightarrow> string list \<Rightarrow> 'db \<Rightarrow>
   ('db BFTRaftServer \<times> BFTRaftClient) option" where
  "getServer L N M now dbPath addr bootstraps disk = do {
     db \<leftarrow> initDB L M dbPath disk;
     if openOK M dbPath
     then GetServer L N now \<lparr>optDBPath = dbPath, optAddress = addr, optBootstrap = bootstraps, optConsensusTimeout = 5000\<rparr> db
     else None
   }"

text \<open>
  \<open>clk n\<close> is the time of the \<open>n\<close>th operation, and \<open>env n\<close> what other nodes do to the server before it.  The directory of the database is
  removed first; the error of \<^verbatim>\<open>NodeJoin\<close> is dropped.
\<close>

definition testserver_main ::
  "'db lib \<Rightarrow> cluster \<Rightarrow> 'db machine \<Rightarrow> (nat \<Rightarrow> int) \<Rightarrow> (nat \<Rightarrow> 'db BFTRaftServer \<Rightarrow> 'db BFTRaftServer) \<Rightarrow> conn_pool \<Rightarrow>
   string list \<Rightarrow> ('db BFTRaftServer \<times> BFTRaftClient \<times> conn_pool) option" where
  "testserver_main L N M clk env pool args = (case args of
     _ # cfgPath # _ \<Rightarrow> do {
       cfg \<leftarrow> ReadConfigFile M cfgPath;
       (s, b) \<leftarrow> getServer L N M (clk 0) (fcDb cfg) (fcAddress cfg) (fcBootstraps cfg) (emptyDB M);
       (s, b, pool) \<leftarrow> StartServer L N (clk 1) (env 1) pool s b;
       if length (fcBootstraps cfg) > 0
       then do {
         (err, s, b) \<leftarrow> NodeJoin L N (clk 2) (env 3) ALPHA_GROUP (env 2 s) b;
         Some (s, b, pool)
       }
       else Some (s, b, pool)
     }
   | _ \<Rightarrow> None)"

section \<open>Marshalling succeeds\<close>

text \<open>Everything a cold start saves can be marshalled.\<close>

definition marshals :: "'db lib \<Rightarrow> bool" where
  "marshals L \<longleftrightarrow> (\<forall>g. marshalRaftGroup L g \<noteq> None) \<and> (\<forall>p. marshalPeer L p \<noteq> None) \<and> (\<forall>h. marshalHost L h \<noteq> None) \<and>
     (\<forall>c. marshalServerConfig L c \<noteq> None)"

section \<open>A created server is well typed\<close>

lemma NewRTGroup_typed:
  assumes "NewRTGroup s now l ps g r = (m, s')" "well_typed s" "\<And>r. rtGroupPeers r = ps \<Longrightarrow> peers_wf r"
  shows "well_typed s'"
  using assms by (auto simp: well_typed_def NewRTGroup_def rt_def nth_append)

lemma scan_loop_typed:
  "scan_loop L now sid txn items groups s = Some (res, s') \<Longrightarrow> well_typed s \<Longrightarrow> well_typed s'"
proof (induction L now sid txn items groups s rule: scan_loop.induct)
  case (2 L now sid txn item rest groups s)
  show ?case
  proof (cases "prefix (U32Bytes GROUP_PEERS) (fst item)")
    case False
    with 2(4,5) show ?thesis by simp
  next
    case p: True
    then obtain val where v: "ItemValue (Some item) = Some val" using 2(4) by (cases "ItemValue (Some item)") simp_all
    let ?peer = "fst (unmarshalPeer L val)"
    consider "peerId ?peer \<noteq> sid" | "peerId ?peer = sid" "GetGroupFromKV L txn (peerGroup ?peer) = None"
      | grp where "peerId ?peer = sid" "GetGroupFromKV L txn (peerGroup ?peer) = Some grp" by blast
    then show ?thesis
    proof cases
      case 1
      with 2(4) p v have "scan_loop L now sid txn rest groups s = Some (res, s')" by simp
      then show ?thesis using 2(3) [OF p v refl 1] 2(5) by blast
    next
      case n: 2
      with 2(4) p v have "scan_loop L now sid txn rest groups s = Some (res, s')" by simp
      then show ?thesis using 2(1) [OF p v refl n] 2(5) by blast
    next
      case g: (3 grp)
      obtain hosts s1 ps where h: "GetGroupHosts L s txn (grpId grp) = Some (hosts, s1)"
        and ps: "GetGroupPeersFromKV L txn (peerGroup ?peer) = Some ps"
        using 2(4) p v g by (auto simp: Let_def bind_eq_Some_conv)
      obtain m s2 where n: "NewRTGroup s1 now (if length hosts < 2 then srvId s1 else 0) ps grp FOLLOWER = (m, s2)" by fastforce
      have "well_typed s1" using hosting_typed [OF caches_hosting [OF GetGroupHosts_caches [OF h]]] 2(5) .
      then have "well_typed s2" using NewRTGroup_typed [OF n] stored_peers_wf [OF ps]
        by (metis RTGroup.surjective RTGroup.update_convs(4) RTGroup.select_convs(4))
      moreover have "scan_loop L now sid txn rest (AList.update (peerGroup ?peer) m groups) s2 = Some (res, s')"
        using 2(4) p v g h ps n by (simp add: Let_def)
      ultimately show ?thesis using 2(2) [OF p v refl g] h ps n by (auto simp: Let_def)
    qed
  qed
qed simp

lemma set_scanned_typed: "well_typed (set_scanned res s) = well_typed s"
  by (induction res s rule: set_scanned.induct) (simp_all add: well_typed_def rt_def)

context libraries
begin

lemma ColdStart_typed:
  assumes "ColdStart L now s b = Some (s', b')" "well_typed s"
  shows "well_typed s'"
proof -
  let ?p = "\<lparr>peerId = srvId s, peerGroup = ALPHA_GROUP, peerNextIndex = 0, peerMatchIndex = 0\<rparr>"
  from assms(1) obtain m where m: "m = length (srvRTGroups s)" "rtGroupPeers (rt s' m) = [(srvId s, ?p)]"
    and app: "srvRTGroups s' = srvRTGroups s @ [rt s' m]"
    by (cases rule: ColdStart_state) auto
  have "rt s' i = rt s i" if "i < length (srvRTGroups s)" for i using that app by (metis nth_append rt_def)
  moreover have "peers_wf (rt s' m)" by (simp add: peers_wf_def m(2))
  moreover have "length (srvRTGroups s') = Suc m" using arg_cong [OF app, of length] m(1) by simp
  ultimately show ?thesis using assms(2) m(1) by (auto simp: well_typed_def less_Suc_eq)
qed

lemma SyncAlphaGroup_typed:
  assumes "SyncAlphaGroup L N now s b = Some (s', b')" "well_typed s"
  shows "well_typed s'"
proof -
  obtain rpcs b1 res where 1: "client_alpha L N now b = Some (rpcs, b1)"
    "MajorityResponse (clCount N) (pick_order (clPick N)) rpcs (map (members_result L) (clMembers N rpcs ALPHA_GROUP)) = Some res"
    using assms(1) by (auto simp: SyncAlphaGroup_def bind_eq_Some_conv)
  show ?thesis
  proof (cases res)
    case None
    with assms 1 show ?thesis by (auto simp: SyncAlphaGroup_def intro: ColdStart_typed)
  next
    case (Some mres)
    obtain g s1 where g: "GetGroupNTXN L s ALPHA_GROUP = (g, s1)" by fastforce
    have s1: "well_typed s1"
      using g assms(2) hosting_typed caches_hosting by (metis GetGroupNTXN_def GetGroup_caches)
    have u: "well_typed (snd (updateDB L s2 f))" if "well_typed s2" for s2 and f :: "'db \<Rightarrow> (unit, 'db) sum"
      using hosting_typed [OF updateDB_hosting [OF surjective_pairing] that] .
    have "well_typed (s1\<lparr>srvGroups := G\<rparr>)" for G using s1 by (simp add: well_typed_def rt_def)
    with assms(1) 1 Some g s1 u show ?thesis
      by (auto simp: SyncAlphaGroup_def Let_def bind_eq_Some_conv case_prod_unfold split: if_splits)
  qed
qed

lemma GetServer_typed:
  assumes "GetServer L N now opts db = Some (s, b)"
  shows "well_typed s"
proof -
  obtain conf privateKey nclient hosted s1 where scan: "ScanHostedGroups L now
      (fresh_server (HashPublicKey L (PublicKeyFromPrivate privateKey)) opts db privateKey) (HashPublicKey L (PublicKeyFromPrivate privateKey)) =
      Some (hosted, s1)" and sync: "SyncAlphaGroup L N now (RegisterMembershipCommands s1) nclient = Some (s, b)"
    using assms by (auto simp: GetServer_def Let_def bind_eq_Some_conv)
  have f: "well_typed (fresh_server sid opts db privateKey)" for sid by (simp add: well_typed_def fresh_server_def)
  have "well_typed s1" using scan scan_loop_typed [OF _ f] by (auto simp: ScanHostedGroups_def bind_eq_Some_conv set_scanned_typed)
  then have "well_typed (RegisterMembershipCommands s1)"
    by (simp add: well_typed_def rt_def RegisterMembershipCommands_def RegisterRaftFunc_def)
  with sync show ?thesis by (rule SyncAlphaGroup_typed)
qed

section \<open>A fresh server\<close>

text \<open>A new database holds the configuration, and no group.\<close>

lemma config_key_groups: "\<not> prefix (U32Bytes GROUP_PEERS) ConfigKey" "\<not> prefix (ComposeKeyPrefix g LOG_ENTRIES) ConfigKey"
  by (simp_all add: ConfigKey_def ComposeKeyPrefix_def kind_defs U32Bytes_def)

lemma InitDatabase_kv:
  assumes "no_io_errors L" "GenerateKey L generated = Some (priv, pub)" "marshalServerConfig L \<lparr>confPrivateKey = priv\<rparr> = Some b"
  shows "kv L (InitDatabase L generated db) = (kv L db)(ConfigKey \<mapsto> b)"
proof -
  obtain txn where txn: "txnSet L db ConfigKey b = Inr txn" using assms(1) unfolding no_io_errors_def by blast
  obtain db' where db': "txnCommit L txn = Inr db'" using assms(1) unfolding no_io_errors_def by blast
  show ?thesis using assms(2,3) set [OF txn] commit [OF db'] by (simp add: InitDatabase_def txn db')
qed

lemma scan_fresh:
  assumes "kv L (srvDB s) = [ConfigKey \<mapsto> b]"
  shows "ScanHostedGroups L now s sid = Some ([], s)"
proof -
  have "{k \<in> dom (kv L (srvDB s)). U32Bytes GROUP_PEERS \<le> k} = (if U32Bytes GROUP_PEERS \<le> ConfigKey then {ConfigKey} else {})"
    by (auto simp: assms split: if_splits)
  then have "iterSeek L (srvDB s) False (U32Bytes GROUP_PEERS) = (if U32Bytes GROUP_PEERS \<le> ConfigKey then [(ConfigKey, Inr b)] else [])"
    by (simp add: seek_forward assms)
  then show ?thesis by (simp add: ScanHostedGroups_def config_key_groups(1))
qed

lemma log_fresh:
  assumes "kv L db = [ConfigKey \<mapsto> b]"
  shows "log_ok L db g" "group_log L db g = []"
proof -
  show "log_ok L db g" using config_key_groups(2) by (auto simp: log_ok_def assms)
  have "{k \<in> dom (kv L db). prefix (ComposeKeyPrefix g LOG_ENTRIES) k} = {}" using config_key_groups(2) by (auto simp: assms)
  then show "group_log L db g = []" by (simp only: group_log_def log_keys_def sorted_list_of_set_empty list.map)
qed

text \<open>Nobody answers a client that has nobody to ask.\<close>

lemma majority_of_none: "MajorityResponse ord (pick_order p) [] rs = Some None"
  by (simp add: MajorityResponse_def pick_order_def PickMajority_def)

lemma alpha_of_none: "arcRpcs arc = [] \<Longrightarrow> arcBootstraps arc = [] \<Longrightarrow> \<exists>arc'. alpha_Get L N now arc = Some ([], arc')"
  by (simp add: alpha_Get_def AlphaNodes_def majority_of_none Let_def)

lemma sync_alone:
  assumes "arcRpcs (brcAlphaRPCs b) = []" "arcBootstraps (brcAlphaRPCs b) = []"
  shows "\<exists>b'. SyncAlphaGroup L N now s b = ColdStart L now s b'"
  using alpha_of_none [OF assms, of N now]
  by (auto simp: SyncAlphaGroup_def client_alpha_def majority_of_none)

lemma ColdStart_succeeds:
  assumes "no_io_errors L" "marshals L"
  shows "\<exists>s' b'. ColdStart L now s b = Some (s', b')"
proof -
  have set: "\<exists>db'. txnSet L db k v = Inr db'" and commit: "\<exists>db'. txnCommit L db = Inr db'" for db k v
    using assms(1) unfolding no_io_errors_def by blast+
  have some: "\<exists>d. marshalRaftGroup L g = Some d" "\<exists>d. marshalPeer L p = Some d" "\<exists>d. marshalHost L h = Some d" for g p h
    using assms(2) by (simp_all add: marshals_def)
  have save: "\<exists>t. SaveGroup L db g = Inr t" "\<exists>t. SavePeer L db p = Inr t" "\<exists>t. SaveHost L db h = Inr t" for db g p h
  proof -
    obtain dg dp dh where d: "marshalRaftGroup L g = Some dg" "marshalPeer L p = Some dp" "marshalHost L h = Some dh" using some by blast
    show "\<exists>t. SaveGroup L db g = Inr t" "\<exists>t. SavePeer L db p = Inr t" "\<exists>t. SaveHost L db h = Inr t"
      using set [of db "GroupKey (grpId g)" dg] set [of db "PeerKey (peerGroup p) (peerId p)" dp] set [of db "HostKey (hostId h)" dh]
      by (auto simp: d SaveGroup_def SavePeer_def SaveHost_def)
  qed
  have cold: "\<exists>t. cold_start_txn L g p h db = Inr t" for g p h db
  proof -
    obtain t1 where "SaveGroup L db g = Inr t1" using save(1) by blast
    moreover obtain t2 where "SavePeer L t1 p = Inr t2" using save(2) by blast
    ultimately show ?thesis using save(3) [of t2 h] by (simp add: cold_start_txn_def)
  qed
  have update: "\<exists>s1. updateDB L s (cold_start_txn L g p h) = (None, s1)" for g p h
  proof -
    obtain t where "cold_start_txn L g p h (srvDB s) = Inr t" using cold by blast
    moreover obtain db' where "txnCommit L t = Inr db'" using commit by blast
    ultimately show ?thesis by (simp add: updateDB_def)
  qed
  obtain s1 where "updateDB L s (cold_start_txn L \<lparr>grpReplications = 32, grpId = ALPHA_GROUP, grpTerm = 0\<rparr>
      \<lparr>peerId = srvId s, peerGroup = ALPHA_GROUP, peerNextIndex = 0, peerMatchIndex = 0\<rparr>
      \<lparr>hostId = srvId s, hostLastSeen = 0, hostOnline = True, hostServerAddr = optAddress (srvOpts s),
       hostPublicKey = (case marshalPKIXPublicKey L (PublicKeyFromPrivate (srvPrivateKey s)) of Some k \<Rightarrow> k | None \<Rightarrow> [])\<rparr>) = (None, s1)"
    using update by blast
  then show ?thesis by (simp add: ColdStart_def Let_def NewRTGroup_def)
qed

text \<open>The state in which a server without nodes to bootstrap from begins.\<close>

lemma getServer_alone:
  assumes io: "no_io_errors L" "marshals L" and key: "randomKey M = Some k" "marshalPKIXPublicKey L (rsaPublicKey k) = Some pk"
    and disk: "kv L disk = Map.empty" and os: "mkdirAll M path" "openOK M path" "closeOK M path"
  shows "\<exists>s b m. getServer L N M now path addr [] disk = Some (s, b) \<and> srvId s = HashPublicKeyBytes pk \<and>
     GetOnboardGroup s ALPHA_GROUP = Some m \<and> rtRole (rt s m) = LEADER \<and> rtLeader (rt s m) = srvId s \<and> peer_ids (rt s m) = {srvId s} \<and>
     gid s m = ALPHA_GROUP \<and> srvFuncReg s REG_NODE = Some FnRegHost \<and> onboard_ok s \<and>
     (\<forall>g. log_ok L (srvDB s) g \<and> group_log L (srvDB s) g = [])"
proof -
  let ?opts = "\<lparr>optDBPath = path, optAddress = addr, optBootstrap = [], optConsensusTimeout = 5000\<rparr>"
  let ?db = "InitDatabase L (randomKey M) disk" and ?id = "HashPublicKeyBytes pk"
  let ?f = "fresh_server ?id ?opts ?db k"
  have gen: "GenerateKey L (randomKey M) = Some (marshalPKCS1PrivateKey L k, pk)"
    using key by (simp add: GenerateKey_def PublicKeyFromPrivate_def)
  obtain c where c: "marshalServerConfig L \<lparr>confPrivateKey = marshalPKCS1PrivateKey L k\<rparr> = Some c"
    using io(2) unfolding marshals_def by blast
  have db: "kv L (srvDB ?f) = [ConfigKey \<mapsto> c]" using InitDatabase_kv [OF io(1) gen c] disk by (simp add: fresh_server_def)
  have conf: "GetConfig L ?db = Some \<lparr>confPrivateKey = marshalPKCS1PrivateKey L k\<rparr>"
    using gen by (rule GetConfig_InitDatabase [OF io(1) _ c])
  have priv: "ParsePrivateKey L (marshalPKCS1PrivateKey L k) = Some k" by (simp add: ParsePrivateKey_def parse_marshal_private)
  have id: "HashPublicKey L (PublicKeyFromPrivate k) = ?id" using key(2) by (simp add: HashPublicKey_def PublicKeyFromPrivate_def)
  let ?s = "RegisterMembershipCommands ?f"
  obtain cl where cl: "NewClient L now [] (marshalPKCS1PrivateKey L k) = Some cl" "arcRpcs (brcAlphaRPCs cl) = []" "arcBootstraps (brcAlphaRPCs cl) = []"
    by (simp add: NewClient_def priv NewAlphaRPCsCache_def)
  obtain b1 where b1: "SyncAlphaGroup L N now ?s cl = ColdStart L now ?s b1" using sync_alone [OF cl(2,3)] by blast
  obtain s b where cold: "ColdStart L now ?s b1 = Some (s, b)" using ColdStart_succeeds [OF io] by blast
  have get: "getServer L N M now path addr [] disk = Some (s, b)"
    using os gen conf priv cl(1) b1 cold scan_fresh [OF db] by (simp add: getServer_def initDB_def GetServer_def id)
  have f: "srvId ?s = ?id" "srvRTGroups ?s = []" "srvGroupsOnboard ?s = Map.empty" "srvFuncReg ?s REG_NODE = Some FnRegHost" "srvDB ?s = srvDB ?f"
    by (simp_all add: RegisterMembershipCommands_def RegisterRaftFunc_def fresh_server_def REG_NODE_def NODE_JOIN_def NEW_CLIENT_def NEW_GROUP_def)
  from cold obtain m where st: "GetOnboardGroup s ALPHA_GROUP = Some m" "m = 0" "rtRole (rt s m) = LEADER" "rtLeader (rt s m) = ?id"
    "peer_ids (rt s m) = {?id}" "gid s m = ALPHA_GROUP" "srvId s = ?id" "srvFuncReg s REG_NODE = Some FnRegHost"
    "logs_eq L (srvDB ?f) (srvDB s)" "srvRTGroups s = [rt s m]" "srvGroupsOnboard s = [cacheKey ALPHA_GROUP \<mapsto> m]"
    by (cases rule: ColdStart_state) (auto simp: f gid_def peer_ids_def)
  have "onboard_ok s" unfolding onboard_ok_def
  proof (intro allI impI)
    fix g i assume "GetOnboardGroup s g = Some i"
    then have "g = ALPHA_GROUP \<and> i = 0" using st(2,11) by (auto simp: GetOnboardGroup_def split: if_splits)
    then show "i < length (srvRTGroups s) \<and> gid s i = g" using st(2,6,10) by simp
  qed
  moreover have "log_ok L (srvDB s) g \<and> group_log L (srvDB s) g = []" for g
    using log_fresh [OF db] logs_eq_logs [OF st(9)] by simp
  ultimately show ?thesis using get st(1,3-8) by (intro exI [of _ s] exI [of _ b] exI [of _ m]) simp
qed

end

section \<open>Properties\<close>

text \<open>
  C15.  A server that is created on an empty disk without nodes to bootstrap from starts a network: its id is the hash of the public key that
  was generated, and it is the leader and the only peer of the alpha group, whose log is empty; no log holds anything, every group it
  knows is found under its own id, and it is ready to register hosts.
\<close>

theorem fresh_server_leads:
  assumes "libraries L" "no_io_errors L" "marshals L" "randomKey M = Some k" "marshalPKIXPublicKey L (rsaPublicKey k) = Some pk"
    and "kv L disk = Map.empty" "mkdirAll M path" "openOK M path" "closeOK M path"
  shows "\<exists>s b m. getServer L N M now path addr [] disk = Some (s, b) \<and> srvId s = HashPublicKeyBytes pk \<and>
     GetOnboardGroup s ALPHA_GROUP = Some m \<and> rtRole (rt s m) = LEADER \<and> rtLeader (rt s m) = srvId s \<and> peer_ids (rt s m) = {srvId s} \<and>
     gid s m = ALPHA_GROUP \<and> srvFuncReg s REG_NODE = Some FnRegHost \<and> onboard_ok s \<and>
     (\<forall>g. log_ok L (srvDB s) g \<and> group_log L (srvDB s) g = [])"
  by (rule libraries.getServer_alone [OF assms])

definition ex_machine :: "memdb machine" where
  "ex_machine = \<lparr>readFile = (\<lambda>path. None), jsonFileConfig = (\<lambda>data. None), mkdirAll = (\<lambda>path. True), openOK = (\<lambda>path. True),
     closeOK = (\<lambda>path. True), emptyDB = [], randomKey = Some ex_key\<rparr>"

definition ex_nobody :: cluster where
  "ex_nobody = \<lparr>clAlpha = (\<lambda>cs. []), clHosts = (\<lambda>cs g. []), clLeader = (\<lambda>cs g. []), clContent = (\<lambda>cs g. []), clMembers = (\<lambda>cs g. []),
     clResults = (\<lambda>cmd. []), clCount = (\<lambda>xs. xs), clPick = (\<lambda>n. 0)\<rparr>"

lemma ex_machine_sel [simp]:
  "mkdirAll ex_machine path" "openOK ex_machine path" "closeOK ex_machine path" "randomKey ex_machine = Some ex_key"
  by (simp_all add: ex_machine_def)

lemma mem_marshals: "marshals mem_lib"
  by (simp add: marshals_def)

theorem fresh_server_leads_witness:
  "\<exists>s b m. getServer mem_lib ex_nobody ex_machine 0 ''db'' ''a:1'' [] [] = Some (s, b) \<and> srvId s = HashPublicKeyBytes (enc_pkix ex_pk) \<and>
     GetOnboardGroup s ALPHA_GROUP = Some m \<and> rtRole (rt s m) = LEADER"
proof -
  have "kv mem_lib [] = Map.empty" by (simp add: kv_mem)
  moreover have "marshalPKIXPublicKey mem_lib (rsaPublicKey ex_key) = Some (enc_pkix ex_pk)" by (simp add: ex_key_def)
  ultimately show ?thesis
    using fresh_server_leads [OF mem.libraries_axioms mem_io mem_marshals, of ex_machine ex_key _ "[]" "''db''" ex_nobody 0 "''a:1''"] by auto
qed

text \<open>
  C16.  The peers of a group are a map by their ids.  From the creation of a server on - with the peers it finds on its disk - and through
  every run - messages, commands, votes, elections, heartbeats and joins in any order, with any network - each group of the server keeps
  at most one entry per peer, under the id of that peer.
\<close>

theorem servers_well_typed:
  assumes "libraries L" "getServer L N M now path addr bootstraps disk = Some (s, b)" "(server_step L)\<^sup>*\<^sup>* s s'" "i < length (srvRTGroups s')"
  shows "distinct (map fst (rtGroupPeers (rt s' i))) \<and> (\<forall>(k, p) \<in> set (rtGroupPeers (rt s' i)). peerId p = k)"
proof -
  have "well_typed s" using assms(2) libraries.GetServer_typed [OF assms(1)]
    by (auto simp: getServer_def bind_eq_Some_conv split: if_splits)
  then have "well_typed s'" by (rule hosting_typed [OF libraries.run_hosting [OF assms(1,3)]])
  with assms(4) show ?thesis by (simp add: well_typed_def peers_wf_def)
qed

theorem servers_well_typed_witness:
  "\<exists>s b m. getServer mem_lib ex_nobody ex_machine 0 ''db'' ''a:1'' [] [] = Some (s, b) \<and> m < length (srvRTGroups s) \<and>
     distinct (map fst (rtGroupPeers (rt s m))) \<and> rtGroupPeers (rt s m) \<noteq> []"
proof -
  have "kv mem_lib [] = Map.empty" by (simp add: kv_mem)
  moreover have "marshalPKIXPublicKey mem_lib (rsaPublicKey ex_key) = Some (enc_pkix ex_pk)" by (simp add: ex_key_def)
  ultimately obtain s b m where s: "getServer mem_lib ex_nobody ex_machine 0 ''db'' ''a:1'' [] [] = Some (s, b)" "GetOnboardGroup s ALPHA_GROUP = Some m"
    "peer_ids (rt s m) = {srvId s}" "onboard_ok s"
    using mem.getServer_alone [OF mem_io mem_marshals, of ex_machine ex_key _ "[]" "''db''" ex_nobody 0 "''a:1''"] by auto
  then have "m < length (srvRTGroups s)" by (simp add: onboard_ok_def)
  moreover have "rtGroupPeers (rt s m) \<noteq> []" using s(3) by (auto simp: peer_ids_def)
  ultimately show ?thesis using s(1) servers_well_typed [OF mem.libraries_axioms s(1) rtranclp.rtrancl_refl] by blast
qed

end
