(* ===== verification/Unit_Tests.thy ===== *)
theory Unit_Tests
  imports Startup
begin

text \<open>
  The tests of the repository, \<^verbatim>\<open>utils/utils_test.go\<close> and \<^verbatim>\<open>server/server_test.go\<close>: a test that fails panics, which is \<open>None\<close>.  The tests of the keys
  pass whenever a key can be generated; the others only start servers, and pass when these do.
\<close>

section \<open>Keys\<close>

definition TestGenerateKey :: "'db lib \<Rightarrow> rsa_PrivateKey option \<Rightarrow> unit option" where
  "TestGenerateKey L generated = do {
     (pri, pub) \<leftarrow> GenerateKey L generated;
     priK \<leftarrow> ParsePrivateKey L pri;
     pubK \<leftarrow> ParsePublicKey L pub;
     let pubFrPriv = PublicKeyFromPrivate priK in if rsaE pubK \<noteq> rsaE pubFrPriv then None else Some ()
   }"

definition TestVerifySign :: "'db lib \<Rightarrow> rsa_PrivateKey option \<Rightarrow> unit option" where
  "TestVerifySign L generated = do {
     (pri, pub) \<leftarrow> GenerateKey L generated;
     priK \<leftarrow> ParsePrivateKey L pri;
     pubK \<leftarrow> ParsePublicKey L pub;
     let pubFrPriv = PublicKeyFromPrivate priK; data = bytes_of_string ''test signature''; sig = Sign L priK data
     in if \<not> VerifySign L pubK sig data then None
        else if \<not> VerifySign L pubFrPriv sig data then None
        else Some ()
   }"

text \<open>The key that is generated is the one that is read back.\<close>

context rsa
begin

lemma GenerateKey_parses:
  "GenerateKey L generated = Some (pri, pub) \<Longrightarrow>
     \<exists>k. ParsePrivateKey L pri = Some k \<and> ParsePublicKey L pub = Some (PublicKeyFromPrivate k)"
  by (auto simp: GenerateKey_def ParsePrivateKey_def ParsePublicKey_def parse_marshal parse_marshal_private Let_def split: option.splits)

end

section \<open>Servers\<close>

text \<open>
  A server is created and started, and joins the alpha group when it is not the first.  \<open>clk n\<close> is the time of its \<open>n\<close>th operation and \<open>env n\<close>
  what the others do to it before; the errors of \<^verbatim>\<open>StartServer\<close> and \<^verbatim>\<open>NodeJoin\<close> are dropped.
\<close>

definition start_node ::
  "'db lib \<Rightarrow> cluster \<Rightarrow> 'db machine \<Rightarrow> (nat \<Rightarrow> int) \<Rightarrow> (nat \<Rightarrow> 'db BFTRaftServer \<Rightarrow> 'db BFTRaftServer) \<Rightarrow> conn_pool \<Rightarrow>
   string \<Rightarrow> string \<Rightarrow> string list \<Rightarrow> ('db BFTRaftServer \<times> BFTRaftClient \<times> conn_pool) option" where
  "start_node L N M clk env pool dbPath addr bootstraps = do {
     (s, b) \<leftarrow> getServer L N M (clk 0) dbPath addr bootstraps (emptyDB M);
     StartServer L N (clk 1) (env 1) pool s b
   }"

definition join_node ::
  "'db lib \<Rightarrow> cluster \<Rightarrow> 'db machine \<Rightarrow> (nat \<Rightarrow> int) \<Rightarrow> (nat \<Rightarrow> 'db BFTRaftServer \<Rightarrow> 'db BFTRaftServer) \<Rightarrow> conn_pool \<Rightarrow>
   string \<Rightarrow> string \<Rightarrow> string list \<Rightarrow> ('db BFTRaftServer \<times> BFTRaftClient \<times> conn_pool) option" where
  "join_node L N M clk env pool dbPath addr bootstraps = do {
     (s, b, pool) \<leftarrow> start_node L N M clk env pool dbPath addr bootstraps;
     (err, s, b) \<leftarrow> NodeJoin L N (clk 2) (env 3) ALPHA_GROUP (env 2 s) b;
     Some (s, b, pool)
   }"

definition TestServerStartup ::
  "'db lib \<Rightarrow> cluster \<Rightarrow> 'db machine \<Rightarrow> (nat \<Rightarrow> int) \<Rightarrow> (nat \<Rightarrow> 'db BFTRaftServer \<Rightarrow> 'db BFTRaftServer) \<Rightarrow> conn_pool \<Rightarrow> unit option" where
  "TestServerStartup L N M clk env pool =
     map_option (\<lambda>r. ()) (start_node L N M clk env pool ''test_data/ServerStartup'' ''localhost:4560'' [])"

text \<open>The three servers of \<^verbatim>\<open>TestColdStart\<close> share the process, and so the pool of connections; the network and the others differ.\<close>

definition TestColdStart ::
  "'db lib \<Rightarrow> (nat \<Rightarrow> cluster) \<Rightarrow> 'db machine \<Rightarrow> (nat \<Rightarrow> nat \<Rightarrow> int) \<Rightarrow>
   (nat \<Rightarrow> nat \<Rightarrow> 'db BFTRaftServer \<Rightarrow> 'db BFTRaftServer) \<Rightarrow> conn_pool \<Rightarrow> 'db BFTRaftServer list option" where
  "TestColdStart L N M clk env pool = do {
     let addr1 = ''localhost:4561''; addr2 = ''localhost:4562''; addr3 = ''localhost:4563'' in do {
       (s1, b1, pool) \<leftarrow> start_node L (N 1) M (clk 1) (env 1) pool ''test_data/TestColdStart1'' addr1 [];
       (s2, b2, pool) \<leftarrow> join_node L (N 2) M (clk 2) (env 2) pool ''test_data/TestColdStart2'' addr2 [addr1];
       (s3, b3, pool) \<leftarrow> join_node L (N 3) M (clk 3) (env 3) pool ''test_data/TestColdStart3'' addr3 [addr1, addr2];
       Some [s1, s2, s3]
     }
   }"

section \<open>The tests pass\<close>

theorem key_tests_pass:
  assumes "rsa L"
  shows "(TestGenerateKey L generated = Some () \<longleftrightarrow> GenerateKey L generated \<noteq> None) \<and>
     (TestVerifySign L generated = Some () \<longleftrightarrow> GenerateKey L generated \<noteq> None)"
proof (cases "GenerateKey L generated")
  case None
  then show ?thesis by (simp add: TestGenerateKey_def TestVerifySign_def)
next
  case (Some keys)
  obtain pri pub where keys: "keys = (pri, pub)" by fastforce
  obtain k where "ParsePrivateKey L pri = Some k" "ParsePublicKey L pub = Some (PublicKeyFromPrivate k)"
    using rsa.GenerateKey_parses [OF assms] Some keys by blast
  with Some keys show ?thesis by (simp add: TestGenerateKey_def TestVerifySign_def Let_def rsa.VerifySign_Sign [OF assms])
qed

end
