(* ===== verification/Client_Store.thy ===== *)
theory Client_Store
  imports Append Connections
begin

text \<open>
  The store of the connections on which a server answers clients, \<^verbatim>\<open>ClientStore\<close> of \<^verbatim>\<open>server/clients.go\<close>.  Its cache, of
  \<^verbatim>\<open>github.com/patrickmn/go-cache\<close>, is a parameter with the documented behaviour of an expiring cache; the connections that are open are
  part of the state, named by numbers.  The lemmas show that a connection the store hands out is open, and that one which expires before the
  cache is swept is never closed once its address is asked for again.
\<close>

section \<open>The cache\<close>

text \<open>
  \<open>cacheNew d i\<close> is \<^verbatim>\<open>cache.New\<close>, \<open>cacheGet c t k\<close> is \<^verbatim>\<open>Get\<close> at time \<open>t\<close>, \<open>cacheSet\<close> is \<^verbatim>\<open>Set\<close> with the default expiration, and
  \<open>cacheSweep\<close> is the \<^verbatim>\<open>DeleteExpired\<close> of its janitor, with the values it hands to \<^verbatim>\<open>OnEvicted\<close>.
\<close>

record 'c gocache =
  cacheNew :: "int \<Rightarrow> int \<Rightarrow> 'c"
  cacheGet :: "'c \<Rightarrow> int \<Rightarrow> string \<Rightarrow> nat option"
  cacheSet :: "'c \<Rightarrow> int \<Rightarrow> string \<Rightarrow> nat \<Rightarrow> 'c"
  cacheSweep :: "'c \<Rightarrow> int \<Rightarrow> 'c \<times> nat list"

definition unexpired :: "int \<Rightarrow> (nat \<times> int) option \<Rightarrow> (nat \<times> int) option" where
  "unexpired t it = (case it of None \<Rightarrow> None | Some (v, e) \<Rightarrow> if t > e then None else Some (v, e))"

text \<open>\<open>items c k\<close> is what the cache holds under a key, with the time at which it expires.\<close>

locale go_cache =
  fixes G :: "'c gocache" and items :: "'c \<Rightarrow> string \<Rightarrow> (nat \<times> int) option" and lifetime :: "'c \<Rightarrow> int"
  assumes new: "items (cacheNew G d i) = Map.empty" "lifetime (cacheNew G d i) = d"
    and get: "cacheGet G c t k = map_option fst (unexpired t (items c k))"
    and set: "items (cacheSet G c t k v) = (items c)(k \<mapsto> (v, t + lifetime c))" "lifetime (cacheSet G c t k v) = lifetime c"
    and sweep: "cacheSweep G c t = (c', evicted) \<Longrightarrow> items c' k = unexpired t (items c k)"
      "cacheSweep G c t = (c', evicted) \<Longrightarrow> lifetime c' = lifetime c"
    and evicted: "cacheSweep G c t = (c', evicted) \<Longrightarrow> v \<in> set evicted \<longleftrightarrow> (\<exists>k e. items c k = Some (v, e) \<and> e < t)"

section \<open>The store\<close>

record 'c ClientStore =
  csClients :: 'c
  csOpen :: "nat set"
  csNext :: nat

definition NewClientStore :: "'c gocache \<Rightarrow> 'c ClientStore" where
  "NewClientStore G = \<lparr>csClients = cacheNew G 600000 300000, csOpen = {}, csNext = 0\<rparr>"

text \<open>\<open>None\<close> stands for the error of \<^verbatim>\<open>grpc.Dial\<close>.\<close>

definition ClientStore_dial :: "'db lib \<Rightarrow> 'c gocache \<Rightarrow> int \<Rightarrow> string \<Rightarrow> 'c ClientStore \<Rightarrow> nat option \<times> 'c ClientStore" where
  "ClientStore_dial L G t serverAddr cs =
     (if dialOK L serverAddr
      then (let conn = csNext cs in
        (Some conn, cs\<lparr>csClients := cacheSet G (csClients cs) t serverAddr conn, csOpen := insert conn (csOpen cs), csNext := conn + 1\<rparr>))
      else (None, cs))"

text \<open>The cache is asked at time \<open>t\<close>, and again at \<open>t'\<close> when the lock is held; \<open>env\<close> is what others did to the store before.\<close>

definition ClientStore_Get ::
  "'db lib \<Rightarrow> 'c gocache \<Rightarrow> int \<Rightarrow> int \<Rightarrow> ('c ClientStore \<Rightarrow> 'c ClientStore) \<Rightarrow> string \<Rightarrow> 'c ClientStore \<Rightarrow> nat option \<times> 'c ClientStore" where
  "ClientStore_Get L G t t' env serverAddr cs = (case cacheGet G (csClients cs) t serverAddr of
     Some cachedClient \<Rightarrow> (Some cachedClient, cs)
   | None \<Rightarrow> (let cs = env cs in case cacheGet G (csClients cs) t' serverAddr of
       Some cachedClient \<Rightarrow> (Some cachedClient, cs)
     | None \<Rightarrow> ClientStore_dial L G t' serverAddr cs))"

text \<open>The janitor: the function given to \<^verbatim>\<open>OnEvicted\<close> closes each connection it evicts.\<close>

definition evict_clients :: "'c gocache \<Rightarrow> int \<Rightarrow> 'c ClientStore \<Rightarrow> 'c ClientStore" where
  "evict_clients G t cs = (let (clients, evicted) = cacheSweep G (csClients cs) t
     in cs\<lparr>csClients := clients, csOpen := csOpen cs - set evicted\<rparr>)"

inductive store_step :: "'db lib \<Rightarrow> 'c gocache \<Rightarrow> 'c ClientStore \<Rightarrow> 'c ClientStore \<Rightarrow> bool" for L G where
  got: "ClientStore_Get L G t t' env addr cs = (r, cs') \<Longrightarrow> (store_step L G)\<^sup>*\<^sup>* cs (env cs) \<Longrightarrow> store_step L G cs cs'"
| swept: "store_step L G cs (evict_clients G t cs)"

section \<open>Invariants\<close>

text \<open>Every connection of the cache is open, even an expired one, and is that of one address that can be dialled.\<close>

definition store_ok :: "'db lib \<Rightarrow> ('c \<Rightarrow> string \<Rightarrow> (nat \<times> int) option) \<Rightarrow> 'c ClientStore \<Rightarrow> bool" where
  "store_ok L items cs \<longleftrightarrow> (\<forall>c \<in> csOpen cs. c < csNext cs) \<and>
     (\<forall>k c e. items (csClients cs) k = Some (c, e) \<longrightarrow> c \<in> csOpen cs \<and> dialOK L k) \<and>
     (\<forall>k k' c e e'. items (csClients cs) k = Some (c, e) \<longrightarrow> items (csClients cs) k' = Some (c, e') \<longrightarrow> k = k')"

text \<open>A connection is lost when it is open but the cache no longer holds it.\<close>

definition lost :: "('c \<Rightarrow> string \<Rightarrow> (nat \<times> int) option) \<Rightarrow> nat \<Rightarrow> 'c ClientStore \<Rightarrow> bool" where
  "lost items c cs \<longleftrightarrow> c \<in> csOpen cs \<and> c < csNext cs \<and> (\<forall>k e. items (csClients cs) k \<noteq> Some (c, e))"

context go_cache
begin

lemma Get_cases:
  assumes "ClientStore_Get L G t t' env addr cs = (r, cs')"
  obtains (cached) c where "cacheGet G (csClients cs) t addr = Some c" "r = Some c" "cs' = cs"
    | (shared) c where "cacheGet G (csClients (env cs)) t' addr = Some c" "r = Some c" "cs' = env cs"
    | (dialled) "cacheGet G (csClients (env cs)) t' addr = None" "ClientStore_dial L G t' addr (env cs) = (r, cs')"
proof (cases "cacheGet G (csClients cs) t addr")
  case (Some c)
  with assms show ?thesis by (intro cached [OF Some]) (simp_all add: ClientStore_Get_def)
next
  case None
  show ?thesis
  proof (cases "cacheGet G (csClients (env cs)) t' addr")
    case again: None
    with assms None show ?thesis by (intro dialled [OF again]) (simp_all add: ClientStore_Get_def)
  next
    case again: (Some c)
    with assms None show ?thesis by (intro shared [OF again]) (simp_all add: ClientStore_Get_def)
  qed
qed

text \<open>A property of the store that dialling and sweeping keep, all steps keep.\<close>

lemma Get_induct:
  assumes "ClientStore_Get L G t t' env addr cs = (r, cs')" "P cs" "P (env cs)"
    and "\<And>t addr cs r cs'. ClientStore_dial L G t addr cs = (r, cs') \<Longrightarrow> cacheGet G (csClients cs) t addr = None \<Longrightarrow> P cs \<Longrightarrow> P cs'"
  shows "P cs'"
  using assms(1)
proof (cases rule: Get_cases)
  case dialled
  then show ?thesis using assms(3,4) by blast
qed (use assms(2,3) in simp_all)

lemma step_induct:
  assumes "store_step L G cs cs'" "P cs"
    and dial: "\<And>t addr cs r cs'. ClientStore_dial L G t addr cs = (r, cs') \<Longrightarrow> cacheGet G (csClients cs) t addr = None \<Longrightarrow> P cs \<Longrightarrow> P cs'"
    and sweep: "\<And>t cs. P cs \<Longrightarrow> P (evict_clients G t cs)"
  shows "P cs'"
  using assms(1,2)
proof (induction rule: store_step.induct)
  case (got t t' env addr cs r cs')
  have "P (env cs)" using got(2) got(3) by (induction rule: rtranclp_induct) auto
  with got(1,3) show ?case using dial by (rule Get_induct)
qed (rule sweep)

lemma run_induct:
  assumes "(store_step L G)\<^sup>*\<^sup>* cs cs'" "P cs"
    and "\<And>t addr cs r cs'. ClientStore_dial L G t addr cs = (r, cs') \<Longrightarrow> cacheGet G (csClients cs) t addr = None \<Longrightarrow> P cs \<Longrightarrow> P cs'"
    and "\<And>t cs. P cs \<Longrightarrow> P (evict_clients G t cs)"
  shows "P cs'"
  using assms(1,2)
proof (induction rule: rtranclp_induct)
  case (step u v)
  show ?case using step(2) step.IH [OF step.prems] assms(3,4) by (rule step_induct)
qed

lemma unexpired_Some: "unexpired t it = Some (v, e) \<longleftrightarrow> it = Some (v, e) \<and> t \<le> e"
  by (auto simp: unexpired_def split: option.splits)

lemma dial_cases:
  assumes "ClientStore_dial L G t addr cs = (r, cs')"
  obtains "r = None" "cs' = cs" "\<not> dialOK L addr"
    | "r = Some (csNext cs)" "dialOK L addr" "csOpen cs' = insert (csNext cs) (csOpen cs)" "csNext cs' = csNext cs + 1"
      "items (csClients cs') = (items (csClients cs))(addr \<mapsto> (csNext cs, t + lifetime (csClients cs)))"
      "lifetime (csClients cs') = lifetime (csClients cs)"
  using assms by (cases "dialOK L addr") (auto simp: ClientStore_dial_def Let_def set)

lemma evict_sel:
  "csNext (evict_clients G t cs) = csNext cs" "items (csClients (evict_clients G t cs)) k = unexpired t (items (csClients cs) k)"
  "c \<in> csOpen (evict_clients G t cs) \<longleftrightarrow> c \<in> csOpen cs \<and> (\<forall>k e. items (csClients cs) k = Some (c, e) \<longrightarrow> t \<le> e)"
  "lifetime (csClients (evict_clients G t cs)) = lifetime (csClients cs)"
proof -
  obtain c' vs where s: "cacheSweep G (csClients cs) t = (c', vs)" by fastforce
  show "csNext (evict_clients G t cs) = csNext cs" "items (csClients (evict_clients G t cs)) k = unexpired t (items (csClients cs) k)"
    "c \<in> csOpen (evict_clients G t cs) \<longleftrightarrow> c \<in> csOpen cs \<and> (\<forall>k e. items (csClients cs) k = Some (c, e) \<longrightarrow> t \<le> e)"
    "lifetime (csClients (evict_clients G t cs)) = lifetime (csClients cs)"
    by (simp_all add: evict_clients_def s sweep [OF s] evicted [OF s] linorder_not_less)
qed

lemma store_ok_new: "store_ok L items (NewClientStore G)"
  by (simp add: store_ok_def NewClientStore_def new)

lemma dial_ok:
  assumes "ClientStore_dial L G t addr cs = (r, cs')" "store_ok L items cs"
  shows "store_ok L items cs'"
  using assms(1)
proof (cases rule: dial_cases)
  case 1
  with assms(2) show ?thesis by simp
next
  case 2
  have fresh: "items (csClients cs) k \<noteq> Some (csNext cs, e)" for k e using assms(2) unfolding store_ok_def by blast
  have uniq: "items (csClients cs) k = Some (c, e) \<Longrightarrow> items (csClients cs) k' = Some (c, e') \<Longrightarrow> k = k'" for k k' c e e'
    using assms(2) unfolding store_ok_def by blast
  have held: "items (csClients cs) k = Some (c, e) \<Longrightarrow> c \<in> csOpen cs \<and> dialOK L k" for k c e using assms(2) unfolding store_ok_def by blast
  have "c < csNext cs'" if "c \<in> csOpen cs'" for c using that assms(2) by (auto simp: 2(3,4) store_ok_def)
  moreover have "c \<in> csOpen cs' \<and> dialOK L k" if "items (csClients cs') k = Some (c, e)" for k c e
    using that held 2(2) by (cases "k = addr") (auto simp: 2(3,5))
  moreover have "k = k'" if "items (csClients cs') k = Some (c, e)" "items (csClients cs') k' = Some (c, e')" for k k' c e e'
    using that uniq fresh by (auto simp: 2(5) split: if_splits)
  ultimately show ?thesis unfolding store_ok_def by blast
qed

lemma evict_ok:
  assumes "store_ok L items cs"
  shows "store_ok L items (evict_clients G t cs)"
proof -
  have uniq: "items (csClients cs) k = Some (c, e) \<Longrightarrow> items (csClients cs) k' = Some (c, e') \<Longrightarrow> k = k' \<and> e = e'" for k k' c e e'
    using assms unfolding store_ok_def by fastforce
  have open_after: "c \<in> csOpen (evict_clients G t cs) \<and> dialOK L k"
    if "items (csClients (evict_clients G t cs)) k = Some (c, e)" for k c e
  proof -
    have "items (csClients cs) k = Some (c, e)" "t \<le> e" using that by (simp_all add: evict_sel unexpired_Some)
    with assms uniq show ?thesis unfolding store_ok_def evict_sel by metis
  qed
  moreover have "k = k'" if "items (csClients (evict_clients G t cs)) k = Some (c, e)"
    "items (csClients (evict_clients G t cs)) k' = Some (c, e')" for k k' c e e'
    using that uniq by (auto simp: evict_sel unexpired_Some)
  moreover have "c < csNext cs" if "c \<in> csOpen (evict_clients G t cs)" for c
    using that assms by (simp add: evict_sel store_ok_def)
  ultimately show ?thesis unfolding store_ok_def evict_sel(1) by blast
qed

lemma run_ok: "(store_step L G)\<^sup>*\<^sup>* cs cs' \<Longrightarrow> store_ok L items cs \<Longrightarrow> store_ok L items cs'"
  by (erule run_induct [where P = "store_ok L items"]) (auto intro: dial_ok evict_ok)

text \<open>Nobody closes a lost connection.\<close>

lemma run_lost:
  assumes "(store_step L G)\<^sup>*\<^sup>* cs cs'" "lost items c cs"
  shows "lost items c cs'"
  using assms
proof (rule run_induct)
  fix t addr cs r cs'
  assume "ClientStore_dial L G t addr cs = (r, cs')" "lost items c cs"
  then show "lost items c cs'" by (cases rule: dial_cases) (auto simp: lost_def split: if_splits)
qed (auto simp: lost_def evict_sel unexpired_Some)

text \<open>With a well-formed store \<^verbatim>\<open>Get\<close> finds an open connection exactly for the addresses that can be dialled.\<close>

lemma Get_result:
  assumes "ClientStore_Get L G t t' env addr cs = (r, cs')" "store_ok L items cs" "store_ok L items (env cs)"
  shows "store_ok L items cs'" "r \<noteq> None \<longleftrightarrow> dialOK L addr" "r = Some c \<Longrightarrow> c \<in> csOpen cs'"
proof -
  show ok: "store_ok L items cs'" using assms by (rule Get_induct) (auto intro: dial_ok)
  have hit: "c \<in> csOpen cs \<and> dialOK L addr" if "cacheGet G (csClients cs) t addr = Some c" "store_ok L items cs" for c t cs
    using that by (auto simp: get unexpired_Some store_ok_def)
  show "r \<noteq> None \<longleftrightarrow> dialOK L addr" using assms(1)
  proof (cases rule: Get_cases)
    case dialled
    then show ?thesis by (cases rule: dial_cases [OF dialled(2)]) auto
  qed (use hit assms(2,3) in auto)
  show "c \<in> csOpen cs'" if "r = Some c" using assms(1)
  proof (cases rule: Get_cases)
    case dialled
    then show ?thesis using that by (cases rule: dial_cases [OF dialled(2)]) auto
  qed (use hit assms(2,3) that in auto)
qed

lemma ClientRPCs_Get_store:
  assumes "store_ok L items cs"
  shows "ClientRPCs_Get L addr \<longleftrightarrow> fst (ClientStore_Get L G t t (\<lambda>cs. cs) addr cs) \<noteq> None"
proof -
  obtain r cs' where "ClientStore_Get L G t t (\<lambda>cs. cs) addr cs = (r, cs')" by fastforce
  with Get_result(2) [OF this assms assms] show ?thesis by (simp add: ClientRPCs_Get_def)
qed

text \<open>A connection that has expired is lost when its address is asked for before the janitor comes.\<close>

lemma Get_loses:
  assumes "ClientStore_Get L G t t (\<lambda>cs. cs) addr cs = (Some c2, cs')" "items (csClients cs) addr = Some (c, e)" "e < t"
    and ok: "store_ok L items cs"
  shows "lost items c cs'" "c2 \<noteq> c"
proof -
  have "ClientStore_dial L G t addr cs = (Some c2, cs')" using assms(1-3) by (simp add: ClientStore_Get_def get unexpired_def)
  then have d: "c2 = csNext cs" "csOpen cs' = insert (csNext cs) (csOpen cs)" "csNext cs' = csNext cs + 1"
    "items (csClients cs') = (items (csClients cs))(addr \<mapsto> (csNext cs, t + lifetime (csClients cs)))"
    by (cases rule: dial_cases; simp)+
  have c: "c \<in> csOpen cs" "c < csNext cs" using ok assms(2) unfolding store_ok_def by blast+
  have "items (csClients cs) k = Some (c, e') \<Longrightarrow> k = addr" for k e' using ok assms(2) unfolding store_ok_def by blast
  then show "lost items c cs'" using c by (auto simp: lost_def d)
  show "c2 \<noteq> c" using c d(1) by simp
qed

end

section \<open>An instance\<close>

text \<open>A cache as an association list with its default expiration.\<close>

type_synonym mem_cache = "int \<times> (string \<times> nat \<times> int) list"

definition mem_gocache :: "mem_cache gocache" where
  "mem_gocache = \<lparr>cacheNew = (\<lambda>d i. (d, [])),
     cacheGet = (\<lambda>(d, its) t k. case map_of its k of None \<Rightarrow> None | Some (v, e) \<Rightarrow> if t > e then None else Some v),
     cacheSet = (\<lambda>(d, its) t k v. (d, AList.update k (v, t + d) its)),
     cacheSweep = (\<lambda>(d, its) t. ((d, filter (\<lambda>(k, v, e). t \<le> e) (AList.clearjunk its)),
        map (\<lambda>(k, v, e). v) (filter (\<lambda>(k, v, e). e < t) (AList.clearjunk its))))\<rparr>"

lemma kept_items: "distinct (map fst its) \<Longrightarrow> map_of (filter (\<lambda>(k, v, e). t \<le> e) its) key = unexpired t (map_of its key)"
proof (induction its)
  case Nil
  show ?case by (simp add: unexpired_def)
next
  case (Cons it its)
  obtain k v e where it: "it = (k, v, e)" by (cases it)
  have "map_of its k = None" using Cons.prems by (simp add: it map_of_eq_None_iff)
  with Cons it show ?case by (auto simp: unexpired_def)
qed

interpretation mem_clients: go_cache mem_gocache "\<lambda>c. map_of (snd c)" fst
proof unfold_locales
  fix c c' :: mem_cache and t k v evicted
  show "cacheGet mem_gocache c t k = map_option fst (unexpired t (map_of (snd c) k))"
    by (cases c) (auto simp: mem_gocache_def unexpired_def split: option.splits)
  show "map_of (snd (cacheSet mem_gocache c t k v)) = (map_of (snd c))(k \<mapsto> (v, t + fst c))"
    by (cases c) (simp add: mem_gocache_def update_conv')
  assume s: "cacheSweep mem_gocache c t = (c', evicted)"
  show "map_of (snd c') k = unexpired t (map_of (snd c) k)"
    using s by (cases c) (auto simp: mem_gocache_def kept_items map_of_clearjunk)
  show "v \<in> set evicted \<longleftrightarrow> (\<exists>k e. map_of (snd c) k = Some (v, e) \<and> e < t)"
  proof -
    have "(k, x) \<in> set (AList.clearjunk (snd c)) \<longleftrightarrow> map_of (snd c) k = Some x" for k x
      by (metis distinct_clearjunk map_of_clearjunk map_of_eq_Some_iff)
    moreover have "evicted = map (\<lambda>(k, v, e). v) (filter (\<lambda>(k, v, e). e < t) (AList.clearjunk (snd c)))"
      using s by (cases c) (simp add: mem_gocache_def)
    then have "v \<in> set evicted \<longleftrightarrow> (\<exists>k e. (k, v, e) \<in> set (AList.clearjunk (snd c)) \<and> e < t)" by force
    ultimately show ?thesis by simp
  qed
qed (auto simp: mem_gocache_def split: prod.splits)

section \<open>Properties\<close>

text \<open>
  C37.  Every connection a client store hands out is open, in every state it can reach, with other callers and the janitor at any time.  But
  a connection that expires is never closed when its address is asked for again before the janitor comes: from then on it stays open and
  is never handed out.
\<close>

theorem client_store_connections:
  assumes "go_cache G items lifetime" "(store_step L G)\<^sup>*\<^sup>* (NewClientStore G) cs" "ClientStore_Get L G t t (\<lambda>cs. cs) addr cs = (Some c, cs1)"
  shows "c \<in> csOpen cs1 \<and> dialOK L addr \<and>
     (\<forall>old e cs2. items (csClients cs) addr = Some (old, e) \<and> e < t \<and> (store_step L G)\<^sup>*\<^sup>* cs1 cs2 \<longrightarrow>
        old \<noteq> c \<and> old \<in> csOpen cs2 \<and> (\<forall>t' addr'. cacheGet G (csClients cs2) t' addr' \<noteq> Some old))"
proof (intro conjI allI impI)
  have ok: "store_ok L items cs" using go_cache.run_ok [OF assms(1,2) go_cache.store_ok_new [OF assms(1)]] .
  show "c \<in> csOpen cs1" "dialOK L addr" using go_cache.Get_result(2,3) [OF assms(1,3) ok ok] by auto
  fix old e cs2
  assume "items (csClients cs) addr = Some (old, e) \<and> e < t \<and> (store_step L G)\<^sup>*\<^sup>* cs1 cs2"
  then have old: "items (csClients cs) addr = Some (old, e)" "e < t" and run: "(store_step L G)\<^sup>*\<^sup>* cs1 cs2" by simp_all
  show "old \<noteq> c" using go_cache.Get_loses(2) [OF assms(1,3) old ok] by simp
  have "lost items old cs2" using go_cache.run_lost [OF assms(1) run go_cache.Get_loses(1) [OF assms(1,3) old ok]] .
  then show "old \<in> csOpen cs2" "cacheGet G (csClients cs2) t' addr' \<noteq> Some old" for t' addr'
    by (auto simp: lost_def go_cache.get [OF assms(1)] go_cache.unexpired_Some [OF assms(1)])
qed

text \<open>A connection dialled at time 0 and asked for again just after ten minutes is open for ever.\<close>

theorem client_store_connections_witness:
  "\<exists>cs cs1. ClientStore_Get mem_lib mem_gocache 0 0 (\<lambda>cs. cs) ''a:1'' (NewClientStore mem_gocache) = (Some 0, cs) \<and>
     ClientStore_Get mem_lib mem_gocache 600001 600001 (\<lambda>cs. cs) ''a:1'' cs = (Some 1, cs1) \<and>
     0 \<in> csOpen (evict_clients mem_gocache 2000000 cs1) \<and> 1 \<notin> csOpen (evict_clients mem_gocache 2000000 cs1)"
proof -
  let ?cs = "\<lparr>csClients = (600000, [(''a:1'', 0, 600000)]), csOpen = {0}, csNext = 1\<rparr>"
  let ?cs1 = "\<lparr>csClients = (600000, [(''a:1'', 1, 1200001)]), csOpen = {1, 0}, csNext = 2\<rparr>"
  have 1: "ClientStore_Get mem_lib mem_gocache 0 0 (\<lambda>cs. cs) ''a:1'' (NewClientStore mem_gocache) = (Some 0, ?cs)"
    and 2: "ClientStore_Get mem_lib mem_gocache 600001 600001 (\<lambda>cs. cs) ''a:1'' ?cs = (Some 1, ?cs1)"
    by (simp_all add: ClientStore_Get_def NewClientStore_def mem_gocache_def ClientStore_dial_def)
  have run: "(store_step mem_lib mem_gocache)\<^sup>*\<^sup>* (NewClientStore mem_gocache) ?cs" using store_step.got [OF 1] by blast
  have after: "(store_step mem_lib mem_gocache)\<^sup>*\<^sup>* ?cs1 (evict_clients mem_gocache 2000000 ?cs1)" using store_step.swept by blast
  have "map_of (snd (csClients ?cs)) ''a:1'' = Some (0, 600000) \<and> (600000 :: int) < 600001" by simp
  then have "0 \<in> csOpen (evict_clients mem_gocache 2000000 ?cs1)"
    using client_store_connections [OF mem_clients.go_cache_axioms run 2] after by blast
  moreover have "1 \<notin> csOpen (evict_clients mem_gocache 2000000 ?cs1)" by (simp add: evict_clients_def mem_gocache_def)
  ultimately show ?thesis using 1 2 by blast
qed

end
