(* ===== verification/Command_Channel.thy ===== *)
theory Command_Channel
  imports Client
begin

text \<open>
  The channel of a command in \<^verbatim>\<open>BFTRaftClient.ExecCommand\<close>.  It is not buffered: every answer - that of the leader and one from the feedback
  server for each follower - is sent by a goroutine of its own, which blocks until \<^verbatim>\<open>ExecCommand\<close> receives the value.  \<^verbatim>\<open>ExecCommand\<close>
  receives only as many answers as it expects, and closes the channel when it returns; a goroutine that is blocked on a channel when the channel is closed
  panics, and the process with it.  The lemmas show that what is returned is what \<open>await_responses\<close> says of the answers in the order of
  their arrival, and when the client crashes.
\<close>

section \<open>States of a command\<close>

text \<open>
  Before the hosts of the group are known nothing is received.  Then there are the values received and the values of the goroutines that are blocked.
\<close>

datatype command_state =
    Asking "bytes list"
  | Waiting "bytes list" "bytes list"
  | Returned "client_error + bytes"
  | Crashed

text \<open>The deferred \<^verbatim>\<open>close\<close>.\<close>

definition close_channel :: "bytes list \<Rightarrow> client_error + bytes \<Rightarrow> command_state" where
  "close_channel blocked result = (if blocked = [] then Returned result else Crashed)"

text \<open>
  The states that \<^verbatim>\<open>ExecCommand\<close> can be in after the answers \<open>rs\<close> have arrived.  \<open>expected\<close> is the number of answers it expects, and
  \<open>None\<close> when the hosts of the group are not found.  After it has returned, the channel is no longer in the table, and who sends to it blocks for
  ever.  The timer may go off also when all answers have been received, but not while there is one that could be received.
\<close>

inductive command_run :: "(u64 \<times> int) map_order \<Rightarrow> nat option \<Rightarrow> bytes list \<Rightarrow> command_state \<Rightarrow> bool" for ord expected where
  opened: "command_run ord expected [] (Asking [])"
| early: "command_run ord expected rs (Asking blocked) \<Longrightarrow> command_run ord expected (rs @ [r]) (Asking (blocked @ [r]))"
| no_hosts: "command_run ord expected rs (Asking blocked) \<Longrightarrow> expected = None \<Longrightarrow>
    command_run ord expected rs (close_channel blocked (Inl NoGroupHosts))"
| hosts: "command_run ord expected rs (Asking blocked) \<Longrightarrow> expected = Some n \<Longrightarrow> command_run ord expected rs (Waiting [] blocked)"
| arrived: "command_run ord expected rs (Waiting received blocked) \<Longrightarrow>
    command_run ord expected (rs @ [r]) (Waiting received (blocked @ [r]))"
| receive: "command_run ord expected rs (Waiting received (r # blocked)) \<Longrightarrow> expected = Some n \<Longrightarrow> length received < n \<Longrightarrow>
    command_run ord expected rs (Waiting (received @ [r]) blocked)"
| completed: "command_run ord expected rs (Waiting received blocked) \<Longrightarrow> expected = Some (length received) \<Longrightarrow>
    command_run ord expected rs (close_channel blocked (await_responses ord (length received) received))"
| timed_out: "command_run ord expected rs (Waiting received blocked) \<Longrightarrow> blocked = [] \<or> expected = Some (length received) \<Longrightarrow>
    command_run ord expected rs (close_channel blocked (Inl NotEnoughResponses))"
| late: "command_run ord expected rs (Returned result) \<Longrightarrow> command_run ord expected (rs @ [r]) (Returned result)"
| crashed: "command_run ord expected rs Crashed \<Longrightarrow> command_run ord expected (rs @ [r]) Crashed"

section \<open>What holds in every state\<close>

text \<open>Answers are neither lost nor reordered, and no more are received than expected.\<close>

fun command_ok :: "(u64 \<times> int) map_order \<Rightarrow> nat option \<Rightarrow> bytes list \<Rightarrow> command_state \<Rightarrow> bool" where
  "command_ok ord expected rs (Asking blocked) \<longleftrightarrow> rs = blocked"
| "command_ok ord expected rs (Waiting received blocked) \<longleftrightarrow>
     rs = received @ blocked \<and> (\<exists>n. expected = Some n \<and> length received \<le> n)"
| "command_ok ord expected rs (Returned (Inr d)) \<longleftrightarrow> (\<exists>n. expected = Some n \<and> await_responses ord n rs = Inr d)"
| "command_ok ord expected rs (Returned (Inl err)) \<longleftrightarrow> (err = NoGroupHosts \<longleftrightarrow> expected = None) \<and> err \<noteq> LeaderNotFound"
| "command_ok ord expected rs Crashed \<longleftrightarrow> (case expected of None \<Rightarrow> rs \<noteq> [] | Some n \<Rightarrow> n < length rs)"

lemma await_responses_prefix:
  "await_responses ord n rs = Inr d \<Longrightarrow> await_responses ord n (rs @ rs') = Inr d"
  by (simp add: await_responses_def split: if_splits)

lemma await_responses_all: "\<exists>d. await_responses ord (length rs) rs = Inr d"
  by (simp add: await_responses_def case_prod_unfold Let_def)

lemma command_run_ok: "command_run ord expected rs st \<Longrightarrow> command_ok ord expected rs st"
proof (induction rule: command_run.induct)
  case (completed rs received blocked)
  then show ?case using await_responses_all [of ord received] by (auto simp: close_channel_def)
next
  case (late rs result r)
  then show ?case by (cases result) (auto dest: await_responses_prefix)
next
  case (crashed rs r)
  then show ?case by (cases expected) auto
qed (auto simp: close_channel_def split: option.splits)

section \<open>Runs\<close>

lemma run_asking: "command_run ord expected rs (Asking rs)"
  by (induction rs rule: rev_induct) (auto intro: command_run.intros)

lemma run_received:
  assumes "k \<le> n" "k \<le> length rs"
  shows "command_run ord (Some n) rs (Waiting (take k rs) (drop k rs))"
  using assms
proof (induction k)
  case 0
  then show ?case using command_run.hosts [OF run_asking] by simp
next
  case (Suc k)
  then have "drop k rs = rs ! k # drop (Suc k) rs" by (simp add: Cons_nth_drop_Suc)
  with Suc have "command_run ord (Some n) rs (Waiting (take k rs) (rs ! k # drop (Suc k) rs))" by simp
  from command_run.receive [OF this refl] Suc show ?case by (simp add: take_Suc_conv_app_nth)
qed

section \<open>Results\<close>

text \<open>
  C9.  The client gets the result that \<open>await_responses\<close> computes from the answers in the order of their arrival, whenever they arrive and whether
  or not the hosts of the group are known before; and with as many answers as it expects it can get this result.
\<close>

theorem command_result:
  "(\<exists>rs'. prefix rs' rs \<and> command_run ord (Some n) rs' (Returned (Inr d))) \<longleftrightarrow> await_responses ord n rs = Inr d"
proof
  assume "\<exists>rs'. prefix rs' rs \<and> command_run ord (Some n) rs' (Returned (Inr d))"
  then show "await_responses ord n rs = Inr d"
    using command_run_ok await_responses_prefix by (fastforce simp: prefix_def)
next
  assume d: "await_responses ord n rs = Inr d"
  then have n: "n \<le> length rs" "await_responses ord n (take n rs) = Inr d" by (auto simp: await_responses_def split: if_splits)
  then have "command_run ord (Some n) (take n rs) (Waiting (take n rs) [])" using run_received [of n n "take n rs" ord] by simp
  from command_run.completed [OF this] n have "command_run ord (Some n) (take n rs) (Returned (Inr d))" by (simp add: close_channel_def min_absorb2)
  then show "\<exists>rs'. prefix rs' rs \<and> command_run ord (Some n) rs' (Returned (Inr d))" using take_is_prefix by blast
qed

lemma crash_run:
  assumes "case expected of None \<Rightarrow> rs \<noteq> [] | Some n \<Rightarrow> n < length rs"
  shows "command_run ord expected rs Crashed"
proof (cases expected)
  case None
  with assms command_run.no_hosts [OF run_asking, of expected ord rs] show ?thesis by (simp add: close_channel_def)
next
  case (Some n)
  with assms have n: "n < length rs" by simp
  then have "command_run ord expected rs (Waiting (take n rs) (drop n rs))" using Some run_received by simp
  from command_run.completed [OF this] n Some show ?thesis by (simp add: close_channel_def min_absorb2)
qed

text \<open>In a group of three or more whose members all answer a command, the client may crash.\<close>

lemma full_group_crashes:
  assumes "3 \<le> length rs"
  shows "command_run ord (Some (nat (ExpectedPlayers (int (length rs))))) rs Crashed"
  by (rule crash_run) (use assms in \<open>simp add: ExpectedPlayers_eq\<close>)


end
