(* ===== verification/Spec2Isabelle.thy ===== *)
theory Spec2Isabelle
  imports Reference_Libraries Vote_Properties Network_Properties Election_Properties Log_Matching Locks Commands Unit_Tests Client_Store
    Client_Runs Command_Channel
begin

text \<open>
  BFTRaft4go: a replicated log for groups of nodes that do not trust each other.  This development models the Go code of the server
  (\<^verbatim>\<open>server/\<close>), the client library (\<^verbatim>\<open>client/\<close>) and their shared helpers (\<^verbatim>\<open>utils/\<close>), and proves what the code guarantees and, where it
  differs from what its comments promise, what it does instead.

  The program.  A node is a \<^verbatim>\<open>BFTRaftServer\<close>.  It stores hosts, groups, peers and the logs of groups in a key-value database (badger) and
  takes part in several groups, each an \<^verbatim>\<open>RTGroup\<close> with a role (leader, follower, candidate, observer).  Clients send signed commands to
  \<^verbatim>\<open>ExecCommand\<close>; the leader appends an entry whose hash covers the previous entry's hash, replicates it by \<^verbatim>\<open>SendFollowersHeartbeat\<close>, and
  commits it by running the function it names.  Followers check the hashes in \<^verbatim>\<open>AppendEntries\<close>, append and commit.  Time wheels start elections
  (\<^verbatim>\<open>BecomeCandidate\<close>, \<^verbatim>\<open>RequestVote\<close>); a new leader proves its election with signed votes (\<^verbatim>\<open>BecomeFollower\<close>).  A special alpha group keeps
  hosts, groups and members, with state machine functions of its own.  Clients ask several nodes and take the answer of a majority.

  Theories, in the order of their imports:

  \<^item> \<open>Prelude\<close>: types of bytes and words, decimal printing, cache keys, lemmas shared by all others.
  \<^item> \<open>Encoding\<close>, \<open>Hashing\<close> (\<^verbatim>\<open>utils/encoding.go\<close>, \<^verbatim>\<open>utils/signature.go\<close>): big-endian numbers, FNV-1a and SHA-1 written out.
  \<^item> \<open>Consensus\<close> (\<^verbatim>\<open>utils/consensus.go\<close>): quorum arithmetic, \<^verbatim>\<open>PickMajority\<close>, \<^verbatim>\<open>MajorityResponse\<close>.  The locale \<open>quorum_rule\<close> states
    what elections need of a quorum size and is interpreted by \<^verbatim>\<open>ExpectedPlayers\<close>.
  \<^item> \<open>Messages\<close> (\<^verbatim>\<open>proto/\<close>, the signed strings of \<^verbatim>\<open>utils/shares.go\<close>, \<^verbatim>\<open>server/vote.go\<close>, \<^verbatim>\<open>server/log_entries.go\<close>).
  \<^item> \<open>Libraries\<close>: what is not under \<^verbatim>\<open>src/\<close>, a record of functions that is an argument \<open>L\<close> of every definition that uses it, and the locales
    \<open>badger\<close>, \<open>protobuf\<close>, \<open>rsa\<close> and \<open>libraries\<close> with the documented behaviour; \<open>Reference_Libraries\<close> interprets them with an in-memory store.
  \<^item> \<open>Store\<close> (\<^verbatim>\<open>server/store.go\<close>), \<open>Log_Entries\<close> (\<^verbatim>\<open>server/log_entries.go\<close>, \<^verbatim>\<open>server/peers.go\<close>): keys and the log of a group.  The
    abstract log \<open>group_log L db g\<close> is the list of the entries stored under the group's prefix; \<open>log_ok\<close> is the invariant of the store and \<open>chained\<close>
    that of the hashes.  The operations are shown to act on this list (refinement).
  \<^item> \<open>Server_State\<close> (\<^verbatim>\<open>server/hosts.go\<close>, \<^verbatim>\<open>server/group.go\<close>, \<^verbatim>\<open>server/peers.go\<close>): the server, its caches, its groups.
  \<^item> \<open>State_Machine\<close> (\<^verbatim>\<open>server/membership.go\<close>, \<^verbatim>\<open>CommitGroupLog\<close>), \<open>Time_Wheel\<close> (timers), \<open>Vote\<close> (\<^verbatim>\<open>RequestVote\<close>, \<^verbatim>\<open>BecomeFollower\<close>),
    \<open>Append\<close> (\<^verbatim>\<open>AppendEntries\<close>), \<open>Heartbeat\<close> (\<^verbatim>\<open>SendFollowersHeartbeat\<close>), \<open>Observer\<close> (\<^verbatim>\<open>PullGroupLogs\<close>, \<^verbatim>\<open>PullAndCommitGroupLogs\<close>),
    \<open>Election\<close> (\<^verbatim>\<open>BecomeCandidate\<close>, \<^verbatim>\<open>BecomeLeader\<close>, \<^verbatim>\<open>StartTimeWheel\<close>), \<open>Server\<close> (\<^verbatim>\<open>server/bftraft.go\<close>), \<open>Client\<close> (\<^verbatim>\<open>client/\<close>),
    \<open>Connections\<close> (\<^verbatim>\<open>utils/conns.go\<close>, \<^verbatim>\<open>utils/rpcs.go\<close>: the locale \<open>get_or_create\<close> states the contract of maps that are filled on demand
    and is interpreted by connections, server objects and the caches of hosts and groups), \<open>Client_Store\<close> (\<^verbatim>\<open>server/clients.go\<close>: the
    connections to clients, over a cache that the locale \<open>go_cache\<close> describes, with the connections that are open as part of the state;
    \<open>store_step\<close> are its steps), \<open>Membership\<close> (registration, joining, cold start, synchronisation with the alpha group, configuration and
    start-up), \<open>Startup\<close> (\<^verbatim>\<open>test/testserver.go\<close>, \<^verbatim>\<open>ReadConfigFile\<close>: the program that starts a server; a new server is well typed, and leads the
    alpha group alone when it has nobody to bootstrap from).
  \<^item> \<open>Hosting\<close>, \<open>System\<close>: a server as a state machine.  \<open>message_step\<close> is the handling of one message, \<open>server_step\<close> adds the rounds of the
    time wheels and votes that wait for them.  Every step is shown to keep the invariant \<open>intact\<close> (the table of hosted groups, well-formed
    logs, hash chains), to extend logs only at their end, and, for messages, never to make the server a leader or a candidate
    (\<open>no_promotion\<close>); and to keep the groups that are hosted and the typing of the maps of peers (\<open>hosting\<close>, \<open>well_typed\<close>).
    Rounds of observers are not steps: \<^verbatim>\<open>AppendEntryToLocal\<close> does not check that an entry follows the last one.
  \<^item> \<open>Replication\<close>: a world of servers at addresses that answer each other's heartbeats (\<open>heartbeat_round\<close>).  \<open>Feedback\<close>: the results
    that followers send to clients.  \<open>Commands\<close>: a command in such a world (\<open>command_round\<close>), from \<^verbatim>\<open>ExecCommand\<close> at the leader to the logs of
    all members and the results at the client.  \<open>Locks\<close>: heartbeats in steps (\<open>heartbeat_step\<close>), in which a server that waits for answers holds the
    lock of its group and serves no calls; \<open>round_in_steps\<close> shows that one heartbeat in steps is the round, \<open>heartbeats_deadlock\<close> that two
    can block each other, and \<open>no_cycle_no_deadlock\<close> that only a cycle of servers that wait for each other does.
  \<^item> \<open>Client_Runs\<close>: a client over time, with the expiry of its caches.  \<open>Command_Channel\<close>: the channel on which a client waits for the answers
    to a command, with the goroutines that are blocked on it (\<open>command_run\<close>).  \<open>Unit_Tests\<close>: the tests of the repository.
  \<^item> \<open>Log_Matching\<close>: the logs of two servers after any runs agree up to entries with the same hash.  \<open>Safety\<close>, \<open>Election_Properties\<close>: election
    safety.  The history of a voter is a sequence of its states (\<open>hist\<close>); \<open>cast_by\<close> says that an answer is one its \<^verbatim>\<open>RequestVote\<close> gave
    in this history, and \<open>careful_voter\<close> that no vote is forgotten before the group has reached its term.  The code does not ensure the
    latter: a request for a lower term makes a voter forget its vote (\<open>double_vote\<close>).
  \<^item> \<open>Examples\<close>: a cluster on the in-memory libraries.  \<open>Log_Properties\<close>, \<open>Vote_Properties\<close>, \<open>Network_Properties\<close> and this theory: the properties,
    with the assumptions on the libraries as premises, and a run of each on the cluster.

  Conventions.  A \<^verbatim>\<open>uint64\<close> is a 64-bit word; a pointer that may be nil is an option; the result \<open>None\<close> of an operation is a panic, an exit of the
  process or a wait that never ends; errors are \<open>Inl\<close>.  Operations take the state of the server and return it.  A Go map whose iteration order
  matters is an association list, or the order is an argument (\<open>map_order\<close>), so that statements hold for every order.  \<open>RTGroup\<close> objects
  live in the list \<open>srvRTGroups\<close> and a pointer is an index.  The network is a function from what is sent to what is answered, in the order of
  arrival; the clock, the random numbers and the rounding of \<^verbatim>\<open>float32\<close> are in the record \<open>clock\<close>; what other goroutines do to the server
  while an operation waits is an argument (\<open>polls\<close>, \<open>env\<close>).  No definition needs fuel: loops are structural or have a measure, the lazy vote
  ending after twenty polls.

  What the lemmas show.  Of the log: every handler only extends it by entries that continue the indices and the hash chain, along any run of
  a server it only grows at its end, requests of the right form are accepted, and one heartbeat makes the logs of all
  followers equal to the leader's; a command that reaches the leader is appended everywhere, and its result is what the leader and the followers send.
  The logs of any two servers match.  Of votes: one per term, any two leaders that
  were accepted by servers with the same peers share a voter, and two candidates cannot win the same term when the voters are careful.  Of servers: from
  their creation on, the maps of peers are keyed by their ids.  Of the library: majority answers are the right ones, and the commands of a client are
  numbered and signed.  Several theorems document faults: a candidate never gets its own vote, observers never catch up, a start-up state that panics, leaders
  that block each other, and a client that crashes when a whole group answers it.

  Not modelled: consistent hashing (\<^verbatim>\<open>server/conshash.go\<close> is an empty package), the functions of \<^verbatim>\<open>server/consensus.go\<close> whose bodies are
  commented out (the approval of entries by the peers), the generated protobuf code apart from its structures, and, as parts of libraries the sources only
  call, dialling, listening and the registration of services with grpc, the gob encoding of \<^verbatim>\<open>GetBytes\<close>, which nothing calls, and JSON.  Nothing else of the
  Go code is left out but the interleaving of goroutines inside an operation: handlers are atomic apart from the waits above, and of the locks only
  that of a group during a heartbeat is part of a state.  The lock is recursive and excludes some of what \<open>env\<close> ranges over while a candidate
  waits, so that statements for every \<open>env\<close> cover the code; data races on the maps that the code does not lock are outside the model.  The flags \<^verbatim>\<open>IsBusy\<close> are never
  read.  \<^verbatim>\<open>GetGroup\<close> returns copies of the cached group, except where \<open>SyncAlphaGroup\<close> writes through the pointer.
\<close>

section \<open>Replication\<close>

text \<open>
  Replication works: a leader with an intact log, a follower whose log is a proper prefix of it and who accepts this leader,
  and an entry for the follower among the leader's peers that tracks the follower's log.  The request \<^verbatim>\<open>SendFollowersHeartbeat\<close> builds
  for this peer is accepted by the follower's \<^verbatim>\<open>AppendEntries\<close>, and the follower's log is then the leader's.
\<close>

theorem heartbeat_replication:
  assumes "libraries L" "no_io_errors L" "log_ok L (srvDB sl) g" "log_ok L (srvDB sf) g"
    and "gid sl ml = g" "chained (genesisHash g) (group_log L (srvDB sl) g)" "contiguous 1 (group_log L (srvDB sl) g)"
      "length (group_log L (srvDB sl) g) + 1 < 2 ^ 64"
    and "mf < length (srvRTGroups sf)" "gid sf mf = g" "keys_ok L sf" "map_of (rtGroupPeers (rt sf mf)) (srvId sl) \<noteq> None"
      "rtLeader (rt sf mf) = srvId sl" "pubkey L sf (srvId sl) \<noteq> None"
    and "group_log L (srvDB sl) g = group_log L (srvDB sf) g @ rest" "rest \<noteq> []" "\<forall>e \<in> set rest. committable (srvFuncReg sf) g e"
    and "peer_tracks L (srvDB sf) g peer" "PeerUncommittedLogEntries L (srvDB sl) g peer = (es, prev)"
  shows "\<exists>resp sf'. AppendEntries L C sf mf (heartbeat_request L ml es prev sl) = Some (Inr resp, sf') \<and> arSuccessed resp \<and>
     group_log L (srvDB sf') g = group_log L (srvDB sl) g"
  by (rule libraries.heartbeat_replicates [OF assms(1-16) _ assms(18,19) refl]) (use assms(17) in blast)

theorem heartbeat_replication_witness:
  "\<exists>es prev resp sf'. PeerUncommittedLogEntries mem_lib (srvDB ex_leader) 7 (ex_peer 2) = (es, prev) \<and>
     AppendEntries mem_lib ex_clock ex_follower 0 (heartbeat_request mem_lib 0 es prev ex_leader) = Some (Inr resp, sf') \<and>
     group_log mem_lib (srvDB sf') 7 = [ex_e1, ex_e2]"
proof -
  obtain es prev where u: "PeerUncommittedLogEntries mem_lib (srvDB ex_leader) 7 (ex_peer 2) = (es, prev)" by fastforce
  have leader: "srvDB ex_leader = ex_db2" "gid ex_leader 0 = 7" "srvId ex_leader = 1" by (simp_all add: ex_leader_def)
  have c: "\<forall>e \<in> set [ex_e2]. committable (srvFuncReg ex_follower) 7 e" by (simp add: ex_append_facts ex_committable)
  have t: "peer_tracks mem_lib (srvDB ex_follower) 7 (ex_peer 2)" by (simp add: ex_append_facts ex_tracks)
  have "\<exists>resp sf'. AppendEntries mem_lib ex_clock ex_follower 0 (heartbeat_request mem_lib 0 es prev ex_leader) = Some (Inr resp, sf') \<and>
      arSuccessed resp \<and> group_log mem_lib (srvDB sf') 7 = group_log mem_lib (srvDB ex_leader) 7"
    by (rule heartbeat_replication [OF mem.libraries_axioms mem_io _ _ _ _ _ _ _ _ _ _ _ _ _ _ c t u])
      (simp_all add: ex_append_facts leader ex_log1 ex_log2 ex_chained del: contiguous.simps chained.simps)
  with u show ?thesis by (auto simp: leader ex_log2)
qed

section \<open>Runs of a server\<close>

text \<open>
  C3.  The log of a server is append-only, whatever it is sent: along every run of a server - messages, commands, votes, elections, heartbeats
  and joins in any order, with any network - every group's log only grows at its end, and its store and hash chain stay intact.
\<close>

theorem server_logs_append_only:
  assumes "libraries L" "(server_step L)\<^sup>*\<^sup>* s s'" "onboard_ok s"
    and "\<And>g. log_ok L (srvDB s) g" "\<And>g. chained (genesisHash g) (group_log L (srvDB s) g)"
  shows "prefix (group_log L (srvDB s) g) (group_log L (srvDB s') g) \<and>
     log_ok L (srvDB s') g \<and> chained (genesisHash g) (group_log L (srvDB s') g) \<and> onboard_ok s'"
  using libraries.run_grows [OF assms(1,2)] assms(3-5) by (simp add: grows_def intact_def)

theorem server_logs_append_only_witness:
  "\<exists>s'. (server_step mem_lib)\<^sup>*\<^sup>* ex_alone s' \<and> group_log mem_lib (srvDB s') 7 = [new_entry mem_lib 0 ex_signed ex_alone] \<and>
     chained (genesisHash 7) (group_log mem_lib (srvDB s') 7) \<and> onboard_ok s'"
proof -
  obtain r s1 where x: "ExecCommand mem_lib ex_clock (\<lambda>sent. []) (\<lambda>a c. None) (\<lambda>ps. ps) ex_alone ex_signed = Some (Some r, s1)"
    "group_log mem_lib (srvDB s1) 7 = [new_entry mem_lib 0 ex_signed ex_alone]" using ex_alone_runs by blast
  let ?s' = "SendGroupInvitation s1 \<lparr>invGroup = 7, invLeader = 1, invNode = 1, invSignature = []\<rparr>"
  have "message_step mem_lib ex_alone s1" using x(1) by (rule message_step.exec) (simp add: ex_alone_facts)
  then have "server_step mem_lib ex_alone s1" by (rule server_step.message)
  moreover have "server_step mem_lib s1 ?s'" by (intro server_step.message message_step.invited)
  ultimately have run: "(server_step mem_lib)\<^sup>*\<^sup>* ex_alone ?s'" by simp
  moreover have "group_log mem_lib (srvDB ?s') 7 = [new_entry mem_lib 0 ex_signed ex_alone]"
    using x(2) by (simp add: SendGroupInvitation_def split: option.split)
  moreover have "chained (genesisHash 7) (group_log mem_lib (srvDB ?s') 7) \<and> onboard_ok ?s'"
    using server_logs_append_only [OF mem.libraries_axioms run] by (simp add: ex_alone_facts mem_log_empty)
  ultimately show ?thesis by blast
qed

section \<open>The first node of a network\<close>

text \<open>
  C14.  A network starts with one node: after \<^verbatim>\<open>ColdStart\<close> it leads the alpha group alone, and the command with which an unknown host
  registers itself - which nobody could verify - is appended to the empty log and committed, and the host is stored under the hash of
  its public key.
\<close>

theorem cold_start_registers_host:
  assumes "libraries L" "ColdStart L now s b = Some (s1, b1)" "onboard_ok s" "no_io_errors L" "srvFuncReg s REG_NODE = Some FnRegHost"
    and "log_ok L (srvDB s) ALPHA_GROUP" "group_log L (srvDB s) ALPHA_GROUP = []"
    and "cmdGroup cmd = ALPHA_GROUP" "cmdFuncId cmd = REG_NODE" "fst (GetHostNTXN L s1 (cmdClientId cmd)) = None"
    and "unmarshalHost L (cmdArg cmd) = (h, True)"
      "marshalHost L (h\<lparr>hostId := HashPublicKeyBytes (hostPublicKey h), hostOnline := True\<rparr>) = Some d"
  shows "\<exists>r s2 e. ExecCommand L C net fwd ord s1 cmd = Some (Some r, s2) \<and> crResult r = [1] \<and>
     kv L (srvDB s2) (HostKey (HashPublicKeyBytes (hostPublicKey h))) = Some d \<and>
     group_log L (srvDB s2) ALPHA_GROUP = [e] \<and> leCommand e = Some cmd \<and> leIndex e = 1"
  by (rule libraries.cold_start_registers [OF assms])

definition ex_fresh :: "memdb BFTRaftServer" where
  "ex_fresh = RegisterMembershipCommands (fresh_server 1 ex_opts [] ex_key)"

definition ex_reg :: CommandRequest where
  "ex_reg = \<lparr>cmdGroup = ALPHA_GROUP, cmdClientId = 5, cmdRequestId = 1, cmdFuncId = REG_NODE, cmdSignature = [], cmdArg = enc_host ex_host\<rparr>"

definition ex_client :: BFTRaftClient where
  "ex_client = \<lparr>brcId = 1, brcPrivateKey = ex_key, brcAlphaRPCs = NewAlphaRPCsCache 0 [], brcGroupHosts = Map.empty,
     brcGroupLeader = Map.empty, brcCmdResChan = Map.empty, brcCounter = 0\<rparr>"

theorem cold_start_registers_host_witness:
  "\<exists>s1 b1 r s2. ColdStart mem_lib 0 ex_fresh ex_client = Some (s1, b1) \<and>
     ExecCommand mem_lib ex_clock (\<lambda>sent. []) (\<lambda>a c. None) (\<lambda>ps. ps) s1 ex_reg = Some (Some r, s2) \<and> crResult r = [1]"
proof -
  have f: "srvDB ex_fresh = []" "srvFuncReg ex_fresh REG_NODE = Some FnRegHost" "onboard_ok ex_fresh" "srvHosts ex_fresh = Map.empty" "srvId ex_fresh = 1"
    by (simp_all add: ex_fresh_def RegisterMembershipCommands_def RegisterRaftFunc_def fresh_server_def onboard_ok_def GetOnboardGroup_def
        REG_NODE_def NODE_JOIN_def NEW_CLIENT_def NEW_GROUP_def)
  obtain s1 b1 where c: "ColdStart mem_lib 0 ex_fresh ex_client = Some (s1, b1)"
    and h: "srvHosts s1 = Map.empty" "kv mem_lib (srvDB s1) (HostKey 5) = None"
    by (simp add: ColdStart_def updateDB_def cold_start_txn_def SaveGroup_def SavePeer_def SaveHost_def f Let_def NewRTGroup_def
        SetOnboardGroup_def kv_mem update_conv')
  have "fst (GetHostNTXN mem_lib s1 5) = None"
    using h by (simp add: GetHostNTXN_def GetHost_def kv_mem mem_get_def)
  then have "\<exists>r s2 e. ExecCommand mem_lib ex_clock (\<lambda>sent. []) (\<lambda>a c. None) (\<lambda>ps. ps) s1 ex_reg = Some (Some r, s2) \<and> crResult r = [1] \<and>
     kv mem_lib (srvDB s2) (HostKey (HashPublicKeyBytes (hostPublicKey ex_host))) =
       Some (enc_host (ex_host\<lparr>hostId := HashPublicKeyBytes (hostPublicKey ex_host), hostOnline := True\<rparr>)) \<and>
     group_log mem_lib (srvDB s2) ALPHA_GROUP = [e] \<and> leCommand e = Some ex_reg \<and> leIndex e = 1"
    using f by (intro cold_start_registers_host [OF mem.libraries_axioms c]) (simp_all add: mem_log_empty ex_reg_def)
  with c show ?thesis by blast
qed

end
